(* ===== verification/Prelude.thy ===== *)
theory Prelude
  imports Main
begin

section \<open>Prelude: rows by key, sums over rows, Python text\<close>

text \<open>
  What the components share: a database table is a list of rows in the order the
  database scans them, read with \<open>find_by\<close> (the first row with a key) and changed in
  place with \<open>upd_by\<close>; the ledger of stock is a \<open>sum_list\<close> over rows; Python's
  \<open>str\<close> of an integer and \<open>rstrip\<close>.
  The locale \<open>row_store\<close> states what a repository promises its clients about
  reading after writing; \<open>Repositories\<close> interprets it for every table that is updated.
\<close>

named_theorems frame_simps \<open>what an operation leaves unchanged\<close>
named_theorems step_defs \<open>definitions of the loop bodies and helpers\<close>

subsection \<open>Rows by key\<close>

definition find_by :: "('r \<Rightarrow> int) \<Rightarrow> int \<Rightarrow> 'r list \<Rightarrow> 'r option" where
  "find_by key k rs = find (\<lambda>r. key r = k) rs"

definition upd_by :: "('r \<Rightarrow> int) \<Rightarrow> int \<Rightarrow> ('r \<Rightarrow> 'r) \<Rightarrow> 'r list \<Rightarrow> 'r list" where
  "upd_by key k f rs = map (\<lambda>r. if key r = k then f r else r) rs"

lemma find_by_Nil [simp]: "find_by key k [] = None"
  by (simp add: find_by_def)

lemma find_by_Cons [simp]:
  "find_by key k (r # rs) = (if key r = k then Some r else find_by key k rs)"
  by (simp add: find_by_def)

lemma upd_by_Nil [simp]: "upd_by key k f [] = []"
  by (simp add: upd_by_def)

lemma upd_by_Cons [simp]:
  "upd_by key k f (r # rs) = (if key r = k then f r else r) # upd_by key k f rs"
  by (simp add: upd_by_def)

lemma find_by_append:
  "find_by key k (xs @ ys) =
     (case find_by key k xs of None \<Rightarrow> find_by key k ys | Some r \<Rightarrow> Some r)"
  by (induction xs) auto

lemma find_by_SomeD:
  assumes "find_by key k rs = Some r"
  shows "r \<in> set rs" and "key r = k"
  using assms by (induction rs) (auto split: if_splits)

lemma find_by_None: "find_by key k rs = None \<longleftrightarrow> k \<notin> key ` set rs"
  by (induction rs) auto

lemma find_by_distinct:
  "distinct (map key rs) \<Longrightarrow> r \<in> set rs \<Longrightarrow> find_by key (key r) rs = Some r"
  by (induction rs) (auto simp: image_iff)

lemma find_by_eq_iff:
  "distinct (map key rs) \<Longrightarrow> find_by key k rs = Some r \<longleftrightarrow> r \<in> set rs \<and> key r = k"
  by (metis find_by_SomeD find_by_distinct)

lemma find_by_upd_same:
  "(\<And>r. key (f r) = key r) \<Longrightarrow> find_by key k (upd_by key k f rs) = map_option f (find_by key k rs)"
  by (induction rs) auto

lemma find_by_upd_other:
  "(\<And>r. key (f r) = key r) \<Longrightarrow> k' \<noteq> k \<Longrightarrow>
     find_by key k' (upd_by key k f rs) = find_by key k' rs"
  by (induction rs) auto

lemma map_upd_by:
  "(\<And>r. g (f r) = g r) \<Longrightarrow> map g (upd_by key k f rs) = map g rs"
  by (induction rs) auto

lemma set_upd_by:
  "set (upd_by key k f rs) = (\<lambda>r. if key r = k then f r else r) ` set rs"
  by (simp add: upd_by_def)

lemma length_upd_by [simp]: "length (upd_by key k f rs) = length rs"
  by (simp add: upd_by_def)

lemma upd_by_absent: "k \<notin> key ` set rs \<Longrightarrow> upd_by key k f rs = rs"
  by (induction rs) auto

lemma upd_by_append: "upd_by key k f (xs @ ys) = upd_by key k f xs @ upd_by key k f ys"
  by (simp add: upd_by_def)

subsection \<open>Sums over rows\<close>

lemma sum_list_upd_by:
  fixes g :: "'r \<Rightarrow> int"
  assumes "distinct (map key rs)" and "find_by key k rs = Some r"
  shows "sum_list (map g (upd_by key k f rs)) = sum_list (map g rs) - g r + g (f r)"
  using assms
proof (induction rs)
  case Nil
  then show ?case by simp
next
  case (Cons x xs)
  then show ?case by (cases "key x = k") (auto simp: upd_by_absent)
qed

lemma sum_list_nonneg_int:
  fixes g :: "'r \<Rightarrow> int"
  shows "(\<And>r. r \<in> set rs \<Longrightarrow> 0 \<le> g r) \<Longrightarrow> 0 \<le> sum_list (map g rs)"
  by (induction rs) auto

lemma sum_list_member_le:
  fixes g :: "'r \<Rightarrow> int"
  assumes "\<And>r. r \<in> set rs \<Longrightarrow> 0 \<le> g r" and "x \<in> set rs"
  shows "g x \<le> sum_list (map g rs)"
  using assms
proof (induction rs)
  case Nil
  then show ?case by simp
next
  case (Cons y ys)
  have tail: "0 \<le> sum_list (map g ys)"
    using Cons.prems(1) by (intro sum_list_nonneg_int) simp
  show ?case
  proof (cases "x = y")
    case True
    with tail show ?thesis by simp
  next
    case False
    with Cons have "g x \<le> sum_list (map g ys)" by simp
    moreover have "0 \<le> g y" using Cons.prems(1) by simp
    ultimately show ?thesis by simp
  qed
qed

lemma sum_list_mono_int:
  fixes g h :: "'r \<Rightarrow> int"
  shows "(\<And>r. r \<in> set rs \<Longrightarrow> g r \<le> h r) \<Longrightarrow> sum_list (map g rs) \<le> sum_list (map h rs)"
  by (induction rs) (auto simp: add_mono)

lemma list_all2_right:
  "list_all2 P xs ys \<Longrightarrow> y \<in> set ys \<Longrightarrow> \<exists>x \<in> set xs. P x y"
  by (induction rule: list_all2_induct) auto

subsection \<open>ORDER BY expression DESC LIMIT 1\<close>

text \<open>
  The first row, in scan order, among those with the largest value.
  SQL leaves the choice among ties to the database: every choice is the result for some
  scan order of the table, and no theorem fixes the scan order.
\<close>

fun first_max :: "('r \<Rightarrow> int) \<Rightarrow> 'r list \<Rightarrow> 'r option" where
  "first_max g [] = None"
| "first_max g (r # rs) =
     (case first_max g rs of
        None \<Rightarrow> Some r
      | Some m \<Rightarrow> if g m > g r then Some m else Some r)"

lemma first_max_None [simp]: "first_max g rs = None \<longleftrightarrow> rs = []"
  by (cases rs) (auto split: option.splits if_splits)

lemma first_max_SomeD:
  "first_max g rs = Some m \<Longrightarrow> m \<in> set rs \<and> (\<forall>r \<in> set rs. g r \<le> g m)"
proof (induction rs arbitrary: m)
  case Nil
  then show ?case by simp
next
  case (Cons r rs)
  show ?case
  proof (cases "first_max g rs")
    case None
    with Cons.prems show ?thesis by simp
  next
    case (Some m')
    with Cons.IH [of m'] Cons.prems show ?thesis
      by (force split: if_splits)
  qed
qed

subsection \<open>Python text\<close>

fun digit_char :: "nat \<Rightarrow> char" where
  "digit_char n = char_of (48 + n)"

fun str_nat :: "nat \<Rightarrow> string" where
  "str_nat n = (if n < 10 then [digit_char n] else str_nat (n div 10) @ [digit_char (n mod 10)])"

declare str_nat.simps [simp del]

definition str_int :: "int \<Rightarrow> string" where
  "str_int i = (if i < 0 then CHR ''-'' # str_nat (nat (- i)) else str_nat (nat i))"

definition rstrip :: "char \<Rightarrow> string \<Rightarrow> string" where
  "rstrip c s = rev (dropWhile (\<lambda>x. x = c) (rev s))"

subsection \<open>The interface of a repository\<close>

text \<open>
  What a client of a table relies on: the row read after a change of the same key is the
  changed row, other keys are untouched, and the row found carries the key asked for.
\<close>

locale row_store =
  fixes look :: "'d \<Rightarrow> int \<Rightarrow> 'r option"
    and modify :: "int \<Rightarrow> ('r \<Rightarrow> 'r) \<Rightarrow> 'd \<Rightarrow> 'd"
    and key :: "'r \<Rightarrow> int"
  assumes look_key: "look d k = Some r \<Longrightarrow> key r = k"
    and look_modify_same:
      "(\<And>r. key (f r) = key r) \<Longrightarrow> look (modify k f d) k = map_option f (look d k)"
    and look_modify_other:
      "(\<And>r. key (f r) = key r) \<Longrightarrow> k' \<noteq> k \<Longrightarrow> look (modify k f d) k' = look d k'"
begin

lemma look_modify:
  "(\<And>r. key (f r) = key r) \<Longrightarrow>
     look (modify k f d) k' = (if k' = k then map_option f (look d k) else look d k')"
  by (simp add: look_modify_same look_modify_other)

lemma modify_dom:
  "(\<And>r. key (f r) = key r) \<Longrightarrow> look (modify k f d) k' = None \<longleftrightarrow> look d k' = None"
  by (simp add: look_modify)

lemma modify_attr:
  assumes "\<And>r. key (f r) = key r" and "\<And>r. g (f r) = g r"
  shows "map_option g (look (modify k f d) k') = map_option g (look d k')"
  using assms by (cases "look d k'") (auto simp: look_modify)

lemma modify_modify_look:
  assumes "\<And>r. key (f r) = key r" and "\<And>r. key (g r) = key r" and "i \<noteq> j"
  shows "look (modify i f (modify j g d)) k = look (modify j g (modify i f d)) k"
  using assms by (auto simp: look_modify)

end

end
