(* ===== verification/Models.thy ===== *)
theory Models
  imports Prelude
begin

section \<open>Models: the rows of the database and the exceptions of the program\<close>

text \<open>
  One record per ORM class of \<open>app/models\<close>, one datatype per enumeration, and the
  database as a record of tables.  The audit columns \<open>created_at\<close> and \<open>updated_at\<close>
  are kept where an operation returns them (reservations and orders) and left out elsewhere: no operation
  reads them.  Timestamps are microseconds since the epoch.
  Exceptions are the values of \<open>exn\<close>: the application errors of
  \<open>app/core/exceptions.py\<close>, the provider errors of \<open>app/providers/base.py\<close>,
  and the Python, httpx and database errors that the code lets pass.
\<close>

subsection \<open>JSON values, as the json module returns them\<close>

text \<open>A finite float is \<open>m * 2 ^ e\<close>, as every IEEE value is.\<close>

datatype json =
    JNull
  | JBool bool
  | JInt int
  | JFloat int int
  | JStr string
  | JList "json list"
  | JObj "(string \<times> json) list"

text \<open>Python's truth value of a JSON value.\<close>

fun truthy :: "json \<Rightarrow> bool" where
  "truthy JNull = False"
| "truthy (JBool b) = b"
| "truthy (JInt n) = (n \<noteq> 0)"
| "truthy (JFloat m e) = (m \<noteq> 0)"
| "truthy (JStr s) = (s \<noteq> [])"
| "truthy (JList xs) = (xs \<noteq> [])"
| "truthy (JObj kvs) = (kvs \<noteq> [])"

subsection \<open>Enumerations\<close>

datatype provider_type = internal | external

datatype reservation_status = Pending | Confirmed | Cancelled | Expired

datatype provider_item_status = ItemPending | Held | ProviderFailed | Released | ItemConfirmed

datatype order_status = OrderCreated | Fulfilled | OrderFailed

fun status_value :: "reservation_status \<Rightarrow> string" where
  "status_value Pending = ''pending''"
| "status_value Confirmed = ''confirmed''"
| "status_value Cancelled = ''cancelled''"
| "status_value Expired = ''expired''"

subsection \<open>Rows\<close>

record provider =
  prov_id :: int
  prov_name :: string
  prov_type :: provider_type
  capabilities :: "(string \<times> json) list"
  auth_config :: "(string \<times> string) list option"
  base_url :: "string option"
  timeout_seconds :: int
  prov_is_active :: bool

record product =
  prod_id :: int
  prod_name :: string
  sku :: string

record inventory =
  inv_id :: int
  inv_product_id :: int
  inv_provider_id :: int
  qty_available :: int
  qty_reserved :: int
  last_synced_at :: "int option"

record reservation =
  res_id :: int
  res_user_id :: string
  res_status :: reservation_status
  expires_at :: int
  res_created_at :: int

record reservation_item =
  item_id :: int
  item_reservation_id :: int
  item_product_id :: int
  item_inventory_id :: int
  item_provider_id :: int
  qty_requested :: int
  provider_hold_ref :: "string option"
  provider_status :: provider_item_status
  provider_error_message :: "string option"

record order_row =
  order_id :: int
  order_reservation_id :: int
  order_user_id :: string
  order_status :: order_status
  order_created_at :: int

text \<open>
  The database, with the AUTO_INCREMENT counters of the tables the service inserts into.
\<close>

record database =
  providers :: "provider list"
  products :: "product list"
  inventories :: "inventory list"
  reservations :: "reservation list"
  reservation_items :: "reservation_item list"
  orders :: "order_row list"
  next_reservation_id :: int
  next_item_id :: int
  next_order_id :: int

subsection \<open>Exceptions\<close>

datatype exn =
    NotFoundError string
  | ConflictError string
  | AuthenticationError string
  | InactiveAccountError string
  | InsufficientStockError string
  | ReservationNotFound string
  | ReservationStateError string
  | DuplicateOrderError string
  | CapabilityNotSupported string
  | ProviderTimeout string
  | ProviderUnavailable string
  | InsufficientProviderStock string
  | ValueError string
  | TypeError string
  | KeyError string
  | AttributeError string
  | ImportError string
  | IndexError string
  | StaleDataError string
  | JSONDecodeError
  | TransportError string
  | IntegrityError string
  | OperationalError string
  | HTTPException int string "(string \<times> string) list"
  | RequestValidationError "(string list \<times> string) list"

text \<open>
  \<open>HTTPException\<close> carries its status, detail and headers, \<open>RequestValidationError\<close> the
  location and the message of each error pydantic found.
\<close>

text \<open>The subclasses of \<open>AppError\<close> and of \<open>ProviderError\<close>.\<close>

fun is_app_error :: "exn \<Rightarrow> bool" where
  "is_app_error (NotFoundError _) = True"
| "is_app_error (ConflictError _) = True"
| "is_app_error (AuthenticationError _) = True"
| "is_app_error (InactiveAccountError _) = True"
| "is_app_error (InsufficientStockError _) = True"
| "is_app_error (ReservationNotFound _) = True"
| "is_app_error (ReservationStateError _) = True"
| "is_app_error (DuplicateOrderError _) = True"
| "is_app_error _ = False"

fun is_provider_error :: "exn \<Rightarrow> bool" where
  "is_provider_error (CapabilityNotSupported _) = True"
| "is_provider_error (ProviderTimeout _) = True"
| "is_provider_error (ProviderUnavailable _) = True"
| "is_provider_error (InsufficientProviderStock _) = True"
| "is_provider_error _ = False"

end
