(* ===== verification/Repositories.thy ===== *)
theory Repositories
  imports Models
begin

section \<open>Repositories: the queries of app/repositories\<close>

text \<open>
  A query is evaluated on the tables of the session.  The session runs with
  \<open>autoflush=False\<close>, but no operation of the services queries a table by an attribute
  it has changed before in the same session, so the rows the database would return are
  the rows of the session, and the identity map makes them the same objects: reading
  and changing rows in place models both.
  A SELECT without ORDER BY returns rows in the scan order, the order of the table's list.
  \<open>FOR UPDATE\<close> has no effect inside one session; what it does between sessions is
  not modelled.
\<close>

subsection \<open>Relationships loaded with a row\<close>

definition get_provider :: "database \<Rightarrow> int \<Rightarrow> provider option" where
  "get_provider d k = find_by prov_id k (providers d)"

definition get_product :: "database \<Rightarrow> int \<Rightarrow> product option" where
  "get_product d k = find_by prod_id k (products d)"

subsection \<open>InventoryRepository\<close>

definition effective :: "inventory \<Rightarrow> int" where
  "effective r = qty_available r - qty_reserved r"

definition get_inventory :: "database \<Rightarrow> int \<Rightarrow> inventory option" where
  "get_inventory d k = find_by inv_id k (inventories d)"

definition get_by_product_for_update :: "database \<Rightarrow> int \<Rightarrow> inventory option" where
  "get_by_product_for_update d p = find_by inv_product_id p (inventories d)"

definition get_best_available :: "database \<Rightarrow> int \<Rightarrow> inventory option" where
  "get_best_available d p =
     first_max effective (filter (\<lambda>r. inv_product_id r = p) (inventories d))"

definition get_by_id_for_update :: "database \<Rightarrow> int \<Rightarrow> inventory option" where
  "get_by_id_for_update d k = get_inventory d k"

definition get_all_by_provider :: "database \<Rightarrow> int \<Rightarrow> inventory list" where
  "get_all_by_provider d p = filter (\<lambda>r. inv_provider_id r = p) (inventories d)"

definition get_all_by_product :: "database \<Rightarrow> int \<Rightarrow> inventory list" where
  "get_all_by_product d p = filter (\<lambda>r. inv_product_id r = p) (inventories d)"

subsection \<open>ReservationRepository\<close>

definition get_reservation :: "database \<Rightarrow> int \<Rightarrow> reservation option" where
  "get_reservation d k = find_by res_id k (reservations d)"

definition items_of :: "database \<Rightarrow> int \<Rightarrow> reservation_item list" where
  "items_of d k = filter (\<lambda>t. item_reservation_id t = k) (reservation_items d)"

definition get_with_items :: "database \<Rightarrow> int \<Rightarrow> (reservation \<times> reservation_item list) option" where
  "get_with_items d k = map_option (\<lambda>r. (r, items_of d (res_id r))) (get_reservation d k)"

definition past_ttl :: "int \<Rightarrow> reservation \<Rightarrow> bool" where
  "past_ttl now r \<longleftrightarrow> res_status r = Pending \<and> expires_at r < now"

definition get_expired_pending ::
    "int \<Rightarrow> database \<Rightarrow> int \<Rightarrow> (reservation \<times> reservation_item list) list" where
  "get_expired_pending now d limit =
     map (\<lambda>r. (r, items_of d (res_id r)))
       (take (nat limit) (filter (past_ttl now) (reservations d)))"

subsection \<open>OrderRepository\<close>

definition get_order :: "database \<Rightarrow> int \<Rightarrow> order_row option" where
  "get_order d k = find_by order_id k (orders d)"

definition get_by_reservation_id :: "database \<Rightarrow> int \<Rightarrow> order_row option" where
  "get_by_reservation_id d k = find_by order_reservation_id k (orders d)"

subsection \<open>Changes of a row, and inserts\<close>

definition upd_inventory :: "int \<Rightarrow> (inventory \<Rightarrow> inventory) \<Rightarrow> database \<Rightarrow> database" where
  "upd_inventory k f d = d\<lparr>inventories := upd_by inv_id k f (inventories d)\<rparr>"

definition upd_item :: "int \<Rightarrow> (reservation_item \<Rightarrow> reservation_item) \<Rightarrow> database \<Rightarrow> database" where
  "upd_item k f d = d\<lparr>reservation_items := upd_by item_id k f (reservation_items d)\<rparr>"

definition upd_reservation :: "int \<Rightarrow> (reservation \<Rightarrow> reservation) \<Rightarrow> database \<Rightarrow> database" where
  "upd_reservation k f d = d\<lparr>reservations := upd_by res_id k f (reservations d)\<rparr>"

text \<open>\<open>db.add\<close> and \<open>flush\<close>: the database gives the next id and returns it.\<close>

definition add_reservation :: "(int \<Rightarrow> reservation) \<Rightarrow> database \<Rightarrow> int \<times> database" where
  "add_reservation mk d =
     (let k = next_reservation_id d in
      (k, d\<lparr>reservations := reservations d @ [mk k], next_reservation_id := k + 1\<rparr>))"

definition add_item :: "(int \<Rightarrow> reservation_item) \<Rightarrow> database \<Rightarrow> int \<times> database" where
  "add_item mk d =
     (let k = next_item_id d in
      (k, d\<lparr>reservation_items := reservation_items d @ [mk k], next_item_id := k + 1\<rparr>))"

text \<open>
  The column \<open>orders.reservation_id\<close> is UNIQUE: a second order of a reservation
  fails at the flush.
\<close>

definition add_order :: "(int \<Rightarrow> order_row) \<Rightarrow> database \<Rightarrow> (exn + order_row) \<times> database" where
  "add_order mk d =
     (let k = next_order_id d; ord = mk k in
      if get_by_reservation_id d (order_reservation_id ord) \<noteq> None
      then (Inl (IntegrityError ''orders.reservation_id''), d)
      else (Inr ord, d\<lparr>orders := orders d @ [ord], next_order_id := k + 1\<rparr>))"

subsection \<open>The tables keep the contract of a repository\<close>

interpretation inv_store: row_store get_inventory upd_inventory inv_id
  by unfold_locales
     (auto simp: get_inventory_def upd_inventory_def find_by_upd_same find_by_upd_other
        dest: find_by_SomeD)

interpretation item_store: row_store "\<lambda>d k. find_by item_id k (reservation_items d)" upd_item item_id
  by unfold_locales
     (auto simp: upd_item_def find_by_upd_same find_by_upd_other dest: find_by_SomeD)

interpretation res_store: row_store get_reservation upd_reservation res_id
  by unfold_locales
     (auto simp: get_reservation_def upd_reservation_def find_by_upd_same find_by_upd_other
        dest: find_by_SomeD)

subsection \<open>Frames\<close>

lemma upd_inventory_frame [frame_simps]:
  "providers (upd_inventory k f d) = providers d"
  "products (upd_inventory k f d) = products d"
  "reservations (upd_inventory k f d) = reservations d"
  "reservation_items (upd_inventory k f d) = reservation_items d"
  "orders (upd_inventory k f d) = orders d"
  "next_reservation_id (upd_inventory k f d) = next_reservation_id d"
  "next_item_id (upd_inventory k f d) = next_item_id d"
  "next_order_id (upd_inventory k f d) = next_order_id d"
  "inventories (upd_inventory k f d) = upd_by inv_id k f (inventories d)"
  by (simp_all add: upd_inventory_def)

lemma upd_item_frame [frame_simps]:
  "providers (upd_item k g d) = providers d"
  "products (upd_item k g d) = products d"
  "reservations (upd_item k g d) = reservations d"
  "inventories (upd_item k g d) = inventories d"
  "orders (upd_item k g d) = orders d"
  "next_reservation_id (upd_item k g d) = next_reservation_id d"
  "next_item_id (upd_item k g d) = next_item_id d"
  "next_order_id (upd_item k g d) = next_order_id d"
  "reservation_items (upd_item k g d) = upd_by item_id k g (reservation_items d)"
  by (simp_all add: upd_item_def)

lemma upd_reservation_frame [frame_simps]:
  "providers (upd_reservation k h d) = providers d"
  "products (upd_reservation k h d) = products d"
  "reservation_items (upd_reservation k h d) = reservation_items d"
  "inventories (upd_reservation k h d) = inventories d"
  "orders (upd_reservation k h d) = orders d"
  "next_reservation_id (upd_reservation k h d) = next_reservation_id d"
  "next_item_id (upd_reservation k h d) = next_item_id d"
  "next_order_id (upd_reservation k h d) = next_order_id d"
  "reservations (upd_reservation k h d) = upd_by res_id k h (reservations d)"
  by (simp_all add: upd_reservation_def)

lemma get_provider_cong: "providers d' = providers d \<Longrightarrow> get_provider d' k = get_provider d k"
  by (simp add: get_provider_def)

lemma get_best_availableD:
  assumes "get_best_available d p = Some r"
  shows "r \<in> set (inventories d)" and "inv_product_id r = p"
    and "\<And>r'. r' \<in> set (inventories d) \<Longrightarrow> inv_product_id r' = p \<Longrightarrow> effective r' \<le> effective r"
  using first_max_SomeD [OF assms [unfolded get_best_available_def]] by auto

end
