(* ===== verification/Python_Int.thy ===== *)
theory Python_Int
  imports Models
begin

section \<open>Python's int of a text and of a JSON value\<close>

text \<open>
  \<open>int(s)\<close> strips white space, reads a sign, and decimal digits with single underscores
  between them; more than 4300 digits are an error.  The quoted literal of the error message
  is left out.  The main lemma is the round trip with \<open>str\<close>.
\<close>

definition is_digit :: "char \<Rightarrow> bool" where
  "is_digit c \<longleftrightarrow> 48 \<le> (of_char c :: nat) \<and> (of_char c :: nat) \<le> 57"

definition is_space :: "char \<Rightarrow> bool" where
  "is_space c \<longleftrightarrow> (of_char c :: nat) \<in> {9, 10, 11, 12, 13, 28, 29, 30, 31, 32, 133, 160}"

definition strip :: "string \<Rightarrow> string" where
  "strip s = rev (dropWhile is_space (rev (dropWhile is_space s)))"

text \<open>The flag tells whether the last character was a digit.\<close>

fun digits_value :: "int \<Rightarrow> bool \<Rightarrow> string \<Rightarrow> int option" where
  "digits_value acc d [] = (if d then Some acc else None)"
| "digits_value acc d (c # cs) =
     (if is_digit c then digits_value (acc * 10 + (of_char c - 48)) True cs
      else if c = CHR ''_'' \<and> d then digits_value acc False cs
      else None)"

definition sign_of :: "string \<Rightarrow> int \<times> string" where
  "sign_of s =
     (case s of
        [] \<Rightarrow> (1, [])
      | c # cs \<Rightarrow> if c = CHR ''-'' then (-1, cs) else if c = CHR ''+'' then (1, cs) else (1, s))"

definition max_str_digits :: nat where
  "max_str_digits = 4300"

definition int_of_text :: "string \<Rightarrow> exn + int" where
  "int_of_text s =
     (case sign_of (strip s) of (sg, body) \<Rightarrow>
        if length (filter is_digit body) > max_str_digits
        then Inl (ValueError ''Exceeds the limit (4300 digits) for integer string conversion'')
        else (case digits_value 0 False body of
                None \<Rightarrow> Inl (ValueError ''invalid literal for int() with base 10'')
              | Some n \<Rightarrow> Inr (sg * n)))"

text \<open>\<open>int\<close> of a value of the json module: floats truncate towards zero.\<close>

fun py_int :: "json \<Rightarrow> exn + int" where
  "py_int (JStr s) = int_of_text s"
| "py_int (JInt n) = Inr n"
| "py_int (JBool b) = Inr (if b then 1 else 0)"
| "py_int (JFloat m e) =
     Inr (if 0 \<le> e then m * 2 ^ nat e
          else if m < 0 then - ((- m) div 2 ^ nat (- e)) else m div 2 ^ nat (- e))"
| "py_int j = Inl (TypeError ''int() argument must be a string, a bytes-like object or a real number'')"

subsection \<open>The round trip with str\<close>

lemma digit_char [simp]:
  assumes "n < 10"
  shows "is_digit (digit_char n)" and "(of_char (digit_char n) :: int) = 48 + int n"
    and "\<not> is_space (digit_char n)" and "digit_char n \<noteq> CHR ''-''" and "digit_char n \<noteq> CHR ''+''"
proof -
  have nat: "(of_char (digit_char n) :: nat) = 48 + n"
    using assms by (simp add: take_bit_nat_eq_self)
  show "(of_char (digit_char n) :: int) = 48 + int n"
    by (metis nat of_nat_of_char of_nat_add of_nat_numeral)
  show "is_digit (digit_char n)" and "\<not> is_space (digit_char n)"
    using assms by (auto simp: is_digit_def is_space_def nat simp del: digit_char.simps)
  have "(of_char (CHR ''-'') :: nat) = 45" and "(of_char (CHR ''+'') :: nat) = 43" by simp_all
  with nat show "digit_char n \<noteq> CHR ''-''" and "digit_char n \<noteq> CHR ''+''"
    by (auto simp del: of_char_Char dest!: arg_cong [where f = "of_char :: char \<Rightarrow> nat"])
qed

declare digit_char.simps [simp del]

lemma digits_value_append:
  "\<forall>c \<in> set s. is_digit c \<Longrightarrow> s \<noteq> [] \<Longrightarrow> digits_value acc d (s @ t) =
     digits_value (the (digits_value acc d s)) True t"
proof (induction s arbitrary: acc d)
  case Nil
  then show ?case by simp
next
  case (Cons c s)
  then show ?case by (cases "s = []") auto
qed

lemma str_nat_digits: "str_nat n \<noteq> [] \<and> (\<forall>c \<in> set (str_nat n). is_digit c \<and> \<not> is_space c)"
  by (induction n rule: str_nat.induct) (subst (1 2) str_nat.simps, auto)

lemma str_nat_value: "digits_value 0 False (str_nat n) = Some (int n)"
proof (induction n rule: str_nat.induct)
  case (1 n)
  show ?case
  proof (cases "n < 10")
    case True
    then show ?thesis by (subst str_nat.simps) simp
  next
    case False
    have "str_nat n = str_nat (n div 10) @ [digit_char (n mod 10)]"
      using False by (subst str_nat.simps) simp
    then show ?thesis
      using 1 [OF False] str_nat_digits [of "n div 10"]
      by (simp add: digits_value_append) (metis div_mult_mod_eq of_nat_add of_nat_mult of_nat_numeral)
  qed
qed

lemma str_nat_length: "n < 10 ^ Suc k \<Longrightarrow> length (str_nat n) \<le> Suc k"
proof (induction k arbitrary: n)
  case 0
  then show ?case by (subst str_nat.simps) simp
next
  case (Suc k)
  show ?case
  proof (cases "n < 10")
    case True
    then show ?thesis by (subst str_nat.simps) simp
  next
    case False
    have "n div 10 < 10 ^ Suc k" using Suc.prems by (simp add: less_mult_imp_div_less mult.commute)
    from Suc.IH [OF this] show ?thesis using False by (subst str_nat.simps) simp
  qed
qed

lemma dropWhile_hd: "s = [] \<or> \<not> P (hd s) \<Longrightarrow> dropWhile P s = s"
  by (cases s) auto

lemma strip_id:
  assumes "\<forall>c \<in> set s. \<not> is_space c"
  shows "strip s = s"
proof -
  have "dropWhile is_space t = t" if "\<forall>c \<in> set t. \<not> is_space c" for t
    using that by (intro dropWhile_hd) (cases t, auto)
  from this [of s] this [of "rev s"] show ?thesis using assms by (simp add: strip_def)
qed

lemma sign_of_str_nat [simp]: "sign_of (str_nat n) = (1, str_nat n)"
proof -
  have "hd (str_nat n) \<noteq> CHR ''-'' \<and> hd (str_nat n) \<noteq> CHR ''+''"
    using str_nat_digits [of n] by (cases "str_nat n") (auto simp: is_digit_def)
  then show ?thesis by (cases "str_nat n") (auto simp: sign_of_def)
qed

lemma filter_digits [simp]: "filter is_digit (str_nat n) = str_nat n"
  using str_nat_digits by (simp add: filter_id_conv)

lemma str_nat_short:
  assumes "n < 10 ^ max_str_digits"
  shows "length (str_nat n) \<le> max_str_digits"
proof -
  have "max_str_digits = Suc (max_str_digits - 1)" by (simp add: max_str_digits_def)
  then show ?thesis using str_nat_length [of n "max_str_digits - 1"] assms by metis
qed

text \<open>Up to Python's limit on the number of digits, reading back what \<open>str\<close> printed.\<close>

lemma int_of_text_str:
  assumes "nat \<bar>n\<bar> < 10 ^ max_str_digits"
  shows "int_of_text (str_int n) = Inr n"
proof (cases "n < 0")
  case True
  then have "strip (str_int n) = CHR ''-'' # str_nat (nat (- n))"
    using str_nat_digits [of "nat (- n)"]
    by (subst strip_id) (auto simp: str_int_def is_space_def)
  with assms True show ?thesis
    using str_nat_short [of "nat (- n)"]
    by (simp add: int_of_text_def sign_of_def str_nat_value)
next
  case False
  then have "strip (str_int n) = str_nat (nat n)"
    using str_nat_digits [of "nat n"] by (subst strip_id) (auto simp: str_int_def)
  with assms False show ?thesis
    using str_nat_short [of "nat n"]
    by (simp add: int_of_text_def str_nat_value)
qed

text \<open>The values of an INTEGER column are far below the limit.\<close>

lemma int_of_column:
  assumes "\<bar>n\<bar> \<le> 2147483647"
  shows "int_of_text (str_int n) = Inr n"
proof (rule int_of_text_str)
  have "nat \<bar>n\<bar> < 10 ^ 10" using assms by simp
  also have "(10 :: nat) ^ 10 \<le> 10 ^ max_str_digits"
    by (rule power_increasing) (simp_all add: max_str_digits_def)
  finally show "nat \<bar>n\<bar> < 10 ^ max_str_digits" .
qed

end
