(* ===== verification/Providers.thy ===== *)
theory Providers
  imports Repositories Python_Int
begin

section \<open>Providers: the adapters of app/providers\<close>

text \<open>
  The internal adapter works on the inventory row of the session; the external adapter
  sends HTTP requests with httpx.  The network is not part of the repository: what a
  request returns is the parameter \<open>http\<close> of the environment, any function of the
  requests sent before and of this one, so every behaviour of every warehouse is covered.
  A response carries what \<open>raise_for_status\<close> does with it (\<open>status_error\<close>: None,
  or the message of the HTTPStatusError) and its decoded JSON body, None when the body is not JSON.
  \<open>TransportFailure\<close> is every other httpx error (a refused connection, a failed name lookup).
  The world of an operation is the session's database and the requests sent so far;
  a rollback restores the first and cannot undo the second.
\<close>

subsection \<open>Requests, responses, environment\<close>

datatype http_method = GET | POST | DELETE

record http_request =
  req_method :: http_method
  req_url :: string
  req_headers :: "(string \<times> string) list"
  req_timeout :: int
  req_json :: "json option"

record http_response =
  status_code :: int
  status_error :: "string option"
  body :: "json option"

datatype http_outcome = Response http_response | Timeout | TransportFailure string

text \<open>
  \<open>py_str\<close> is Python's \<open>str\<close> and \<open>column_str\<close> what a String column stores, for
  JSON values that are not strings; \<open>ttl_minutes\<close> is \<open>RESERVATION_TTL_MINUTES\<close>;
  \<open>tz_aware\<close> says whether the database driver returns datetimes with an offset.
\<close>

record env =
  http :: "http_request list \<Rightarrow> http_request \<Rightarrow> http_outcome"
  py_str :: "json \<Rightarrow> string"
  column_str :: "json \<Rightarrow> string"
  ttl_minutes :: int
  tz_aware :: bool

record world =
  db :: database
  sent :: "http_request list"

definition send :: "env \<Rightarrow> http_request \<Rightarrow> world \<Rightarrow> http_outcome \<times> world" where
  "send e r w = (http e (sent w) r, w\<lparr>sent := sent w @ [r]\<rparr>)"

definition on_db :: "(database \<Rightarrow> database) \<Rightarrow> world \<Rightarrow> world" where
  "on_db f w = w\<lparr>db := f (db w)\<rparr>"

lemma send_db [simp]: "db (snd (send e r w)) = db w"
  by (simp add: send_def)

lemma on_db_sel [simp]: "db (on_db f w) = f (db w)" "sent (on_db f w) = sent w"
  by (simp_all add: on_db_def)

subsection \<open>The text of a JSON value\<close>

definition json_text :: "env \<Rightarrow> json \<Rightarrow> string" where
  "json_text e j = (case j of JStr s \<Rightarrow> s | _ \<Rightarrow> py_str e j)"

definition json_ref :: "env \<Rightarrow> json option \<Rightarrow> string option" where
  "json_ref e j =
     (case j of None \<Rightarrow> None | Some JNull \<Rightarrow> None
      | Some (JStr s) \<Rightarrow> Some s | Some v \<Rightarrow> Some (column_str e v))"

text \<open>
  \<open>resp.json()["k"]\<close> and \<open>resp.json().get("k")\<close>: the body may not be JSON, and
  may be JSON but no object.
\<close>

definition json_index :: "http_response \<Rightarrow> string \<Rightarrow> exn + json" where
  "json_index r k =
     (case body r of
        None \<Rightarrow> Inl JSONDecodeError
      | Some (JObj kvs) \<Rightarrow> (case map_of kvs k of None \<Rightarrow> Inl (KeyError k) | Some v \<Rightarrow> Inr v)
      | Some _ \<Rightarrow> Inl (TypeError ''not subscriptable by a string''))"

definition json_get :: "http_response \<Rightarrow> string \<Rightarrow> exn + json option" where
  "json_get r k =
     (case body r of
        None \<Rightarrow> Inl JSONDecodeError
      | Some (JObj kvs) \<Rightarrow> Inr (map_of kvs k)
      | Some _ \<Rightarrow> Inl (AttributeError ''get''))"

subsection \<open>ExternalHttpProviderAdapter\<close>

record external_adapter =
  ext_name :: string
  ext_capabilities :: "(string \<times> json) list"
  ext_base_url :: string
  ext_timeout :: int
  ext_headers :: "(string \<times> string) list"

definition build_auth_headers :: "(string \<times> string) list \<Rightarrow> exn + (string \<times> string) list" where
  "build_auth_headers ac =
     (if map_of ac ''type'' = Some ''api_key'' then
        (case map_of ac ''header'' of
           None \<Rightarrow> Inl (KeyError ''header'')
         | Some h \<Rightarrow> (case map_of ac ''value'' of
                        None \<Rightarrow> Inl (KeyError ''value'') | Some v \<Rightarrow> Inr [(h, v)]))
      else if map_of ac ''type'' = Some ''bearer'' then
        (case map_of ac ''token'' of
           None \<Rightarrow> Inl (KeyError ''token'')
         | Some t \<Rightarrow> Inr [(''Authorization'', ''Bearer '' @ t)])
      else Inr [])"

definition external_init :: "provider \<Rightarrow> exn + external_adapter" where
  "external_init p =
     (case build_auth_headers (case auth_config p of None \<Rightarrow> [] | Some ac \<Rightarrow> ac) of
        Inl x \<Rightarrow> Inl x
      | Inr hs \<Rightarrow>
          Inr \<lparr>ext_name = prov_name p, ext_capabilities = capabilities p,
               ext_base_url = rstrip (CHR ''/'') (case base_url p of None \<Rightarrow> [] | Some u \<Rightarrow> u),
               ext_timeout = timeout_seconds p, ext_headers = hs\<rparr>)"

definition client_request ::
    "external_adapter \<Rightarrow> http_method \<Rightarrow> string \<Rightarrow> json option \<Rightarrow> http_request" where
  "client_request a m path j =
     \<lparr>req_method = m, req_url = ext_base_url a @ path, req_headers = ext_headers a,
      req_timeout = ext_timeout a, req_json = j\<rparr>"

definition require_capability :: "external_adapter \<Rightarrow> string \<Rightarrow> exn option" where
  "require_capability a cap =
     (if (case map_of (ext_capabilities a) cap of None \<Rightarrow> False | Some v \<Rightarrow> truthy v) then None
      else Some (CapabilityNotSupported
                   (''Provider '' @ [CHR 0x27] @ ext_name a @ [CHR 0x27] @
                    '' does not support '' @ [CHR 0x27] @ cap @ [CHR 0x27])))"

definition ext_check_stock ::
    "env \<Rightarrow> external_adapter \<Rightarrow> string \<Rightarrow> world \<Rightarrow> (exn + int) \<times> world" where
  "ext_check_stock e a s w =
     (case send e (client_request a GET (''/stock/'' @ s) None) w of (out, w') \<Rightarrow>
        (case out of
           Timeout \<Rightarrow> Inl (ProviderTimeout (''check_stock timed out for sku='' @ s))
         | TransportFailure m \<Rightarrow> Inl (TransportError m)
         | Response r \<Rightarrow>
             (case status_error r of
                Some m \<Rightarrow> Inl (ProviderUnavailable m)
              | None \<Rightarrow> (case json_index r ''qty'' of Inl x \<Rightarrow> Inl x | Inr v \<Rightarrow> py_int v)),
         w'))"

definition hold_body :: "string \<Rightarrow> int \<Rightarrow> int \<Rightarrow> json" where
  "hold_body s q rid =
     JObj [(''sku'', JStr s), (''qty'', JInt q), (''reservation_id'', JInt rid)]"

definition ext_hold_stock ::
    "env \<Rightarrow> external_adapter \<Rightarrow> string \<Rightarrow> int \<Rightarrow> int \<Rightarrow> world \<Rightarrow> (exn + string option) \<times> world" where
  "ext_hold_stock e a s q rid w =
     (case require_capability a ''hold_stock'' of
        Some x \<Rightarrow> (Inl x, w)
      | None \<Rightarrow>
          (case send e (client_request a POST ''/holds'' (Some (hold_body s q rid))) w of (out, w') \<Rightarrow>
             (case out of
                Timeout \<Rightarrow> Inl (ProviderTimeout (''hold_stock timed out for sku='' @ s))
              | TransportFailure m \<Rightarrow> Inl (TransportError m)
              | Response r \<Rightarrow>
                  (if status_code r = 409 then
                     (case json_get r ''detail'' of
                        Inl x \<Rightarrow> Inl x
                      | Inr None \<Rightarrow> Inl (InsufficientProviderStock ''Insufficient stock at provider'')
                      | Inr (Some v) \<Rightarrow> Inl (InsufficientProviderStock (json_text e v)))
                   else
                     (case status_error r of
                        Some m \<Rightarrow> Inl (ProviderUnavailable m)
                      | None \<Rightarrow> (case json_get r ''hold_ref'' of
                                   Inl x \<Rightarrow> Inl x | Inr v \<Rightarrow> Inr (json_ref e v)))),
              w')))"

definition ext_release_hold ::
    "env \<Rightarrow> external_adapter \<Rightarrow> string \<Rightarrow> world \<Rightarrow> (exn + bool) \<times> world" where
  "ext_release_hold e a ref w =
     (case require_capability a ''release_hold'' of
        Some x \<Rightarrow> (Inl x, w)
      | None \<Rightarrow>
          (case send e (client_request a DELETE (''/holds/'' @ ref) None) w of (out, w') \<Rightarrow>
             (case out of
                Timeout \<Rightarrow> Inr False
              | TransportFailure m \<Rightarrow> Inl (TransportError m)
              | Response r \<Rightarrow> Inr (status_code r \<in> {200, 204}),
              w')))"

definition ext_confirm_hold ::
    "env \<Rightarrow> external_adapter \<Rightarrow> string \<Rightarrow> world \<Rightarrow> (exn + bool) \<times> world" where
  "ext_confirm_hold e a ref w =
     (case require_capability a ''confirm_hold'' of
        Some x \<Rightarrow> (Inl x, w)
      | None \<Rightarrow>
          (case send e (client_request a POST (''/holds/'' @ ref @ ''/confirm'') None) w of (out, w') \<Rightarrow>
             (case out of
                Timeout \<Rightarrow> Inl (ProviderTimeout (''confirm_hold timed out for hold_ref='' @ ref))
              | TransportFailure m \<Rightarrow> Inl (TransportError m)
              | Response r \<Rightarrow>
                  (case status_error r of Some m \<Rightarrow> Inl (ProviderUnavailable m) | None \<Rightarrow> Inr True),
              w')))"

subsection \<open>InternalProviderAdapter\<close>

text \<open>The adapter holds the inventory row: here the row's id in the session.\<close>

definition int_check_stock :: "int \<Rightarrow> world \<Rightarrow> (exn + int) \<times> world" where
  "int_check_stock i w =
     (case get_inventory (db w) i of
        None \<Rightarrow> (Inl (AttributeError ''qty_available''), w)
      | Some r \<Rightarrow> (Inr (qty_available r - qty_reserved r), w))"

definition reserve :: "int \<Rightarrow> inventory \<Rightarrow> inventory" where
  "reserve q r = r\<lparr>qty_reserved := qty_reserved r + q\<rparr>"

definition int_hold_stock :: "int \<Rightarrow> int \<Rightarrow> world \<Rightarrow> (exn + string option) \<times> world" where
  "int_hold_stock i q w =
     (case get_inventory (db w) i of
        None \<Rightarrow> (Inl (AttributeError ''qty_available''), w)
      | Some r \<Rightarrow>
          (let effective = qty_available r - qty_reserved r in
           if effective < q then
             (Inl (InsufficientProviderStock
                     (''Internal: requested '' @ str_int q @ '', available '' @ str_int effective)), w)
           else (Inr None, on_db (upd_inventory i (reserve q)) w)))"

definition int_release_hold :: "world \<Rightarrow> (exn + bool) \<times> world" where
  "int_release_hold w = (Inr True, w)"

definition int_confirm_hold :: "world \<Rightarrow> (exn + bool) \<times> world" where
  "int_confirm_hold w = (Inr True, w)"

subsection \<open>The adapter interface and the registry\<close>

datatype adapter = InternalAdapter int | ExternalAdapter external_adapter

definition check_stock :: "env \<Rightarrow> adapter \<Rightarrow> string \<Rightarrow> world \<Rightarrow> (exn + int) \<times> world" where
  "check_stock e a s w =
     (case a of InternalAdapter i \<Rightarrow> int_check_stock i w | ExternalAdapter x \<Rightarrow> ext_check_stock e x s w)"

definition hold_stock ::
    "env \<Rightarrow> adapter \<Rightarrow> string \<Rightarrow> int \<Rightarrow> int \<Rightarrow> world \<Rightarrow> (exn + string option) \<times> world" where
  "hold_stock e a s q rid w =
     (case a of InternalAdapter i \<Rightarrow> int_hold_stock i q w
      | ExternalAdapter x \<Rightarrow> ext_hold_stock e x s q rid w)"

definition release_hold :: "env \<Rightarrow> adapter \<Rightarrow> string \<Rightarrow> world \<Rightarrow> (exn + bool) \<times> world" where
  "release_hold e a ref w =
     (case a of InternalAdapter _ \<Rightarrow> int_release_hold w | ExternalAdapter x \<Rightarrow> ext_release_hold e x ref w)"

definition confirm_hold :: "env \<Rightarrow> adapter \<Rightarrow> string \<Rightarrow> world \<Rightarrow> (exn + bool) \<times> world" where
  "confirm_hold e a ref w =
     (case a of InternalAdapter _ \<Rightarrow> int_confirm_hold w | ExternalAdapter x \<Rightarrow> ext_confirm_hold e x ref w)"

definition registry_resolve :: "provider option \<Rightarrow> int option \<Rightarrow> exn + adapter" where
  "registry_resolve p inventory_row =
     (case p of
        None \<Rightarrow> Inl (AttributeError ''type'')
      | Some p \<Rightarrow>
          (if prov_type p = internal then
             (case inventory_row of
                None \<Rightarrow> Inl (ValueError ''InternalProviderAdapter requires an inventory_row'')
              | Some i \<Rightarrow> Inr (InternalAdapter i))
           else (case external_init p of Inl x \<Rightarrow> Inl x | Inr a \<Rightarrow> Inr (ExternalAdapter a))))"

subsection \<open>The contract of an adapter, as the reservation service uses it\<close>

text \<open>
  What a client of \<open>BaseProviderAdapter\<close> may rely on: a hold that succeeds books
  \<open>factor * qty\<close> more on one inventory row of the session and changes nothing else in
  the database (a local booking only where the row covers it), a hold that raises changes nothing, a hold that books locally issues no
  reference and never fails softly (with a timeout or as unavailable),
  releasing and confirming never touch the database, and no call unsends a request.
  The internal adapter books the quantity itself (factor 1), the external one does not (factor 0).
\<close>

locale provider_adapter =
  fixes hold :: "string \<Rightarrow> int \<Rightarrow> int \<Rightarrow> world \<Rightarrow> (exn + string option) \<times> world"
    and release :: "string \<Rightarrow> world \<Rightarrow> (exn + bool) \<times> world"
    and confirm :: "string \<Rightarrow> world \<Rightarrow> (exn + bool) \<times> world"
    and row :: int
    and factor :: int
  assumes hold_ok:
      "hold s q rid w = (Inr ref, w') \<Longrightarrow> db w' = upd_inventory row (reserve (factor * q)) (db w)"
    and hold_covered:
      "hold s q rid w = (Inr ref, w') \<Longrightarrow> factor \<noteq> 0 \<Longrightarrow>
         \<exists>r. get_inventory (db w) row = Some r \<and> q \<le> effective r"
    and hold_raises: "hold s q rid w = (Inl x, w') \<Longrightarrow> db w' = db w"
    and hold_ref: "hold s q rid w = (Inr (Some h), w') \<Longrightarrow> factor = 0"
    and hold_timeout: "hold s q rid w = (Inl (ProviderTimeout m), w') \<Longrightarrow> factor = 0"
    and hold_unavailable: "hold s q rid w = (Inl (ProviderUnavailable m), w') \<Longrightarrow> factor = 0"
    and release_db: "db (snd (release h w)) = db w"
    and confirm_db: "db (snd (confirm h w)) = db w"
    and hold_sent: "\<exists>rs. sent (snd (hold s q rid w)) = sent w @ rs"
    and release_sent: "\<exists>rs. sent (snd (release h w)) = sent w @ rs"
    and confirm_sent: "\<exists>rs. sent (snd (confirm h w)) = sent w @ rs"
begin

lemma hold_frame:
  assumes "hold s q rid w = (res, w')"
  shows "providers (db w') = providers (db w)" and "products (db w') = products (db w)"
    and "reservations (db w') = reservations (db w)"
    and "reservation_items (db w') = reservation_items (db w)"
    and "orders (db w') = orders (db w)"
    and "next_reservation_id (db w') = next_reservation_id (db w)"
    and "next_item_id (db w') = next_item_id (db w)"
    and "next_order_id (db w') = next_order_id (db w)"
  using assms hold_ok hold_raises by (cases res; fastforce simp: frame_simps)+

lemma hold_inventories:
  assumes "hold s q rid w = (res, w')"
  shows "inventories (db w') =
    (case res of Inl _ \<Rightarrow> inventories (db w)
     | Inr _ \<Rightarrow> upd_by inv_id row (reserve (factor * q)) (inventories (db w)))"
  using assms hold_ok hold_raises by (cases res) (auto simp: frame_simps)

end

lemma reserve_0 [simp]: "reserve 0 r = r"
  by (simp add: reserve_def)

lemma upd_inventory_reserve_0 [simp]: "upd_inventory i (reserve 0) d = d"
proof -
  have "(\<lambda>r. if inv_id r = i then reserve 0 r else r) = id" by (auto simp: fun_eq_iff)
  then show ?thesis by (simp add: upd_inventory_def upd_by_def)
qed

definition adapter_row :: "adapter \<Rightarrow> int" where
  "adapter_row a = (case a of InternalAdapter i \<Rightarrow> i | ExternalAdapter _ \<Rightarrow> 0)"

definition adapter_factor :: "adapter \<Rightarrow> int" where
  "adapter_factor a = (case a of InternalAdapter _ \<Rightarrow> 1 | ExternalAdapter _ \<Rightarrow> 0)"

lemmas ext_defs = ext_hold_stock_def ext_release_hold_def ext_confirm_hold_def send_def
lemmas int_defs = int_hold_stock_def int_release_hold_def int_confirm_hold_def effective_def

interpretation internal_adapter:
  provider_adapter "\<lambda>s q rid w. int_hold_stock i q w" "\<lambda>h. int_release_hold"
    "\<lambda>h. int_confirm_hold" i 1 for i
  by unfold_locales (auto simp: int_defs Let_def split: option.splits if_splits)

interpretation external_adapter:
  provider_adapter "ext_hold_stock e x" "ext_release_hold e x" "ext_confirm_hold e x" 0 0 for e x
  by unfold_locales
     (auto simp: ext_defs split: option.splits http_outcome.splits if_splits sum.splits)

text \<open>Dispatch keeps the contract, with the row and the factor of the adapter at hand.\<close>

interpretation adapter:
  provider_adapter "hold_stock e a" "release_hold e a" "confirm_hold e a"
    "adapter_row a" "adapter_factor a" for e a
proof (cases a)
  case (InternalAdapter i)
  then have "hold_stock e a = (\<lambda>s q rid w. int_hold_stock i q w)"
    and "release_hold e a = (\<lambda>h. int_release_hold)" and "confirm_hold e a = (\<lambda>h. int_confirm_hold)"
    and "adapter_row a = i" and "adapter_factor a = 1"
    by (auto simp: fun_eq_iff hold_stock_def release_hold_def confirm_hold_def
        adapter_row_def adapter_factor_def)
  then show "provider_adapter (hold_stock e a) (release_hold e a) (confirm_hold e a)
      (adapter_row a) (adapter_factor a)"
    using internal_adapter.provider_adapter_axioms [of i] by simp
next
  case (ExternalAdapter x)
  then have "hold_stock e a = ext_hold_stock e x"
    and "release_hold e a = ext_release_hold e x" and "confirm_hold e a = ext_confirm_hold e x"
    and "adapter_row a = 0" and "adapter_factor a = 0"
    by (auto simp: fun_eq_iff hold_stock_def release_hold_def confirm_hold_def
        adapter_row_def adapter_factor_def)
  then show "provider_adapter (hold_stock e a) (release_hold e a) (confirm_hold e a)
      (adapter_row a) (adapter_factor a)"
    using external_adapter.provider_adapter_axioms [of e x] by simp
qed

text \<open>How the registry's answer follows from the provider's row.\<close>

lemma registry_resolve_internal:
  "prov_type p = internal \<Longrightarrow> registry_resolve (Some p) (Some i) = Inr (InternalAdapter i)"
  by (simp add: registry_resolve_def)

lemma registry_resolve_external:
  "prov_type p = external \<Longrightarrow>
     registry_resolve (Some p) r =
       (case external_init p of Inl x \<Rightarrow> Inl x | Inr a \<Rightarrow> Inr (ExternalAdapter a))"
  by (simp add: registry_resolve_def)

lemma registry_resolve_InrD:
  assumes "registry_resolve po ro = Inr a"
  obtains p where "po = Some p"
    and "(prov_type p = internal \<and> (\<exists>i. ro = Some i \<and> a = InternalAdapter i))
       \<or> (prov_type p = external \<and> (\<exists>x. external_init p = Inr x \<and> a = ExternalAdapter x))"
proof (cases po)
  case None
  with assms show ?thesis by (simp add: registry_resolve_def)
next
  case (Some p)
  show ?thesis
  proof (cases "prov_type p")
    case internal
    with Some assms show ?thesis
      by (intro that [of p]) (auto simp: registry_resolve_def split: option.splits)
  next
    case external
    with Some assms show ?thesis
      by (intro that [of p]) (auto simp: registry_resolve_def split: sum.splits)
  qed
qed

text \<open>The factor with which a provider's holds are booked on the local row.\<close>

definition booking :: "provider option \<Rightarrow> int" where
  "booking po = (case po of None \<Rightarrow> 0 | Some p \<Rightarrow> if prov_type p = internal then 1 else 0)"

lemma booking_range: "booking po = 0 \<or> booking po = 1"
  by (simp add: booking_def split: option.splits)

lemma resolve_booking:
  assumes "registry_resolve po (Some i) = Inr a"
  shows "adapter_factor a = booking po" and "booking po \<noteq> 0 \<Longrightarrow> adapter_row a = i"
  using assms
  by (auto elim!: registry_resolve_InrD simp: adapter_factor_def adapter_row_def booking_def)

end
