(* ===== verification/Session.thy ===== *)
theory Session
  imports Providers
begin

section \<open>Session: one transaction per request (app/db/session.py)\<close>

text \<open>
  \<open>get_db\<close> gives a request one session, commits when the request returns and rolls back
  when it raises.  A rollback restores every table; the AUTO_INCREMENT counters keep
  their values, as InnoDB's do, and the requests already sent stay sent.
  The locale \<open>transaction\<close> is the contract under which an operation keeps an invariant
  of the database whether it returns or raises.
\<close>

definition rollback :: "database \<Rightarrow> database \<Rightarrow> database" where
  "rollback before after =
     before\<lparr>next_reservation_id := next_reservation_id after,
            next_item_id := next_item_id after,
            next_order_id := next_order_id after\<rparr>"

definition get_db :: "(world \<Rightarrow> (exn + 'a) \<times> world) \<Rightarrow> world \<Rightarrow> (exn + 'a) \<times> world" where
  "get_db request w =
     (case request w of
        (Inr x, w') \<Rightarrow> (Inr x, w')
      | (Inl x, w') \<Rightarrow> (Inl x, w'\<lparr>db := rollback (db w) (db w')\<rparr>))"

definition counters_le :: "database \<Rightarrow> database \<Rightarrow> bool" where
  "counters_le d d' \<longleftrightarrow>
     next_reservation_id d \<le> next_reservation_id d' \<and> next_item_id d \<le> next_item_id d' \<and>
     next_order_id d \<le> next_order_id d'"

lemma counters_le_refl [simp]: "counters_le d d"
  by (simp add: counters_le_def)

lemma counters_le_trans: "counters_le a b \<Longrightarrow> counters_le b c \<Longrightarrow> counters_le a c"
  by (simp add: counters_le_def)

lemma rollback_frame [frame_simps]:
  "providers (rollback d d') = providers d" "products (rollback d d') = products d"
  "inventories (rollback d d') = inventories d" "reservations (rollback d d') = reservations d"
  "reservation_items (rollback d d') = reservation_items d" "orders (rollback d d') = orders d"
  by (simp_all add: rollback_def)

lemma counters_le_rollback: "counters_le d d' \<Longrightarrow> counters_le d (rollback d d')"
  by (simp add: counters_le_def rollback_def)

locale transaction =
  fixes request :: "world \<Rightarrow> (exn + 'a) \<times> world"
    and I :: "database \<Rightarrow> bool"
  assumes returns: "I (db w) \<Longrightarrow> request w = (Inr x, w') \<Longrightarrow> I (db w')"
    and counters: "counters_le (db w) (db (snd (request w)))"
    and grow: "I d \<Longrightarrow> counters_le d d' \<Longrightarrow> I (rollback d d')"
begin

lemma committed: "I (db w) \<Longrightarrow> I (db (snd (get_db request w)))"
  using counters [of w] grow
  by (auto simp: get_db_def returns split: prod.splits sum.splits)

text \<open>A request that raises leaves every table as it was.\<close>

lemma raises_restores:
  assumes "get_db request w = (Inl x, w')"
  shows "providers (db w') = providers (db w)" and "products (db w') = products (db w)"
    and "inventories (db w') = inventories (db w)" and "reservations (db w') = reservations (db w)"
    and "reservation_items (db w') = reservation_items (db w)" and "orders (db w') = orders (db w)"
  using assms by (auto simp: get_db_def frame_simps split: prod.splits sum.splits)

end

end
