(* ===== verification/Reservation_Service.thy ===== *)
theory Reservation_Service
  imports Session
begin

section \<open>ReservationService (app/services/reservation_service.py)\<close>

text \<open>
  The four operations of the service, each a function of the clock reading \<open>now\<close>, its
  arguments and the world, returning the result or the exception raised together
  with the world at that point.  A loop of the source is a recursion over its list, a loop
  body is a definition of its own.
\<close>

definition row_effective_text :: "int \<Rightarrow> int \<Rightarrow> int \<Rightarrow> string" where
  "row_effective_text p q eff =
     ''Product '' @ str_int p @ '': requested '' @ str_int q @ '', available '' @ str_int eff"

subsection \<open>create\<close>

text \<open>
  Phase 1, without a lock: the best row of each product, remembered by product id.
  The dictionaries hold row objects; the model holds their ids.
\<close>

fun preflight ::
    "database \<Rightarrow> (int \<times> int) list \<Rightarrow> (int \<rightharpoonup> int) \<Rightarrow> exn + (int \<rightharpoonup> int)" where
  "preflight d [] inventory_map = Inr inventory_map"
| "preflight d ((p, q) # rest) inventory_map =
     (case get_best_available d p of
        None \<Rightarrow> Inl (InsufficientStockError (''Product '' @ str_int p @ '': no inventory available''))
      | Some row \<Rightarrow>
          if effective row < q
          then Inl (InsufficientStockError (row_effective_text p q (effective row)))
          else preflight d rest (inventory_map(p \<mapsto> inv_id row)))"

text \<open>Phase 2: the same rows under lock, re-checked.\<close>

fun lock_and_recheck ::
    "database \<Rightarrow> (int \<times> int) list \<Rightarrow> (int \<rightharpoonup> int) \<Rightarrow> (int \<rightharpoonup> int) \<Rightarrow> exn + (int \<rightharpoonup> int)" where
  "lock_and_recheck d [] inventory_map locked_inventory = Inr locked_inventory"
| "lock_and_recheck d ((p, q) # rest) inventory_map locked_inventory =
     (case inventory_map p of
        None \<Rightarrow> Inl (KeyError (str_int p))
      | Some i \<Rightarrow>
          (case get_by_id_for_update d i of
             None \<Rightarrow> Inl (InsufficientStockError
                        (''Product '' @ str_int p @ '': inventory row disappeared''))
           | Some locked \<Rightarrow>
               if effective locked < q
               then Inl (InsufficientStockError
                      (row_effective_text p q (effective locked) @ '' (re-checked under lock)''))
               else lock_and_recheck d rest inventory_map (locked_inventory(p \<mapsto> inv_id locked))))"

text \<open>Phase 3: the reserved quantity of every row, once per item.\<close>

fun reserve_all :: "(int \<times> int) list \<Rightarrow> (int \<rightharpoonup> int) \<Rightarrow> database \<Rightarrow> exn + database" where
  "reserve_all [] locked_inventory d = Inr d"
| "reserve_all ((p, q) # rest) locked_inventory d =
     (case locked_inventory p of
        None \<Rightarrow> Inl (KeyError (str_int p))
      | Some i \<Rightarrow> reserve_all rest locked_inventory (upd_inventory i (reserve q) d))"

definition new_reservation :: "string \<Rightarrow> int \<Rightarrow> int \<Rightarrow> int \<Rightarrow> reservation" where
  "new_reservation user expires now k =
     \<lparr>res_id = k, res_user_id = user, res_status = Pending, expires_at = expires,
      res_created_at = now\<rparr>"

definition new_item :: "int \<Rightarrow> int \<Rightarrow> inventory \<Rightarrow> int \<Rightarrow> int \<Rightarrow> reservation_item" where
  "new_item rid p row q k =
     \<lparr>item_id = k, item_reservation_id = rid, item_product_id = p, item_inventory_id = inv_id row,
      item_provider_id = inv_provider_id row, qty_requested = q, provider_hold_ref = None,
      provider_status = ItemPending, provider_error_message = None\<rparr>"

definition mark_held :: "string option \<Rightarrow> reservation_item \<Rightarrow> reservation_item" where
  "mark_held ref t = t\<lparr>provider_hold_ref := ref, provider_status := Held\<rparr>"

definition mark_failed :: "string \<Rightarrow> reservation_item \<Rightarrow> reservation_item" where
  "mark_failed m t = t\<lparr>provider_status := ProviderFailed, provider_error_message := Some m\<rparr>"

definition set_provider_status :: "provider_item_status \<Rightarrow> reservation_item \<Rightarrow> reservation_item" where
  "set_provider_status s t = t\<lparr>provider_status := s\<rparr>"

definition set_status :: "reservation_status \<Rightarrow> reservation \<Rightarrow> reservation" where
  "set_status s r = r\<lparr>res_status := s\<rparr>"

text \<open>
  Phase 5, the body of the loop: the item is inserted, the provider is asked for a hold,
  and its answer decides the item's status or ends the request.
\<close>

definition settle_hold ::
    "int \<Rightarrow> int \<Rightarrow> (exn + string option) \<times> world \<Rightarrow> (exn + unit) \<times> world" where
  "settle_hold p k res =
     (case res of
        (Inr ref, w) \<Rightarrow> (Inr (), on_db (upd_item k (mark_held ref)) w)
      | (Inl (InsufficientProviderStock m), w) \<Rightarrow>
          (Inl (InsufficientStockError
             (''Product '' @ str_int p @ '': provider rejected reservation: '' @ m)), w)
      | (Inl (ProviderTimeout m), w) \<Rightarrow> (Inr (), on_db (upd_item k (mark_failed m)) w)
      | (Inl (ProviderUnavailable m), w) \<Rightarrow> (Inr (), on_db (upd_item k (mark_failed m)) w)
      | (Inl x, w) \<Rightarrow> (Inl x, w))"

definition hold_item ::
    "env \<Rightarrow> int \<Rightarrow> (int \<rightharpoonup> int) \<Rightarrow> int \<times> int \<Rightarrow> world \<Rightarrow> (exn + unit) \<times> world" where
  "hold_item e rid locked_inventory pq w =
     (let p = fst pq; q = snd pq in
      case Option.bind (locked_inventory p) (get_inventory (db w)) of
        None \<Rightarrow> (Inl (KeyError (str_int p)), w)
      | Some row \<Rightarrow>
          (let (k, d) = add_item (new_item rid p row q) (db w); w1 = w\<lparr>db := d\<rparr> in
           case registry_resolve (get_provider d (inv_provider_id row)) (Some (inv_id row)) of
             Inl x \<Rightarrow> (Inl x, w1)
           | Inr a \<Rightarrow>
               (case get_product d (inv_product_id row) of
                  None \<Rightarrow> (Inl (AttributeError ''sku''), w1)
                | Some pr \<Rightarrow> settle_hold p k (hold_stock e a (sku pr) q rid w1))))"

fun hold_items ::
    "env \<Rightarrow> int \<Rightarrow> (int \<rightharpoonup> int) \<Rightarrow> (int \<times> int) list \<Rightarrow> world \<Rightarrow> (exn + unit) \<times> world" where
  "hold_items e rid locked_inventory [] w = (Inr (), w)"
| "hold_items e rid locked_inventory (pq # rest) w =
     (case hold_item e rid locked_inventory pq w of
        (Inl x, w') \<Rightarrow> (Inl x, w')
      | (Inr _, w') \<Rightarrow> hold_items e rid locked_inventory rest w')"

definition ttl :: "env \<Rightarrow> int" where
  "ttl e = ttl_minutes e * 60 * 1000000"

definition create ::
    "env \<Rightarrow> int \<Rightarrow> string \<Rightarrow> (int \<times> int) list \<Rightarrow> world \<Rightarrow> (exn + reservation) \<times> world" where
  "create e now user its w =
     (case preflight (db w) its Map.empty of
        Inl x \<Rightarrow> (Inl x, w)
      | Inr inventory_map \<Rightarrow>
          (case lock_and_recheck (db w) its inventory_map Map.empty of
             Inl x \<Rightarrow> (Inl x, w)
           | Inr locked_inventory \<Rightarrow>
               (case reserve_all its locked_inventory (db w) of
                  Inl x \<Rightarrow> (Inl x, w)
                | Inr d1 \<Rightarrow>
                    (let (rid, d2) = add_reservation (new_reservation user (now + ttl e) now) d1 in
                     case hold_items e rid locked_inventory its (w\<lparr>db := d2\<rparr>) of
                       (Inl x, w') \<Rightarrow> (Inl x, w')
                     | (Inr _, w') \<Rightarrow> (Inr (new_reservation user (now + ttl e) now rid), w')))))"

subsection \<open>get_with_items\<close>

definition not_found_text :: "int \<Rightarrow> string" where
  "not_found_text rid = ''Reservation '' @ str_int rid @ '' not found''"

definition service_get_with_items ::
    "int \<Rightarrow> world \<Rightarrow> (exn + (reservation \<times> reservation_item list)) \<times> world" where
  "service_get_with_items rid w =
     (case get_with_items (db w) rid of
        None \<Rightarrow> (Inl (ReservationNotFound (not_found_text rid)), w)
      | Some r \<Rightarrow> (Inr r, w))"

subsection \<open>confirm\<close>

definition consume :: "int \<Rightarrow> inventory \<Rightarrow> inventory" where
  "consume q r = r\<lparr>qty_available := qty_available r - q, qty_reserved := qty_reserved r - q\<rparr>"

text \<open>Comparing a datetime without an offset with \<open>datetime.now(UTC)\<close> raises TypeError.\<close>

definition before_now :: "env \<Rightarrow> int \<Rightarrow> int \<Rightarrow> exn + bool" where
  "before_now e t now =
     (if tz_aware e then Inr (t < now)
      else Inl (TypeError ''can't compare offset-naive and offset-aware datetimes''))"

text \<open>The reference to pass on to the provider: only of an item that the provider holds.\<close>

definition held_ref :: "reservation_item \<Rightarrow> string option" where
  "held_ref t = (if provider_status t = Held then provider_hold_ref t else None)"

definition confirm_at_provider :: "env \<Rightarrow> reservation_item \<Rightarrow> world \<Rightarrow> (exn + unit) \<times> world" where
  "confirm_at_provider e t w =
     (case held_ref t of
        None \<Rightarrow> (Inr (), w)
      | Some ref \<Rightarrow>
          (case registry_resolve (get_provider (db w) (item_provider_id t)) None of
             Inl x \<Rightarrow> (Inl x, w)
           | Inr a \<Rightarrow>
               (case confirm_hold e a ref w of
                  (Inr _, w') \<Rightarrow> (Inr (), w')
                | (Inl (ProviderTimeout _), w') \<Rightarrow> (Inr (), w')
                | (Inl (ProviderUnavailable _), w') \<Rightarrow> (Inr (), w')
                | (Inl x, w') \<Rightarrow> (Inl x, w'))))"

definition take_stock :: "reservation_item \<Rightarrow> database \<Rightarrow> database" where
  "take_stock t d =
     (case get_by_id_for_update d (item_inventory_id t) of
        None \<Rightarrow> d
      | Some _ \<Rightarrow> upd_inventory (item_inventory_id t) (consume (qty_requested t)) d)"

definition confirm_item :: "env \<Rightarrow> reservation_item \<Rightarrow> world \<Rightarrow> (exn + unit) \<times> world" where
  "confirm_item e t w =
     (case confirm_at_provider e t (on_db (take_stock t) w) of
        (Inl x, w') \<Rightarrow> (Inl x, w')
      | (Inr _, w') \<Rightarrow> (Inr (), on_db (upd_item (item_id t) (set_provider_status ItemConfirmed)) w'))"

fun confirm_items :: "env \<Rightarrow> reservation_item list \<Rightarrow> world \<Rightarrow> (exn + unit) \<times> world" where
  "confirm_items e [] w = (Inr (), w)"
| "confirm_items e (t # ts) w =
     (case confirm_item e t w of
        (Inl x, w') \<Rightarrow> (Inl x, w')
      | (Inr _, w') \<Rightarrow> confirm_items e ts w')"

definition new_order :: "reservation \<Rightarrow> int \<Rightarrow> int \<Rightarrow> order_row" where
  "new_order r now k =
     \<lparr>order_id = k, order_reservation_id = res_id r, order_user_id = res_user_id r,
      order_status = OrderCreated, order_created_at = now\<rparr>"

definition confirm :: "env \<Rightarrow> int \<Rightarrow> int \<Rightarrow> world \<Rightarrow> (exn + order_row) \<times> world" where
  "confirm e now rid w =
     (case get_with_items (db w) rid of
        None \<Rightarrow> (Inl (ReservationNotFound (not_found_text rid)), w)
      | Some (r, its) \<Rightarrow>
          if res_status r \<noteq> Pending then
            (Inl (ReservationStateError
               (''Cannot confirm reservation '' @ str_int rid @ '': status is '' @ [CHR 0x27] @
                status_value (res_status r) @ [CHR 0x27])), w)
          else
            (case before_now e (expires_at r) now of
               Inl x \<Rightarrow> (Inl x, w)
             | Inr True \<Rightarrow>
                 (Inl (ReservationStateError
                    (''Cannot confirm reservation '' @ str_int rid @ '': already expired'')), w)
             | Inr False \<Rightarrow>
                 if get_by_reservation_id (db w) rid \<noteq> None then
                   (Inl (DuplicateOrderError
                      (''Reservation '' @ str_int rid @ '' already has an order'')), w)
                 else
                   (case confirm_items e its w of
                      (Inl x, w1) \<Rightarrow> (Inl x, w1)
                    | (Inr _, w1) \<Rightarrow>
                        (case add_order (new_order r now)
                                (upd_reservation (res_id r) (set_status Confirmed) (db w1)) of
                           (res, d) \<Rightarrow> (res, w1\<lparr>db := d\<rparr>)))))"

subsection \<open>_release_items, cancel, expire_batch\<close>

definition item_done :: "reservation_item \<Rightarrow> bool" where
  "item_done t \<longleftrightarrow> provider_status t \<in> {Released, ItemConfirmed}"

definition unreserve :: "int \<Rightarrow> inventory \<Rightarrow> inventory" where
  "unreserve q r = r\<lparr>qty_reserved := max 0 (qty_reserved r - q)\<rparr>"

definition return_stock :: "reservation_item \<Rightarrow> database \<Rightarrow> database" where
  "return_stock t d =
     (case get_by_id_for_update d (item_inventory_id t) of
        None \<Rightarrow> d
      | Some _ \<Rightarrow> upd_inventory (item_inventory_id t) (unreserve (qty_requested t)) d)"

text \<open>Resolving the adapter stands outside the \<open>try\<close>; the release call is inside.\<close>

definition release_at_provider :: "env \<Rightarrow> reservation_item \<Rightarrow> world \<Rightarrow> (exn + unit) \<times> world" where
  "release_at_provider e t w =
     (case held_ref t of
        None \<Rightarrow> (Inr (), w)
      | Some ref \<Rightarrow>
          (case registry_resolve (get_provider (db w) (item_provider_id t)) None of
             Inl x \<Rightarrow> (Inl x, w)
           | Inr a \<Rightarrow> (case release_hold e a ref w of (_, w') \<Rightarrow> (Inr (), w'))))"

definition release_item :: "env \<Rightarrow> reservation_item \<Rightarrow> world \<Rightarrow> (exn + unit) \<times> world" where
  "release_item e t w =
     (if item_done t then (Inr (), w)
      else
        (case release_at_provider e t (on_db (return_stock t) w) of
           (Inl x, w') \<Rightarrow> (Inl x, w')
         | (Inr _, w') \<Rightarrow> (Inr (), on_db (upd_item (item_id t) (set_provider_status Released)) w')))"

fun release_items :: "env \<Rightarrow> reservation_item list \<Rightarrow> world \<Rightarrow> (exn + unit) \<times> world" where
  "release_items e [] w = (Inr (), w)"
| "release_items e (t # ts) w =
     (case release_item e t w of
        (Inl x, w') \<Rightarrow> (Inl x, w')
      | (Inr _, w') \<Rightarrow> release_items e ts w')"

definition release_and_set ::
    "env \<Rightarrow> reservation_status \<Rightarrow> reservation \<times> reservation_item list \<Rightarrow> world \<Rightarrow>
       (exn + unit) \<times> world" where
  "release_and_set e s ri w =
     (case release_items e (snd ri) w of
        (Inl x, w') \<Rightarrow> (Inl x, w')
      | (Inr _, w') \<Rightarrow> (Inr (), on_db (upd_reservation (res_id (fst ri)) (set_status s)) w'))"

definition cancel :: "env \<Rightarrow> int \<Rightarrow> world \<Rightarrow> (exn + unit) \<times> world" where
  "cancel e rid w =
     (case get_with_items (db w) rid of
        None \<Rightarrow> (Inl (ReservationNotFound (not_found_text rid)), w)
      | Some (r, its) \<Rightarrow>
          if res_status r \<in> {Cancelled, Expired} then (Inr (), w)
          else if res_status r \<noteq> Pending then
            (Inl (ReservationStateError
               (''Cannot cancel reservation '' @ str_int rid @ '': status is '' @ [CHR 0x27] @
                status_value (res_status r) @ [CHR 0x27])), w)
          else release_and_set e Cancelled (r, its) w)"

fun expire_all ::
    "env \<Rightarrow> (reservation \<times> reservation_item list) list \<Rightarrow> world \<Rightarrow> (exn + unit) \<times> world" where
  "expire_all e [] w = (Inr (), w)"
| "expire_all e (ri # ris) w =
     (case release_and_set e Expired ri w of
        (Inl x, w') \<Rightarrow> (Inl x, w')
      | (Inr _, w') \<Rightarrow> expire_all e ris w')"

definition expire_batch :: "env \<Rightarrow> int \<Rightarrow> int \<Rightarrow> world \<Rightarrow> (exn + int) \<times> world" where
  "expire_batch e now limit w =
     (let expired = get_expired_pending now (db w) limit in
      case expire_all e expired w of
        (Inl x, w') \<Rightarrow> (Inl x, w')
      | (Inr _, w') \<Rightarrow> (Inr (int (length expired)), w'))"

end
