(* ===== verification/Reservation_Effects.thy ===== *)
theory Reservation_Effects
  imports Reservation_Service
begin

section \<open>What the reservation operations do to the database\<close>

text \<open>
  The provider calls of \<open>confirm\<close>, \<open>cancel\<close> and \<open>expire_batch\<close> never change the database,
  so what these operations leave behind, when they return, is a function of the database
  alone: \<open>release_row\<close>, \<open>confirm_row\<close> and their folds.  A step of \<open>create\<close> appends one
  settled item and books on one row.  The invariants are proved on these effects.
\<close>

subsection \<open>Provider calls leave the database alone\<close>

lemma confirm_at_provider_db [simp]: "db (snd (confirm_at_provider e t w)) = db w"
  using adapter.confirm_db
  by (auto simp: confirm_at_provider_def split: option.splits sum.splits prod.splits exn.splits)
     (metis snd_conv)+

lemma release_at_provider_db [simp]: "db (snd (release_at_provider e t w)) = db w"
  using adapter.release_db
  by (auto simp: release_at_provider_def split: option.splits sum.splits prod.splits)
     (metis snd_conv)+

lemma confirm_at_provider_dbD: "confirm_at_provider e t w = (res, w') \<Longrightarrow> db w' = db w"
  using confirm_at_provider_db [of e t w] by simp

lemma release_at_provider_dbD: "release_at_provider e t w = (res, w') \<Longrightarrow> db w' = db w"
  using release_at_provider_db [of e t w] by simp

subsection \<open>Releasing\<close>

definition release_row :: "reservation_item \<Rightarrow> database \<Rightarrow> database" where
  "release_row t d =
     (if item_done t then d
      else upd_item (item_id t) (set_provider_status Released) (return_stock t d))"

lemma release_item_db:
  "release_item e t w = (Inr u, w') \<Longrightarrow> db w' = release_row t (db w)"
  by (auto simp: release_item_def release_row_def split: if_splits prod.splits sum.splits
      dest: release_at_provider_dbD)

lemma release_items_db:
  "release_items e ts w = (Inr u, w') \<Longrightarrow> db w' = fold release_row ts (db w)"
  by (induction ts arbitrary: w)
     (auto simp: release_item_db split: prod.splits sum.splits)

lemma release_and_set_db:
  "release_and_set e s (r, ts) w = (Inr u, w') \<Longrightarrow>
     db w' = upd_reservation (res_id r) (set_status s) (fold release_row ts (db w))"
  by (auto simp: release_and_set_def release_items_db split: prod.splits sum.splits)

subsection \<open>Confirming\<close>

definition confirm_row :: "reservation_item \<Rightarrow> database \<Rightarrow> database" where
  "confirm_row t d = upd_item (item_id t) (set_provider_status ItemConfirmed) (take_stock t d)"

lemma confirm_item_db:
  "confirm_item e t w = (Inr u, w') \<Longrightarrow> db w' = confirm_row t (db w)"
  by (auto simp: confirm_item_def confirm_row_def split: prod.splits sum.splits
      dest: confirm_at_provider_dbD)

lemma confirm_items_db:
  "confirm_items e ts w = (Inr u, w') \<Longrightarrow> db w' = fold confirm_row ts (db w)"
  by (induction ts arbitrary: w)
     (auto simp: confirm_item_db split: prod.splits sum.splits)

subsection \<open>Frames of the row effects\<close>

lemma take_stock_frame [frame_simps]:
  "providers (take_stock t d) = providers d" "products (take_stock t d) = products d"
  "reservations (take_stock t d) = reservations d"
  "reservation_items (take_stock t d) = reservation_items d" "orders (take_stock t d) = orders d"
  "next_reservation_id (take_stock t d) = next_reservation_id d"
  "next_item_id (take_stock t d) = next_item_id d" "next_order_id (take_stock t d) = next_order_id d"
  by (auto simp: take_stock_def frame_simps split: option.splits)

lemma return_stock_frame [frame_simps]:
  "providers (return_stock t d) = providers d" "products (return_stock t d) = products d"
  "reservations (return_stock t d) = reservations d"
  "reservation_items (return_stock t d) = reservation_items d" "orders (return_stock t d) = orders d"
  "next_reservation_id (return_stock t d) = next_reservation_id d"
  "next_item_id (return_stock t d) = next_item_id d"
  "next_order_id (return_stock t d) = next_order_id d"
  by (auto simp: return_stock_def frame_simps split: option.splits)

lemma return_stock_inventories:
  "inventories (return_stock t d) =
     upd_by inv_id (item_inventory_id t) (unreserve (qty_requested t)) (inventories d)"
  by (auto simp: return_stock_def get_by_id_for_update_def get_inventory_def frame_simps
      find_by_None upd_by_absent split: option.splits)

lemma take_stock_inventories:
  "inventories (take_stock t d) =
     upd_by inv_id (item_inventory_id t) (consume (qty_requested t)) (inventories d)"
  by (auto simp: take_stock_def get_by_id_for_update_def get_inventory_def frame_simps
      find_by_None upd_by_absent split: option.splits)

lemma release_row_frame [frame_simps]:
  "providers (release_row t d) = providers d" "products (release_row t d) = products d"
  "reservations (release_row t d) = reservations d" "orders (release_row t d) = orders d"
  "next_reservation_id (release_row t d) = next_reservation_id d"
  "next_item_id (release_row t d) = next_item_id d"
  "next_order_id (release_row t d) = next_order_id d"
  by (simp_all add: release_row_def frame_simps)

lemma confirm_row_frame [frame_simps]:
  "providers (confirm_row t d) = providers d" "products (confirm_row t d) = products d"
  "reservations (confirm_row t d) = reservations d" "orders (confirm_row t d) = orders d"
  "next_reservation_id (confirm_row t d) = next_reservation_id d"
  "next_item_id (confirm_row t d) = next_item_id d"
  "next_order_id (confirm_row t d) = next_order_id d"
  by (simp_all add: confirm_row_def frame_simps)

lemma release_rows_frame [frame_simps]:
  "providers (fold release_row ts d) = providers d" "products (fold release_row ts d) = products d"
  "reservations (fold release_row ts d) = reservations d" "orders (fold release_row ts d) = orders d"
  "next_reservation_id (fold release_row ts d) = next_reservation_id d"
  "next_item_id (fold release_row ts d) = next_item_id d"
  "next_order_id (fold release_row ts d) = next_order_id d"
  by (induction ts arbitrary: d) (simp_all add: frame_simps)

lemma confirm_rows_frame [frame_simps]:
  "providers (fold confirm_row ts d) = providers d" "products (fold confirm_row ts d) = products d"
  "reservations (fold confirm_row ts d) = reservations d" "orders (fold confirm_row ts d) = orders d"
  "next_reservation_id (fold confirm_row ts d) = next_reservation_id d"
  "next_item_id (fold confirm_row ts d) = next_item_id d"
  "next_order_id (fold confirm_row ts d) = next_order_id d"
  by (induction ts arbitrary: d) (simp_all add: frame_simps)

subsection \<open>Fields of changed rows\<close>

lemma set_provider_status_sel [simp]:
  "item_id (set_provider_status s t) = item_id t"
  "item_reservation_id (set_provider_status s t) = item_reservation_id t"
  "item_product_id (set_provider_status s t) = item_product_id t"
  "item_inventory_id (set_provider_status s t) = item_inventory_id t"
  "item_provider_id (set_provider_status s t) = item_provider_id t"
  "qty_requested (set_provider_status s t) = qty_requested t"
  "provider_hold_ref (set_provider_status s t) = provider_hold_ref t"
  "provider_status (set_provider_status s t) = s"
  by (simp_all add: set_provider_status_def)

lemma inventory_changes_sel [simp]:
  "inv_id (reserve q r) = inv_id r" "inv_product_id (reserve q r) = inv_product_id r"
  "inv_provider_id (reserve q r) = inv_provider_id r" "qty_available (reserve q r) = qty_available r"
  "qty_reserved (reserve q r) = qty_reserved r + q"
  "inv_id (unreserve q r) = inv_id r" "inv_product_id (unreserve q r) = inv_product_id r"
  "inv_provider_id (unreserve q r) = inv_provider_id r"
  "qty_available (unreserve q r) = qty_available r"
  "qty_reserved (unreserve q r) = max 0 (qty_reserved r - q)"
  "inv_id (consume q r) = inv_id r" "inv_product_id (consume q r) = inv_product_id r"
  "inv_provider_id (consume q r) = inv_provider_id r"
  "qty_available (consume q r) = qty_available r - q"
  "qty_reserved (consume q r) = qty_reserved r - q"
  by (simp_all add: reserve_def unreserve_def consume_def)

lemma set_status_sel [simp]:
  "res_id (set_status s r) = res_id r" "res_status (set_status s r) = s"
  "res_user_id (set_status s r) = res_user_id r" "expires_at (set_status s r) = expires_at r"
  by (simp_all add: set_status_def)

subsection \<open>One step of create\<close>

text \<open>A freshly settled item: complete, held or failed, with a reference only off the local stock.\<close>

definition settled_item :: "int \<Rightarrow> inventory \<Rightarrow> int \<Rightarrow> int \<Rightarrow> int \<Rightarrow> reservation_item \<Rightarrow> bool" where
  "settled_item rid row q k b t \<longleftrightarrow>
     item_id t = k \<and> item_reservation_id t = rid \<and> item_inventory_id t = inv_id row \<and>
     item_provider_id t = inv_provider_id row \<and> qty_requested t = q \<and>
     provider_status t \<in> {Held, ProviderFailed} \<and> (provider_hold_ref t \<noteq> None \<longrightarrow> b = 0)"

definition append_item :: "reservation_item \<Rightarrow> database \<Rightarrow> database" where
  "append_item t d =
     d\<lparr>reservation_items := reservation_items d @ [t], next_item_id := next_item_id d + 1\<rparr>"

lemma append_item_frame [frame_simps]:
  "providers (append_item t d) = providers d" "products (append_item t d) = products d"
  "inventories (append_item t d) = inventories d" "reservations (append_item t d) = reservations d"
  "orders (append_item t d) = orders d" "next_reservation_id (append_item t d) = next_reservation_id d"
  "next_order_id (append_item t d) = next_order_id d" "next_item_id (append_item t d) = next_item_id d + 1"
  "reservation_items (append_item t d) = reservation_items d @ [t]"
  by (simp_all add: append_item_def)

text \<open>
  \<open>b\<close> is 1 for an internal provider, whose adapter books the quantity a second time,
  and 0 for an external one.
\<close>

definition settle_step :: "int \<Rightarrow> inventory \<Rightarrow> int \<Rightarrow> int \<Rightarrow> reservation_item \<Rightarrow> database \<Rightarrow> database" where
  "settle_step rid row q b t d =
     upd_inventory (inv_id row) (reserve (b * q)) (append_item t d)"

lemma append_then_update:
  assumes "\<forall>t \<in> set (reservation_items d). item_id t < next_item_id d" and "item_id t = next_item_id d"
  shows "upd_item (next_item_id d) f (append_item t d) = append_item (f t) d"
proof -
  have "next_item_id d \<notin> item_id ` set (reservation_items d)" using assms(1) by auto
  then show ?thesis using assms(2)
    by (simp add: upd_item_def append_item_def upd_by_append upd_by_absent)
qed

lemma upd_item_inventory_commute:
  "upd_item k f (upd_inventory i g d) = upd_inventory i g (upd_item k f d)"
  by (simp add: upd_item_def upd_inventory_def)

lemma settle_hold_InrD:
  assumes "settle_hold p k res = (Inr u, w')"
  obtains (held) ref w1 where "res = (Inr ref, w1)" "w' = on_db (upd_item k (mark_held ref)) w1"
    | (timeout) m w1 where "res = (Inl (ProviderTimeout m), w1)" "w' = on_db (upd_item k (mark_failed m)) w1"
    | (unavailable) m w1 where "res = (Inl (ProviderUnavailable m), w1)"
        "w' = on_db (upd_item k (mark_failed m)) w1"
  using assms by (auto simp: settle_hold_def split: prod.splits sum.splits exn.splits)

text \<open>The turn of an item up to the provider's answer: its row, its item, its adapter.\<close>

lemma hold_item_asks:
  assumes "hold_item e rid lm (p, q) w = (Inr u, w')"
  obtains i row a s w1 where "lm p = Some i" and "get_inventory (db w) i = Some row"
    and "db w1 = append_item (new_item rid p row q (next_item_id (db w))) (db w)"
    and "registry_resolve (get_provider (db w) (inv_provider_id row)) (Some (inv_id row)) = Inr a"
    and "settle_hold p (next_item_id (db w)) (hold_stock e a s q rid w1) = (Inr u, w')"
proof -
  obtain row where row: "Option.bind (lm p) (get_inventory (db w)) = Some row"
    using assms by (auto simp: hold_item_def split: option.splits)
  then obtain i where i: "lm p = Some i" "get_inventory (db w) i = Some row"
    by (cases "lm p") auto
  let ?d = "append_item (new_item rid p row q (next_item_id (db w))) (db w)"
  have gp: "get_provider ?d = get_provider (db w)"
    by (simp add: fun_eq_iff get_provider_def frame_simps)
  have "(case registry_resolve (get_provider ?d (inv_provider_id row)) (Some (inv_id row)) of
         Inl x \<Rightarrow> (Inl x, w\<lparr>db := ?d\<rparr>)
       | Inr a \<Rightarrow>
           (case get_product ?d (inv_product_id row) of
              None \<Rightarrow> (Inl (AttributeError ''sku''), w\<lparr>db := ?d\<rparr>)
            | Some pr \<Rightarrow> settle_hold p (next_item_id (db w)) (hold_stock e a (sku pr) q rid (w\<lparr>db := ?d\<rparr>)))) =
      (Inr u, w')"
    using assms unfolding append_item_def by (simp add: hold_item_def row add_item_def Let_def)
  note run = this
  obtain a where a: "registry_resolve (get_provider ?d (inv_provider_id row)) (Some (inv_id row)) = Inr a"
    using run by (cases "registry_resolve (get_provider ?d (inv_provider_id row)) (Some (inv_id row))") simp_all
  obtain pr where "get_product ?d (inv_product_id row) = Some pr"
    using run a by (cases "get_product ?d (inv_product_id row)") simp_all
  with run a have "settle_hold p (next_item_id (db w)) (hold_stock e a (sku pr) q rid (w\<lparr>db := ?d\<rparr>)) = (Inr u, w')"
    by simp
  with a show ?thesis using that [OF i, of "w\<lparr>db := ?d\<rparr>" a "sku pr"] by (simp add: gp)
qed

lemma new_item_settled:
  assumes "f = mark_failed m \<or> (f = mark_held ref \<and> (ref \<noteq> None \<longrightarrow> b = 0))"
  shows "settled_item rid row q k b (f (new_item rid p row q k))"
    and "item_product_id (f (new_item rid p row q k)) = p"
  using assms by (auto simp: settled_item_def new_item_def mark_held_def mark_failed_def)

lemma hold_item_InrD:
  assumes run: "hold_item e rid lm (p, q) w = (Inr u, w')"
    and fresh: "\<forall>t \<in> set (reservation_items (db w)). item_id t < next_item_id (db w)"
  obtains i row t b where "lm p = Some i" and "get_inventory (db w) i = Some row"
    and "b = booking (get_provider (db w) (inv_provider_id row))"
    and "settled_item rid row q (next_item_id (db w)) b t" and "item_product_id t = p"
    and "db w' = settle_step rid row q b t (db w)"
    and "b \<noteq> 0 \<longrightarrow> q \<le> effective row"
proof -
  let ?d = "db w" and ?k = "next_item_id (db w)"
  obtain i row a s w1 where i: "lm p = Some i" "get_inventory ?d i = Some row"
    and w1: "db w1 = append_item (new_item rid p row q ?k) ?d"
    and a: "registry_resolve (get_provider ?d (inv_provider_id row)) (Some (inv_id row)) = Inr a"
    and h: "settle_hold p ?k (hold_stock e a s q rid w1) = (Inr u, w')"
    by (rule hold_item_asks [OF run])
  define b where "b = booking (get_provider ?d (inv_provider_id row))"
  have fac: "adapter_factor a = b" "b \<noteq> 0 \<Longrightarrow> adapter_row a = inv_id row"
    using resolve_booking [OF a] by (simp_all add: b_def)
  have row: "get_inventory (db w1) (inv_id row) = Some row"
    using i(2) inv_store.look_key [OF i(2)] by (simp add: w1 get_inventory_def frame_simps)
  have upd: "upd_item ?k f (db w1) = append_item (f (new_item rid p row q ?k)) ?d" for f
    unfolding w1 by (rule append_then_update [OF fresh]) (simp add: new_item_def)
  note result = that
  have soft: thesis if "b = 0" "db w2 = db w1" "w' = on_db (upd_item ?k (mark_failed m)) w2" for w2 m
    using result [OF i b_def new_item_settled(1,2) [of "mark_failed m" m None]] that
    by (simp add: upd settle_step_def)
  from h show ?thesis
  proof (cases rule: settle_hold_InrD)
    case (held ref w2)
    have "db w2 = upd_inventory (inv_id row) (reserve (b * q)) (db w1)"
      using adapter.hold_ok [OF held(1)] fac by (cases "b = 0") simp_all
    then have "db w' = settle_step rid row q b (mark_held ref (new_item rid p row q ?k)) ?d"
      by (simp add: held(2) upd_item_inventory_commute upd settle_step_def)
    moreover have "ref \<noteq> None \<longrightarrow> b = 0" using adapter.hold_ref held(1) fac(1) by fastforce
    moreover have "b \<noteq> 0 \<longrightarrow> q \<le> effective row"
      using adapter.hold_covered [OF held(1)] fac row by auto
    ultimately show ?thesis
      using result [OF i b_def new_item_settled(1,2) [of "mark_held ref" "[]" ref]] by blast
  next
    case (timeout m w2)
    then show ?thesis
      using soft adapter.hold_timeout [OF timeout(1)] adapter.hold_raises [OF timeout(1)] fac(1) by simp
  next
    case (unavailable m w2)
    then show ?thesis
      using soft adapter.hold_unavailable [OF unavailable(1)] adapter.hold_raises [OF unavailable(1)] fac(1)
      by simp
  qed
qed

end
