(* ===== verification/Ledger.thy ===== *)
theory Ledger
  imports Reservation_Effects
begin

section \<open>The ledger of stock and the invariant of the database\<close>

text \<open>
  What \<open>qty_reserved\<close> of an inventory row means: the quantities of the live items on the
  row (held or failed, not yet released or confirmed), and, on the rows of internal
  providers, once more the quantities of all items ever created on the row: the internal adapter
  books a quantity that \<open>create\<close> has booked already, and nothing ever takes that back.
  \<open>adj\<close> is what \<open>create\<close> has booked ahead for items it has not inserted yet.
\<close>

definition live_qty :: "int \<Rightarrow> reservation_item \<Rightarrow> int" where
  "live_qty i t = (if item_inventory_id t = i \<and> \<not> item_done t then qty_requested t else 0)"

definition all_qty :: "int \<Rightarrow> reservation_item \<Rightarrow> int" where
  "all_qty i t = (if item_inventory_id t = i then qty_requested t else 0)"

definition sold_qty :: "int \<Rightarrow> reservation_item \<Rightarrow> int" where
  "sold_qty i t =
     (if item_inventory_id t = i \<and> provider_status t = ItemConfirmed then qty_requested t else 0)"

definition live_sum :: "database \<Rightarrow> int \<Rightarrow> int" where
  "live_sum d i = sum_list (map (live_qty i) (reservation_items d))"

definition all_sum :: "database \<Rightarrow> int \<Rightarrow> int" where
  "all_sum d i = sum_list (map (all_qty i) (reservation_items d))"

definition sold_sum :: "database \<Rightarrow> int \<Rightarrow> int" where
  "sold_sum d i = sum_list (map (sold_qty i) (reservation_items d))"

definition row_booking :: "database \<Rightarrow> inventory \<Rightarrow> int" where
  "row_booking d r = booking (get_provider d (inv_provider_id r))"

definition ledger :: "(int \<Rightarrow> int) \<Rightarrow> database \<Rightarrow> bool" where
  "ledger adj d \<longleftrightarrow>
     (\<forall>r \<in> set (inventories d).
        qty_reserved r =
          live_sum d (inv_id r) + row_booking d r * all_sum d (inv_id r) + adj (inv_id r))"

text \<open>Keys: ids are distinct, and every id is below the table's counter.\<close>

definition keys_ok :: "database \<Rightarrow> bool" where
  "keys_ok d \<longleftrightarrow>
     distinct (map inv_id (inventories d)) \<and> distinct (map res_id (reservations d)) \<and>
     distinct (map item_id (reservation_items d)) \<and>
     (\<forall>r \<in> set (reservations d). res_id r < next_reservation_id d) \<and>
     (\<forall>t \<in> set (reservation_items d). item_id t < next_item_id d)"

text \<open>Foreign keys of the items, positive quantities, and references only off the local stock.\<close>

definition row_key :: "inventory \<Rightarrow> int \<times> int \<times> int" where
  "row_key r = (inv_id r, inv_provider_id r, inv_product_id r)"

definition item_key :: "reservation_item \<Rightarrow> int \<times> int \<times> int" where
  "item_key t = (item_inventory_id t, item_provider_id t, item_product_id t)"

definition item_ok :: "database \<Rightarrow> reservation_item \<Rightarrow> bool" where
  "item_ok d t \<longleftrightarrow>
     item_key t \<in> row_key ` set (inventories d) \<and>
     item_reservation_id t \<in> res_id ` set (reservations d) \<and> 0 < qty_requested t \<and>
     (provider_hold_ref t \<noteq> None \<longrightarrow> booking (get_provider d (item_provider_id t)) = 0)"

definition refs_ok :: "database \<Rightarrow> bool" where
  "refs_ok d \<longleftrightarrow> (\<forall>t \<in> set (reservation_items d). item_ok d t)"

text \<open>The status of a reservation decides the status of its items.\<close>

fun item_fits :: "reservation_status \<Rightarrow> provider_item_status \<Rightarrow> bool" where
  "item_fits Pending s \<longleftrightarrow> s = Held \<or> s = ProviderFailed"
| "item_fits Confirmed s \<longleftrightarrow> s = ItemConfirmed"
| "item_fits Cancelled s \<longleftrightarrow> s = Released"
| "item_fits Expired s \<longleftrightarrow> s = Released"

definition status_ok :: "database \<Rightarrow> bool" where
  "status_ok d \<longleftrightarrow>
     (\<forall>t \<in> set (reservation_items d). \<forall>r \<in> set (reservations d).
        res_id r = item_reservation_id t \<longrightarrow> item_fits (res_status r) (provider_status t))"

text \<open>Orders and confirmed reservations are in one-to-one correspondence.\<close>

definition orders_ok :: "database \<Rightarrow> bool" where
  "orders_ok d \<longleftrightarrow>
     distinct (map order_reservation_id (orders d)) \<and>
     (\<forall>ord \<in> set (orders d). order_id ord < next_order_id d) \<and>
     distinct (map order_id (orders d)) \<and>
     order_reservation_id ` set (orders d) =
       res_id ` {r \<in> set (reservations d). res_status r = Confirmed}"

definition core :: "(int \<Rightarrow> int) \<Rightarrow> database \<Rightarrow> bool" where
  "core adj d \<longleftrightarrow> keys_ok d \<and> refs_ok d \<and> ledger adj d"

definition db_inv :: "database \<Rightarrow> bool" where
  "db_inv d \<longleftrightarrow> core (\<lambda>_. 0) d \<and> status_ok d \<and> orders_ok d"

text \<open>
  The invariant up to quantities that stay reserved although no item holds them: \<open>adj\<close> says how much of
  each row.  Requests that overlap leave such quantities behind; serial ones never do.
\<close>

definition leaky_inv :: "(int \<Rightarrow> int) \<Rightarrow> database \<Rightarrow> bool" where
  "leaky_inv adj d \<longleftrightarrow> (\<forall>i. 0 \<le> adj i) \<and> core adj d \<and> status_ok d \<and> orders_ok d"

lemma db_inv_leaky: "db_inv d \<longleftrightarrow> leaky_inv (\<lambda>_. 0) d"
  by (simp add: db_inv_def leaky_inv_def)

lemma leaky_invD:
  assumes "leaky_inv adj d"
  shows "0 \<le> adj i" and "core adj d" and "status_ok d" and "orders_ok d" and "keys_ok d"
  using assms by (simp_all add: leaky_inv_def core_def)

lemmas inv_defs = db_inv_def core_def keys_ok_def refs_ok_def item_ok_def ledger_def
  status_ok_def orders_ok_def row_booking_def

text \<open>What an item is checked against: the keys of the rows, the reservations, the providers.\<close>

lemma item_ok_transfer:
  assumes "item_ok d t" and "row_key ` set (inventories d) \<subseteq> row_key ` set (inventories d')"
    and "res_id ` set (reservations d) \<subseteq> res_id ` set (reservations d')"
    and "providers d' = providers d" and "item_key t' = item_key t"
    and "item_reservation_id t' = item_reservation_id t" and "qty_requested t' = qty_requested t"
    and "provider_hold_ref t' = provider_hold_ref t"
  shows "item_ok d' t'"
  using assms by (auto simp: item_ok_def item_key_def get_provider_def)

lemma row_key_upd:
  assumes "\<And>r. row_key (f r) = row_key r"
  shows "row_key ` set (upd_by inv_id k f rs) = row_key ` set rs"
  using arg_cong [OF map_upd_by [of row_key f inv_id k rs, OF assms], of set] by simp

lemma item_key_set [simp]: "item_key (set_provider_status s t) = item_key t"
  by (simp add: item_key_def)

subsection \<open>Sums under a change of one item\<close>

lemma item_done_set [simp]:
  "item_done (set_provider_status s t) \<longleftrightarrow> s = Released \<or> s = ItemConfirmed"
  by (simp add: item_done_def)

lemma live_qty_closed [simp]:
  "s = Released \<or> s = ItemConfirmed \<Longrightarrow> live_qty i (set_provider_status s t) = 0"
  by (auto simp: live_qty_def)

lemma all_qty_set_status [simp]: "all_qty i (set_provider_status s t) = all_qty i t"
  by (simp add: all_qty_def)

lemma core_qty_pos: "core adj d \<Longrightarrow> t \<in> set (reservation_items d) \<Longrightarrow> 0 < qty_requested t"
  by (auto simp: inv_defs)

lemma live_qty_nonneg: "core adj d \<Longrightarrow> t \<in> set (reservation_items d) \<Longrightarrow> 0 \<le> live_qty i t"
  using core_qty_pos [of adj d t] by (simp add: live_qty_def)

lemma all_qty_nonneg: "core adj d \<Longrightarrow> t \<in> set (reservation_items d) \<Longrightarrow> 0 \<le> all_qty i t"
  using core_qty_pos [of adj d t] by (simp add: all_qty_def)

lemma live_sum_nonneg: "core adj d \<Longrightarrow> 0 \<le> live_sum d i"
  unfolding live_sum_def
  by (rule sum_list_nonneg_int) (rule live_qty_nonneg)

lemma all_sum_nonneg: "core adj d \<Longrightarrow> 0 \<le> all_sum d i"
  unfolding all_sum_def
  by (rule sum_list_nonneg_int) (rule all_qty_nonneg)

lemma live_qty_le_live_sum:
  "core adj d \<Longrightarrow> t \<in> set (reservation_items d) \<Longrightarrow> live_qty i t \<le> live_sum d i"
  unfolding live_sum_def
  by (rule sum_list_member_le) (rule live_qty_nonneg)

lemma leak_nonneg: "core adj d \<Longrightarrow> 0 \<le> row_booking d r * all_sum d i"
  using all_sum_nonneg [of adj d i] booking_range [of "get_provider d (inv_provider_id r)"]
  by (auto simp: row_booking_def)

lemma core_reserved_ge:
  assumes "core adj d" and "r \<in> set (inventories d)"
  shows "live_sum d (inv_id r) + adj (inv_id r) \<le> qty_reserved r"
  using assms leak_nonneg [of adj d r "inv_id r"] by (auto simp: core_def ledger_def)

subsection \<open>Closing one item\<close>

text \<open>
  Releasing and confirming an item do the same to the ledger: the item stops being live
  and its row loses its quantity.  \<open>close_row\<close> is what both have in common.
\<close>

definition close_row ::
    "provider_item_status \<Rightarrow> (int \<Rightarrow> inventory \<Rightarrow> inventory) \<Rightarrow> reservation_item \<Rightarrow> database \<Rightarrow> database" where
  "close_row s f t d =
     upd_item (item_id t) (set_provider_status s)
       (upd_inventory (item_inventory_id t) (f (qty_requested t)) d)"

lemma take_stock_eq: "take_stock t d = upd_inventory (item_inventory_id t) (consume (qty_requested t)) d"
  by (auto simp: take_stock_def get_by_id_for_update_def get_inventory_def upd_inventory_def
      find_by_None upd_by_absent split: option.splits)

lemma return_stock_eq:
  "return_stock t d = upd_inventory (item_inventory_id t) (unreserve (qty_requested t)) d"
  by (auto simp: return_stock_def get_by_id_for_update_def get_inventory_def upd_inventory_def
      find_by_None upd_by_absent split: option.splits)

lemma release_row_close: "\<not> item_done t \<Longrightarrow> release_row t d = close_row Released unreserve t d"
  by (simp add: release_row_def close_row_def return_stock_eq)

lemma confirm_row_close: "confirm_row t d = close_row ItemConfirmed consume t d"
  by (simp add: confirm_row_def close_row_def take_stock_eq)

text \<open>Closing a live item takes its quantity out of the live sum of its row and out of no other sum.\<close>

lemma close_row_sums:
  assumes dist: "distinct (map item_id (reservation_items d))"
    and cur: "find_by item_id (item_id t) (reservation_items d) = Some t"
    and live: "\<not> item_done t" and s: "s = Released \<or> s = ItemConfirmed"
  shows "live_sum (close_row s f t d) j = live_sum d j - (if item_inventory_id t = j then qty_requested t else 0)"
    and "all_sum (close_row s f t d) j = all_sum d j"
proof -
  have items: "reservation_items (close_row s f t d) = upd_by item_id (item_id t) (set_provider_status s) (reservation_items d)"
    by (simp add: close_row_def frame_simps)
  show "live_sum (close_row s f t d) j = live_sum d j - (if item_inventory_id t = j then qty_requested t else 0)"
    using sum_list_upd_by [OF dist cur, of "live_qty j" "set_provider_status s"] s live
    by (simp add: live_sum_def items live_qty_def)
  show "all_sum (close_row s f t d) j = all_sum d j"
    using sum_list_upd_by [OF dist cur, of "all_qty j" "set_provider_status s"] by (simp add: all_sum_def items)
qed

lemma close_row_core:
  assumes core: "core adj d" and cur: "find_by item_id (item_id t) (reservation_items d) = Some t"
    and live: "\<not> item_done t" and s: "s = Released \<or> s = ItemConfirmed"
    and f: "\<And>q r. inv_id (f q r) = inv_id r \<and> inv_product_id (f q r) = inv_product_id r \<and>
      inv_provider_id (f q r) = inv_provider_id r \<and> (q \<le> qty_reserved r \<longrightarrow> qty_reserved (f q r) = qty_reserved r - q)"
    and adj: "\<And>i. 0 \<le> adj i"
  shows "core adj (close_row s f t d)"
proof -
  let ?i = "item_inventory_id t" and ?q = "qty_requested t" and ?d = "close_row s f t d"
  have t: "t \<in> set (reservation_items d)" using cur by (rule find_by_SomeD)
  have items: "reservation_items ?d = upd_by item_id (item_id t) (set_provider_status s) (reservation_items d)"
    and rows: "inventories ?d = upd_by inv_id ?i (f ?q) (inventories d)"
    and rest: "providers ?d = providers d" "reservations ?d = reservations d"
      "next_item_id ?d = next_item_id d" "next_reservation_id ?d = next_reservation_id d"
    by (simp_all add: close_row_def frame_simps)
  have rk: "row_key (f q r) = row_key r" for q r by (simp add: row_key_def f)
  have keys: "keys_ok ?d"
    using core by (auto simp: core_def keys_ok_def items rows rest map_upd_by f set_upd_by)
  have refs: "refs_ok ?d"
    unfolding refs_ok_def items set_upd_by
  proof clarify
    fix x assume "x \<in> set (reservation_items d)"
    then have "item_ok d x" using core by (simp add: core_def refs_ok_def)
    then show "item_ok ?d (if item_id x = item_id t then set_provider_status s x else x)"
      by (rule item_ok_transfer) (simp_all add: rows rest row_key_upd rk)
  qed
  have dist: "distinct (map item_id (reservation_items d))"
    using core by (simp add: core_def keys_ok_def)
  note sums = close_row_sums [OF dist cur live s, of f]
  have "ledger adj ?d"
    unfolding ledger_def
  proof
    fix r' assume "r' \<in> set (inventories ?d)"
    then obtain r where r: "r \<in> set (inventories d)"
      and r': "r' = (if inv_id r = ?i then f ?q r else r)"
      by (auto simp: rows set_upd_by)
    have bk: "row_booking ?d r' = row_booking d r"
      using f by (simp add: row_booking_def r' rest get_provider_def)
    have eq: "qty_reserved r = live_sum d (inv_id r) + row_booking d r * all_sum d (inv_id r) + adj (inv_id r)"
      using core r by (simp add: core_def ledger_def)
    have "?q \<le> qty_reserved r" if "inv_id r = ?i"
      using live_qty_le_live_sum [OF core t, of ?i] core_reserved_ge [OF core r] adj [of ?i] that live
      by (simp add: live_qty_def)
    then show "qty_reserved r' =
        live_sum ?d (inv_id r') + row_booking ?d r' * all_sum ?d (inv_id r') + adj (inv_id r')"
      using eq f by (simp add: r' bk sums bk [unfolded r'])
  qed
  with keys refs show ?thesis by (simp add: core_def)
qed

subsection \<open>Closing the items of a reservation\<close>

definition close_rows ::
    "provider_item_status \<Rightarrow> (int \<Rightarrow> inventory \<Rightarrow> inventory) \<Rightarrow> reservation_item list \<Rightarrow> database \<Rightarrow> database" where
  "close_rows s f ts d = fold (close_row s f) ts d"

lemma close_row_frame [frame_simps]:
  "providers (close_row s f t d) = providers d" "products (close_row s f t d) = products d"
  "reservations (close_row s f t d) = reservations d" "orders (close_row s f t d) = orders d"
  "next_reservation_id (close_row s f t d) = next_reservation_id d"
  "next_item_id (close_row s f t d) = next_item_id d" "next_order_id (close_row s f t d) = next_order_id d"
  "reservation_items (close_row s f t d) =
     upd_by item_id (item_id t) (set_provider_status s) (reservation_items d)"
  "inventories (close_row s f t d) =
     upd_by inv_id (item_inventory_id t) (f (qty_requested t)) (inventories d)"
  by (simp_all add: close_row_def frame_simps)

lemma close_rows_frame [frame_simps]:
  "providers (close_rows s f ts d) = providers d" "products (close_rows s f ts d) = products d"
  "reservations (close_rows s f ts d) = reservations d" "orders (close_rows s f ts d) = orders d"
  "next_reservation_id (close_rows s f ts d) = next_reservation_id d"
  "next_item_id (close_rows s f ts d) = next_item_id d" "next_order_id (close_rows s f ts d) = next_order_id d"
  by (induction ts arbitrary: d) (simp_all add: close_rows_def frame_simps)

text \<open>Rows are rewritten by id, so the loop over the items is one map.\<close>

lemma close_rows_items:
  "reservation_items (close_rows s f ts d) =
    map (\<lambda>t. if item_id t \<in> item_id ` set ts then set_provider_status s t else t)
      (reservation_items d)"
  by (induction ts arbitrary: d)
     (auto simp: close_rows_def frame_simps upd_by_def set_provider_status_def intro!: map_cong)

lemma release_rows_close:
  "\<forall>t \<in> set ts. \<not> item_done t \<Longrightarrow> fold release_row ts d = close_rows Released unreserve ts d"
  unfolding close_rows_def by (rule fold_cong) (auto simp: release_row_close)

lemma confirm_rows_close: "fold confirm_row ts d = close_rows ItemConfirmed consume ts d"
  unfolding close_rows_def by (rule fold_cong) (auto simp: confirm_row_close)

text \<open>What the loops over items ask of the two changes of a row, \<open>unreserve\<close> and \<open>consume\<close>.\<close>

definition gives_back :: "(int \<Rightarrow> inventory \<Rightarrow> inventory) \<Rightarrow> bool" where
  "gives_back f \<longleftrightarrow>
     (\<forall>q r. row_key (f q r) = row_key r \<and>
        (q \<le> qty_reserved r \<longrightarrow> qty_reserved (f q r) = qty_reserved r - q))"

lemma gives_back_unreserve: "gives_back unreserve" and gives_back_consume: "gives_back consume"
  by (auto simp: gives_back_def row_key_def)

text \<open>
  An invariant that the closing of one current, live item keeps is kept by the loop over
  distinct such items.
\<close>

lemma close_rows_invariant:
  assumes step: "\<And>t d. P d \<Longrightarrow> find_by item_id (item_id t) (reservation_items d) = Some t \<Longrightarrow>
      \<not> item_done t \<Longrightarrow> P (close_row s f t d)"
    and "P d" and "distinct (map item_id ts)"
    and "\<forall>t \<in> set ts. find_by item_id (item_id t) (reservation_items d) = Some t \<and> \<not> item_done t"
  shows "P (close_rows s f ts d)"
  using assms(2-4)
proof (induction ts arbitrary: d)
  case Nil
  then show ?case by (simp add: close_rows_def)
next
  case (Cons t ts)
  have "P (close_row s f t d)" using Cons.prems by (intro step) auto
  moreover have "find_by item_id (item_id t') (reservation_items (close_row s f t d)) = Some t'"
    if "t' \<in> set ts" for t'
  proof -
    have "item_id t' \<noteq> item_id t" using Cons.prems(2) that by (auto simp: image_iff)
    then show ?thesis using Cons.prems(3) that by (simp add: frame_simps find_by_upd_other)
  qed
  ultimately have "P (close_rows s f ts (close_row s f t d))"
    using Cons.prems by (intro Cons.IH) auto
  then show ?case by (simp add: close_rows_def)
qed

lemma items_of_current:
  assumes "keys_ok d"
  shows "distinct (map item_id (items_of d k))"
    and "t \<in> set (items_of d k) \<Longrightarrow> find_by item_id (item_id t) (reservation_items d) = Some t"
  using assms by (auto simp: keys_ok_def items_of_def distinct_map_filter find_by_distinct)

lemma items_of_ids:
  assumes "keys_ok d" and "t \<in> set (reservation_items d)"
  shows "item_id t \<in> item_id ` set (items_of d k) \<longleftrightarrow> item_reservation_id t = k"
proof -
  have "t = t'" if "t' \<in> set (reservation_items d)" "item_id t' = item_id t" for t'
    using assms that by (simp add: keys_ok_def distinct_map inj_on_def)
  then show ?thesis using assms(2) by (auto simp: items_of_def image_iff)
qed

lemma pending_items_live:
  assumes "status_ok d" and "r \<in> set (reservations d)" and "res_status r = Pending"
    and "t \<in> set (items_of d (res_id r))"
  shows "\<not> item_done t"
  using assms by (force simp: status_ok_def items_of_def item_done_def)

lemma reservation_unique:
  "keys_ok d \<Longrightarrow> r \<in> set (reservations d) \<Longrightarrow> r' \<in> set (reservations d) \<Longrightarrow> res_id r = res_id r' \<Longrightarrow> r = r'"
  by (simp add: keys_ok_def distinct_map inj_on_def)

text \<open>Closing a pending reservation: all its items, then its own status.\<close>

definition close_reservation ::
    "provider_item_status \<Rightarrow> (int \<Rightarrow> inventory \<Rightarrow> inventory) \<Rightarrow> reservation_status \<Rightarrow> reservation \<Rightarrow>
       database \<Rightarrow> database" where
  "close_reservation s f S r d =
     upd_reservation (res_id r) (set_status S) (close_rows s f (items_of d (res_id r)) d)"

lemma core_upd_reservation:
  assumes "core adj d"
  shows "core adj (upd_reservation k (set_status S) d)"
proof -
  let ?d = "upd_reservation k (set_status S) d"
  have map_ids: "map res_id (reservations ?d) = map res_id (reservations d)"
    by (simp add: frame_simps map_upd_by)
  have ids: "res_id ` set (reservations ?d) = res_id ` set (reservations d)"
    using arg_cong [OF map_ids, of set] by simp
  have "(\<forall>r \<in> set (reservations ?d). res_id r < n) \<longleftrightarrow> (\<forall>r \<in> set (reservations d). res_id r < n)" for n
    using ids by (metis (no_types, lifting) image_iff)
  with assms map_ids have "keys_ok ?d" by (simp add: core_def keys_ok_def frame_simps)
  moreover have "refs_ok ?d"
    using assms item_ok_transfer [of d _ ?d] ids by (auto simp: core_def refs_ok_def frame_simps)
  moreover have "ledger adj ?d"
    using assms by (simp add: core_def ledger_def live_sum_def all_sum_def row_booking_def
        get_provider_def frame_simps)
  ultimately show ?thesis by (simp add: core_def)
qed

lemma close_reservation_rows:
  assumes step: "\<And>t d. P d \<Longrightarrow> find_by item_id (item_id t) (reservation_items d) = Some t \<Longrightarrow>
      \<not> item_done t \<Longrightarrow> P (close_row s f t d)"
    and "P d" and "keys_ok d" and "status_ok d" and "r \<in> set (reservations d)" and "res_status r = Pending"
  shows "P (close_rows s f (items_of d (res_id r)) d)"
  using items_of_current [OF assms(3)] pending_items_live [OF assms(4-6)] assms(2)
  by (intro close_rows_invariant [where P = P] step) auto

lemma close_reservation_core:
  assumes "core adj d" and "status_ok d" and "r \<in> set (reservations d)"
    and "res_status r = Pending" and s: "s = Released \<or> s = ItemConfirmed" and f: "gives_back f"
    and adj: "\<And>i. 0 \<le> adj i"
  shows "core adj (close_reservation s f S r d)"
proof -
  have "core adj (close_row s f t d)"
    if "core adj d" "find_by item_id (item_id t) (reservation_items d) = Some t" "\<not> item_done t" for t d
    using close_row_core [OF that s, of f] f adj by (auto simp: gives_back_def row_key_def)
  then have "core adj (close_rows s f (items_of d (res_id r)) d)"
    using assms(1-4) by (intro close_reservation_rows [where P = "core adj"]) (auto simp: core_def)
  then show ?thesis by (simp add: close_reservation_def core_upd_reservation)
qed

lemma close_reservation_status:
  assumes "keys_ok d" and "status_ok d" and "r \<in> set (reservations d)" and "item_fits S s"
  shows "status_ok (close_reservation s f S r d)"
  unfolding status_ok_def
proof clarify
  let ?d = "close_reservation s f S r d"
  fix t' r'
  assume "t' \<in> set (reservation_items ?d)" and "r' \<in> set (reservations ?d)"
    and id: "res_id r' = item_reservation_id t'"
  then obtain t x where t: "t \<in> set (reservation_items d)"
    and t': "t' = (if item_reservation_id t = res_id r then set_provider_status s t else t)"
    and x: "x \<in> set (reservations d)" and r': "r' = (if res_id x = res_id r then set_status S x else x)"
    using items_of_ids [OF assms(1), of _ "res_id r"]
    by (auto simp: close_reservation_def frame_simps close_rows_items set_upd_by)
  have same: "res_id x = item_reservation_id t" using id by (simp add: t' r' split: if_splits)
  show "item_fits (res_status r') (provider_status t')"
  proof (cases "res_id x = res_id r")
    case True
    then show ?thesis using same assms(4) by (simp add: r' t')
  next
    case False
    then show ?thesis using same assms(2) t x by (simp add: r' t' status_ok_def)
  qed
qed

lemma close_reservation_frame [frame_simps]:
  "providers (close_reservation s f S r d) = providers d"
  "products (close_reservation s f S r d) = products d"
  "orders (close_reservation s f S r d) = orders d"
  "next_reservation_id (close_reservation s f S r d) = next_reservation_id d"
  "next_item_id (close_reservation s f S r d) = next_item_id d"
  "next_order_id (close_reservation s f S r d) = next_order_id d"
  "reservations (close_reservation s f S r d) = upd_by res_id (res_id r) (set_status S) (reservations d)"
  by (simp_all add: close_reservation_def frame_simps)

lemma close_reservation_items:
  assumes "keys_ok d"
  shows "reservation_items (close_reservation s f S r d) =
    map (\<lambda>t. if item_reservation_id t = res_id r then set_provider_status s t else t) (reservation_items d)"
  unfolding close_reservation_def
  by (simp add: frame_simps close_rows_items items_of_ids [OF assms] cong: map_cong)

lemma close_reservation_items_of:
  assumes "keys_ok d" and "k \<noteq> res_id r"
  shows "items_of (close_reservation s f S r d) k = items_of d k"
proof -
  have "filter (\<lambda>t. item_reservation_id t = k)
      (map (\<lambda>t. if item_reservation_id t = res_id r then set_provider_status s t else t) ts) =
    filter (\<lambda>t. item_reservation_id t = k) ts" for ts
    using assms(2) by (induction ts) auto
  then show ?thesis by (simp add: items_of_def close_reservation_items [OF assms(1)])
qed

lemma confirmed_ids_upd:
  assumes "keys_ok d" and "r \<in> set (reservations d)" and "res_status r = Pending"
  shows "res_id ` {x \<in> set (upd_by res_id (res_id r) (set_status S) (reservations d)). res_status x = Confirmed} =
    (if S = Confirmed then {res_id r} else {}) \<union> res_id ` {x \<in> set (reservations d). res_status x = Confirmed}"
proof -
  have only: "x = r" if "x \<in> set (reservations d)" "res_id x = res_id r" for x
    using reservation_unique [OF assms(1) that(1) assms(2)] that(2) by simp
  have other: "res_id x \<noteq> res_id r" if "x \<in> set (reservations d)" "res_status x = Confirmed" for x
    using only [OF that(1)] that(2) assms(3) by auto
  have "{x \<in> set (upd_by res_id (res_id r) (set_status S) (reservations d)). res_status x = Confirmed} =
      (if S = Confirmed then {set_status S r} else {}) \<union> {x \<in> set (reservations d). res_status x = Confirmed}"
    using assms(2,3) by (auto simp: set_upd_by split: if_splits dest: only other)
  then show ?thesis by (auto simp: image_Un)
qed

lemma close_reservation_leaky:
  assumes inv: "leaky_inv adj d" and r: "r \<in> set (reservations d)" "res_status r = Pending"
    and S: "S = Cancelled \<or> S = Expired"
  shows "leaky_inv adj (close_reservation Released unreserve S r d)"
proof -
  note core = leaky_invD(2) [OF inv] and st = leaky_invD(3) [OF inv] and ord = leaky_invD(4) [OF inv]
    and keys = leaky_invD(5) [OF inv]
  have "item_fits S Released" and "S \<noteq> Confirmed" using S by auto
  then have "status_ok (close_reservation Released unreserve S r d)"
    and "orders_ok (close_reservation Released unreserve S r d)"
    using close_reservation_status [OF keys st r(1)] ord confirmed_ids_upd [OF keys r, of S]
    by (auto simp: orders_ok_def frame_simps)
  then show ?thesis
    using close_reservation_core [OF core st r _ gives_back_unreserve] leaky_invD(1) [OF inv] by (simp add: leaky_inv_def)
qed

lemma close_reservation_inv:
  "db_inv d \<Longrightarrow> r \<in> set (reservations d) \<Longrightarrow> res_status r = Pending \<Longrightarrow> S = Cancelled \<or> S = Expired \<Longrightarrow>
     db_inv (close_reservation Released unreserve S r d)"
  unfolding db_inv_leaky by (rule close_reservation_leaky)

lemma close_reservation_confirmed_inv:
  assumes inv: "db_inv d" and r: "r \<in> set (reservations d)" "res_status r = Pending"
    and d': "add_order (new_order r now) (close_reservation ItemConfirmed consume Confirmed r d) = (Inr ord, d')"
  shows "db_inv d'"
proof -
  let ?c = "close_reservation ItemConfirmed consume Confirmed r d"
  have core: "core (\<lambda>_. 0) d" and st: "status_ok d" and orders: "orders_ok d" and keys: "keys_ok d"
    using inv by (auto simp: db_inv_def core_def)
  have d'_eq: "d' = ?c\<lparr>orders := orders ?c @ [new_order r now (next_order_id d)],
      next_order_id := next_order_id d + 1\<rparr>"
    and new: "res_id r \<notin> order_reservation_id ` set (orders d)"
    using d' by (auto simp: add_order_def Let_def new_order_def get_by_reservation_id_def find_by_None
        frame_simps split: if_splits)
  have "core (\<lambda>_. 0) ?c" and "status_ok ?c"
    using close_reservation_core [OF core st r _ gives_back_consume]
      close_reservation_status [OF keys st r(1)] by auto
  then have "core (\<lambda>_. 0) d'" and "status_ok d'"
    by (simp_all add: d'_eq inv_defs live_sum_def all_sum_def get_provider_def)
  moreover have "orders_ok d'"
    using orders new confirmed_ids_upd [OF keys r, of Confirmed]
    by (force simp: d'_eq orders_ok_def frame_simps new_order_def)
  ultimately show ?thesis by (simp add: db_inv_def)
qed

end
