(* ===== verification/Lifecycle.thy ===== *)
theory Lifecycle
  imports Ledger
begin

section \<open>Every operation keeps the invariant of the database\<close>

text \<open>
  For each operation: what it does to the database when it returns, that it keeps
  \<open>db_inv\<close>, and the interpretation of \<open>transaction\<close> that carries the invariant
  through commit and rollback.
\<close>

subsection \<open>Rollback\<close>

lemma db_inv_rollback: "db_inv d \<Longrightarrow> counters_le d d' \<Longrightarrow> db_inv (rollback d d')"
  by (force simp: inv_defs rollback_def counters_le_def live_sum_def all_sum_def get_provider_def)

lemma counters_close: "counters_le d (close_row s f t d)"
  by (simp add: counters_le_def frame_simps)

lemma counters_release_row: "counters_le d (release_row t d)"
  by (simp add: counters_le_def frame_simps)

text \<open>No operation lowers a counter, whether it returns or raises.\<close>

lemma release_item_counters:
  "release_item e t w = (res, w') \<Longrightarrow>
     counters_le (db w) (db w') \<and> reservations (db w') = reservations (db w)"
  by (auto simp: release_item_def counters_le_def frame_simps dest!: release_at_provider_dbD
      split: if_splits prod.splits sum.splits)

lemma release_items_counters:
  "release_items e ts w = (res, w') \<Longrightarrow> counters_le (db w) (db w')"
proof (induction ts arbitrary: w)
  case Nil
  then show ?case by simp
next
  case (Cons t ts)
  then show ?case
    by (fastforce split: prod.splits sum.splits dest: release_item_counters intro: counters_le_trans)
qed

lemma release_and_set_counters:
  "release_and_set e s ri w = (res, w') \<Longrightarrow> counters_le (db w) (db w')"
  by (auto simp: release_and_set_def counters_le_def frame_simps split: prod.splits sum.splits
      dest!: release_items_counters)

lemma expire_all_counters: "expire_all e ris w = (res, w') \<Longrightarrow> counters_le (db w) (db w')"
proof (induction ris arbitrary: w)
  case Nil
  then show ?case by simp
next
  case (Cons ri ris)
  then show ?case
    by (fastforce split: prod.splits sum.splits dest: release_and_set_counters intro: counters_le_trans)
qed

lemma cancel_counters: "counters_le (db w) (db (snd (cancel e rid w)))"
  by (auto simp: cancel_def split: option.splits prod.splits)
     (metis prod.collapse release_and_set_counters)

lemma expire_batch_counters: "counters_le (db w) (db (snd (expire_batch e now limit w)))"
  by (auto simp: expire_batch_def Let_def split: prod.splits sum.splits dest: expire_all_counters)

lemma confirm_item_counters:
  "confirm_item e t w = (res, w') \<Longrightarrow> counters_le (db w) (db w')"
  by (auto simp: confirm_item_def counters_le_def frame_simps dest!: confirm_at_provider_dbD
      split: prod.splits sum.splits)

lemma confirm_items_counters: "confirm_items e ts w = (res, w') \<Longrightarrow> counters_le (db w) (db w')"
proof (induction ts arbitrary: w)
  case Nil
  then show ?case by simp
next
  case (Cons t ts)
  then show ?case
    by (fastforce split: prod.splits sum.splits dest: confirm_item_counters intro: counters_le_trans)
qed

lemma confirm_counters: "counters_le (db w) (db (snd (confirm e now rid w)))"
  by (auto simp: confirm_def add_order_def Let_def frame_simps counters_le_def
      split: option.splits prod.splits sum.splits bool.splits dest!: confirm_items_counters)

subsection \<open>cancel\<close>

lemma get_with_itemsD:
  assumes "get_with_items d rid = Some (r, its)"
  shows "r \<in> set (reservations d)" and "res_id r = rid" and "its = items_of d (res_id r)"
  using assms by (auto simp: get_with_items_def get_reservation_def dest: find_by_SomeD)

lemma release_and_set_close:
  assumes "release_and_set e S (r, items_of (db w) (res_id r)) w = (Inr u, w')"
    and "status_ok (db w)" and "r \<in> set (reservations (db w))" and "res_status r = Pending"
  shows "db w' = close_reservation Released unreserve S r (db w)"
  using release_and_set_db [OF assms(1)] pending_items_live [OF assms(2-4)]
  by (simp add: close_reservation_def release_rows_close)

lemma cancel_cases:
  assumes "cancel e rid w = (Inr u, w')" and "status_ok (db w)"
  obtains (noop) r where "r \<in> set (reservations (db w))" "res_id r = rid"
      "res_status r \<in> {Cancelled, Expired}" "w' = w"
    | (released) r where "r \<in> set (reservations (db w))" "res_id r = rid" "res_status r = Pending"
      "db w' = close_reservation Released unreserve Cancelled r (db w)"
proof -
  obtain r its where g: "get_with_items (db w) rid = Some (r, its)"
    using assms(1) by (auto simp: cancel_def split: option.splits)
  note r = get_with_itemsD [OF g]
  show ?thesis
  proof (cases "res_status r \<in> {Cancelled, Expired}")
    case True
    then have "w' = w" using assms(1) g by (auto simp: cancel_def)
    with True show ?thesis by (intro noop [OF r(1,2)])
  next
    case False
    then have "res_status r = Pending" and "release_and_set e Cancelled (r, its) w = (Inr u, w')"
      using assms(1) g by (auto simp: cancel_def split: if_splits)
    then show ?thesis
      using released [OF r(1,2)] release_and_set_close [OF _ assms(2) r(1)] r(3) by simp
  qed
qed

lemma db_inv_status: "db_inv d \<Longrightarrow> status_ok d" and db_inv_keys: "db_inv d \<Longrightarrow> keys_ok d"
  and db_inv_core: "db_inv d \<Longrightarrow> core (\<lambda>_. 0) d" and db_inv_orders: "db_inv d \<Longrightarrow> orders_ok d"
  by (simp_all add: db_inv_def core_def)

interpretation cancel: transaction "cancel e rid" db_inv for e rid
proof
  fix w x w'
  assume inv: "db_inv (db w)" and run: "cancel e rid w = (Inr x, w')"
  from cancel_cases [OF run db_inv_status [OF inv]] inv show "db_inv (db w')"
    by cases (auto intro: close_reservation_inv)
qed (simp_all add: cancel_counters db_inv_rollback)

subsection \<open>expire_batch\<close>

text \<open>The sweep is the closing of each reservation found, one after the other.\<close>

definition expire_row :: "reservation \<times> reservation_item list \<Rightarrow> database \<Rightarrow> database" where
  "expire_row ri d = close_reservation Released unreserve Expired (fst ri) d"

text \<open>What a sweep works on: distinct pending reservations of the database with their items.\<close>

definition batch_ok :: "database \<Rightarrow> (reservation \<times> reservation_item list) list \<Rightarrow> bool" where
  "batch_ok d ris \<longleftrightarrow>
     (\<forall>ri \<in> set ris. fst ri \<in> set (reservations d) \<and> res_status (fst ri) = Pending \<and>
        snd ri = items_of d (res_id (fst ri))) \<and>
     distinct (map (res_id \<circ> fst) ris)"

lemma batch_okD:
  assumes "batch_ok d (ri # ris)"
  shows "fst ri \<in> set (reservations d)" and "res_status (fst ri) = Pending"
    and "ri = (fst ri, items_of d (res_id (fst ri)))"
  using assms by (auto simp: batch_ok_def prod_eq_iff)

lemma batch_next:
  assumes "keys_ok d" and "batch_ok d (ri # ris)"
  shows "batch_ok (expire_row ri d) ris"
proof -
  have "fst x \<in> set (reservations (expire_row ri d)) \<and> res_status (fst x) = Pending \<and>
      snd x = items_of (expire_row ri d) (res_id (fst x))" if "x \<in> set ris" for x
  proof -
    have "res_id (fst x) \<noteq> res_id (fst ri)" using assms(2) that by (auto simp: batch_ok_def image_iff)
    then show ?thesis
      using assms(2) that close_reservation_items_of [OF assms(1)]
      by (auto simp: batch_ok_def expire_row_def frame_simps set_upd_by intro!: image_eqI)
  qed
  then show ?thesis using assms(2) by (simp add: batch_ok_def)
qed

lemma expire_all_close:
  assumes "expire_all e ris w = (Inr u, w')" and "leaky_inv adj (db w)" and "batch_ok (db w) ris"
  shows "db w' = fold expire_row ris (db w) \<and> leaky_inv adj (db w')"
  using assms
proof (induction ris arbitrary: w)
  case Nil
  then show ?case by simp
next
  case (Cons ri ris)
  obtain w1 where step: "release_and_set e Expired ri w = (Inr (), w1)"
    and rest: "expire_all e ris w1 = (Inr u, w')"
    using Cons.prems(1) by (auto split: prod.splits sum.splits)
  note ri = batch_okD [OF Cons.prems(3)]
  have d1: "db w1 = expire_row ri (db w)"
    using release_and_set_close [OF _ leaky_invD(3) [OF Cons.prems(2)] ri(1,2)] step ri(3)
    unfolding expire_row_def by metis
  have "leaky_inv adj (db w1)"
    using close_reservation_leaky [OF Cons.prems(2) ri(1,2)] by (simp add: d1 expire_row_def)
  moreover have "batch_ok (db w1) ris"
    unfolding d1 by (rule batch_next [OF leaky_invD(5) [OF Cons.prems(2)] Cons.prems(3)])
  ultimately have "db w' = fold expire_row ris (db w1) \<and> leaky_inv adj (db w')" by (rule Cons.IH [OF rest])
  then show ?case by (auto simp: d1)
qed

lemma get_expired_pendingD:
  assumes "keys_ok d"
  shows "batch_ok d (get_expired_pending now d limit)"
proof -
  have "map (res_id \<circ> fst) (get_expired_pending now d limit) =
      take (nat limit) (map res_id (filter (past_ttl now) (reservations d)))"
    by (simp add: get_expired_pending_def take_map comp_def)
  then show ?thesis
    using assms
    by (auto simp: batch_ok_def get_expired_pending_def past_ttl_def keys_ok_def distinct_map_filter dest!: in_set_takeD)
qed

lemma expire_batch_close:
  assumes "expire_batch e now limit w = (Inr n, w')" and "db_inv (db w)"
  shows "db w' = fold expire_row
      (get_expired_pending now (db w) limit) (db w)"
    and "n = int (length (get_expired_pending now (db w) limit))" and "db_inv (db w')"
proof -
  obtain u where run: "expire_all e (get_expired_pending now (db w) limit) w = (Inr u, w')"
    and n: "n = int (length (get_expired_pending now (db w) limit))"
    using assms(1) by (auto simp: expire_batch_def Let_def split: prod.splits sum.splits)
  from expire_all_close [OF run assms(2) [unfolded db_inv_leaky] get_expired_pendingD [OF db_inv_keys [OF assms(2)]]]
  show "db w' = fold expire_row
      (get_expired_pending now (db w) limit) (db w)" and "db_inv (db w')" by (auto simp: db_inv_leaky)
  show "n = int (length (get_expired_pending now (db w) limit))" by (rule n)
qed

interpretation expire_batch: transaction "expire_batch e now limit" db_inv for e now limit
  by unfold_locales (auto simp: expire_batch_counters db_inv_rollback intro: expire_batch_close)

subsection \<open>confirm\<close>

text \<open>The guards a confirmation has passed when it returns, and what it has done.\<close>

lemma confirm_InrD:
  assumes "confirm e now rid w = (Inr ord, w')"
  obtains r where "r \<in> set (reservations (db w))" and "res_id r = rid" and "res_status r = Pending"
    and "tz_aware e" and "now \<le> expires_at r"
    and "add_order (new_order r now) (close_reservation ItemConfirmed consume Confirmed r (db w)) = (Inr ord, db w')"
proof -
  obtain r its where g: "get_with_items (db w) rid = Some (r, its)"
    using assms by (auto simp: confirm_def split: option.splits)
  note r = get_with_itemsD [OF g]
  have st: "res_status r = Pending" and tz: "tz_aware e" and ex: "now \<le> expires_at r"
    using assms g by (auto simp: confirm_def before_now_def split: if_splits bool.splits)
  from assms g st tz ex obtain w1 u where items: "confirm_items e its w = (Inr u, w1)"
    and add: "add_order (new_order r now) (upd_reservation (res_id r) (set_status Confirmed) (db w1)) = (Inr ord, db w')"
    by (auto simp: confirm_def before_now_def split: if_splits bool.splits prod.splits sum.splits)
  have "db w1 = close_rows ItemConfirmed consume (items_of (db w) (res_id r)) (db w)"
    using confirm_items_db [OF items] by (simp add: r(3) confirm_rows_close)
  with add show ?thesis using that [OF r(1,2) st tz ex] by (simp add: close_reservation_def)
qed

interpretation confirm: transaction "confirm e now rid" db_inv for e now rid
proof
  fix w x w'
  assume inv: "db_inv (db w)" and run: "confirm e now rid w = (Inr x, w')"
  from run show "db_inv (db w')"
    by (rule confirm_InrD) (rule close_reservation_confirmed_inv [OF inv])
qed (simp_all add: confirm_counters db_inv_rollback)

end
