(* ===== verification/Creation.thy ===== *)
theory Creation
  imports Lifecycle
begin

section \<open>create: phases, effect, invariant\<close>

text \<open>
  The phases of \<open>create\<close> one by one, then what a reservation that is created leaves in
  the database: one complete item per requested product on the row chosen for it, and a
  larger reserved quantity on these rows.
\<close>

subsection \<open>Phases 1 and 2\<close>

lemma preflight_Inr:
  "preflight d its m = Inr m' \<Longrightarrow>
     (\<forall>pq \<in> set its. \<exists>row. get_best_available d (fst pq) = Some row \<and> snd pq \<le> effective row \<and>
        m' (fst pq) = Some (inv_id row)) \<and>
     (\<forall>p. p \<notin> fst ` set its \<longrightarrow> m' p = m p)"
proof (induction its arbitrary: m)
  case Nil
  then show ?case by simp
next
  case (Cons pq its)
  obtain p q where pq: "pq = (p, q)" by (cases pq)
  with Cons.prems obtain row where row: "get_best_available d p = Some row" "q \<le> effective row"
    and rest: "preflight d its (m(p \<mapsto> inv_id row)) = Inr m'"
    by (auto split: option.splits if_splits)
  have ih: "\<forall>pq \<in> set its. \<exists>row. get_best_available d (fst pq) = Some row \<and> snd pq \<le> effective row \<and>
      m' (fst pq) = Some (inv_id row)" "\<forall>x. x \<notin> fst ` set its \<longrightarrow> m' x = (m(p \<mapsto> inv_id row)) x"
    using Cons.IH [OF rest] by blast+
  have "m' p = Some (inv_id row)"
  proof (cases "p \<in> fst ` set its")
    case True
    then show ?thesis using ih(1) row(1) by fastforce
  next
    case False
    then show ?thesis using ih(2) by simp
  qed
  then show ?case using ih row by (auto simp: pq)
qed

lemma lock_and_recheck_Inr:
  "lock_and_recheck d its m lm = Inr lm' \<Longrightarrow>
     (\<forall>pq \<in> set its. \<exists>i row. m (fst pq) = Some i \<and> get_inventory d i = Some row \<and>
        snd pq \<le> effective row \<and> lm' (fst pq) = Some i) \<and>
     (\<forall>p. p \<notin> fst ` set its \<longrightarrow> lm' p = lm p)"
proof (induction its arbitrary: lm)
  case Nil
  then show ?case by simp
next
  case (Cons pq its)
  obtain p q where pq: "pq = (p, q)" by (cases pq)
  with Cons.prems obtain i row where row: "m p = Some i" "get_inventory d i = Some row" "q \<le> effective row"
    and rest: "lock_and_recheck d its m (lm(p \<mapsto> inv_id row)) = Inr lm'"
    by (auto simp: get_by_id_for_update_def split: option.splits if_splits)
  have i: "inv_id row = i" using inv_store.look_key [OF row(2)] .
  have ih: "\<forall>pq \<in> set its. \<exists>i row. m (fst pq) = Some i \<and> get_inventory d i = Some row \<and>
      snd pq \<le> effective row \<and> lm' (fst pq) = Some i"
    "\<forall>x. x \<notin> fst ` set its \<longrightarrow> lm' x = (lm(p \<mapsto> inv_id row)) x"
    using Cons.IH [OF rest] by blast+
  have "lm' p = Some i"
  proof (cases "p \<in> fst ` set its")
    case True
    then show ?thesis using ih(1) row(1) by fastforce
  next
    case False
    then show ?thesis using ih(2) i by simp
  qed
  then show ?case using ih row by (auto simp: pq)
qed

text \<open>What phases 1 and 2 have established: every product has a row that covers it,
  and no row of the product has more to offer.\<close>

definition locked_ok :: "database \<Rightarrow> (int \<times> int) list \<Rightarrow> (int \<rightharpoonup> int) \<Rightarrow> bool" where
  "locked_ok d its lm \<longleftrightarrow>
     (\<forall>pq \<in> set its. \<exists>row \<in> set (inventories d).
        lm (fst pq) = Some (inv_id row) \<and> inv_product_id row = fst pq \<and> snd pq \<le> effective row \<and>
        (\<forall>x \<in> set (inventories d). inv_product_id x = fst pq \<longrightarrow> effective x \<le> effective row))"

lemma phases_locked:
  assumes "keys_ok d" and "preflight d its Map.empty = Inr m"
    and "lock_and_recheck d its m Map.empty = Inr lm"
  shows "locked_ok d its lm"
  unfolding locked_ok_def
proof
  fix pq assume pq: "pq \<in> set its"
  obtain row where row: "get_best_available d (fst pq) = Some row" "snd pq \<le> effective row"
    "m (fst pq) = Some (inv_id row)"
    using preflight_Inr [OF assms(2)] pq by blast
  obtain i where i: "m (fst pq) = Some i" "lm (fst pq) = Some i"
    using lock_and_recheck_Inr [OF assms(3)] pq by blast
  show "\<exists>row \<in> set (inventories d). lm (fst pq) = Some (inv_id row) \<and> inv_product_id row = fst pq \<and>
      snd pq \<le> effective row \<and>
      (\<forall>x \<in> set (inventories d). inv_product_id x = fst pq \<longrightarrow> effective x \<le> effective row)"
    using row i get_best_availableD [OF row(1)] by (intro bexI [of _ row]) auto
qed

subsection \<open>Phase 3\<close>

definition booked :: "(int \<times> int) list \<Rightarrow> (int \<rightharpoonup> int) \<Rightarrow> int \<Rightarrow> int" where
  "booked its lm i = sum_list (map (\<lambda>pq. if lm (fst pq) = Some i then snd pq else 0) its)"

lemma booked_simps [simp]:
  "booked [] lm i = 0"
  "booked (pq # its) lm i = (if lm (fst pq) = Some i then snd pq else 0) + booked its lm i"
  by (simp_all add: booked_def)

definition reserve_rows :: "(inventory \<Rightarrow> int) \<Rightarrow> database \<Rightarrow> database" where
  "reserve_rows g d = d\<lparr>inventories := map (\<lambda>r. reserve (g r) r) (inventories d)\<rparr>"

lemma reserve_reserve [simp]: "reserve a (reserve b r) = reserve (a + b) r"
  by (simp add: reserve_def)

lemma reserve_rows_zero: "reserve_rows (\<lambda>_. 0) d = d"
  by (simp add: reserve_rows_def)

lemma reserve_rows_cong:
  "(\<And>r. r \<in> set (inventories d) \<Longrightarrow> g r = h r) \<Longrightarrow> reserve_rows g d = reserve_rows h d"
  by (simp add: reserve_rows_def)

lemma reserve_rows_upd:
  assumes "\<And>x y. inv_id x = inv_id y \<Longrightarrow> inv_provider_id x = inv_provider_id y \<Longrightarrow> g x = g y"
  shows "reserve_rows g (upd_inventory i (reserve q) d) =
     reserve_rows (\<lambda>r. (if inv_id r = i then q else 0) + g r) d"
proof -
  have "g (reserve q r) = g r" for r by (rule assms) auto
  then show ?thesis
    by (auto simp: reserve_rows_def upd_inventory_def upd_by_def add.commute)
qed

lemma reserve_all_Inr:
  "reserve_all its lm d = Inr d1 \<Longrightarrow> d1 = reserve_rows (\<lambda>r. booked its lm (inv_id r)) d"
proof (induction its arbitrary: d)
  case Nil
  then show ?case by (simp add: reserve_rows_zero)
next
  case (Cons pq its)
  then obtain i where i: "lm (fst pq) = Some i"
    and rest: "reserve_all its lm (upd_inventory i (reserve (snd pq)) d) = Inr d1"
    by (cases pq) (auto split: option.splits)
  have "d1 = reserve_rows (\<lambda>r. booked its lm (inv_id r)) (upd_inventory i (reserve (snd pq)) d)"
    by (rule Cons.IH [OF rest])
  also have "\<dots> = reserve_rows (\<lambda>r. (if inv_id r = i then snd pq else 0) + booked its lm (inv_id r)) d"
    by (rule reserve_rows_upd) simp
  finally have eq: "d1 = reserve_rows (\<lambda>r. (if inv_id r = i then snd pq else 0) + booked its lm (inv_id r)) d" .
  have "(\<lambda>r. (if inv_id r = i then snd pq else 0) + booked its lm (inv_id r)) =
      (\<lambda>r. booked (pq # its) lm (inv_id r))"
    by (auto simp: fun_eq_iff i)
  then show ?case unfolding eq by (rule arg_cong [where f = "\<lambda>g. reserve_rows g d"])
qed

lemma reserve_rows_frame [frame_simps]:
  "providers (reserve_rows g d) = providers d" "products (reserve_rows g d) = products d"
  "reservations (reserve_rows g d) = reservations d"
  "reservation_items (reserve_rows g d) = reservation_items d" "orders (reserve_rows g d) = orders d"
  "next_reservation_id (reserve_rows g d) = next_reservation_id d"
  "next_item_id (reserve_rows g d) = next_item_id d" "next_order_id (reserve_rows g d) = next_order_id d"
  "inventories (reserve_rows g d) = map (\<lambda>r. reserve (g r) r) (inventories d)"
  by (simp_all add: reserve_rows_def)

subsection \<open>Phase 5\<close>

text \<open>The item that stands for one requested product after its turn.\<close>

definition created_item :: "database \<Rightarrow> int \<Rightarrow> (int \<rightharpoonup> int) \<Rightarrow> int \<times> int \<Rightarrow> reservation_item \<Rightarrow> bool" where
  "created_item d rid lm pq t \<longleftrightarrow>
     item_reservation_id t = rid \<and> item_product_id t = fst pq \<and> qty_requested t = snd pq \<and>
     lm (fst pq) = Some (item_inventory_id t) \<and>
     (\<exists>row \<in> set (inventories d). inv_id row = item_inventory_id t \<and>
        inv_provider_id row = item_provider_id t) \<and>
     provider_status t \<in> {Held, ProviderFailed} \<and>
     (provider_hold_ref t \<noteq> None \<longrightarrow> booking (get_provider d (item_provider_id t)) = 0)"

text \<open>The items of \<open>ts\<close> appended, with the ids the counter gives.\<close>

definition append_items :: "reservation_item list \<Rightarrow> database \<Rightarrow> database" where
  "append_items ts d =
     d\<lparr>reservation_items := reservation_items d @ ts, next_item_id := next_item_id d + int (length ts)\<rparr>"

definition numbered :: "int \<Rightarrow> reservation_item list \<Rightarrow> bool" where
  "numbered k ts \<longleftrightarrow> distinct (map item_id ts) \<and> (\<forall>t \<in> set ts. k \<le> item_id t \<and> item_id t < k + int (length ts))"

lemma numbered_Cons: "item_id t = k \<Longrightarrow> numbered (k + 1) ts \<Longrightarrow> numbered k (t # ts)"
  by (auto simp: numbered_def)

lemma append_items_settle:
  assumes "\<And>x y. inv_id x = inv_id y \<Longrightarrow> inv_provider_id x = inv_provider_id y \<Longrightarrow> g x = g y"
  shows "append_items ts (reserve_rows g (settle_step rid row q b t d)) =
    append_items (t # ts) (reserve_rows (\<lambda>r. (if inv_id r = inv_id row then b * q else 0) + g r) d)"
proof -
  have "append_items ts (reserve_rows g (upd_inventory i (reserve n) (append_item t d))) =
      append_items ts (append_item t (reserve_rows g (upd_inventory i (reserve n) d)))" for i n
    by (simp add: append_items_def append_item_def reserve_rows_def upd_inventory_def)
  moreover have "append_items ts (append_item t x) = append_items (t # ts) x" for x
    by (simp add: append_items_def append_item_def)
  ultimately show ?thesis
    using reserve_rows_upd [of g, OF assms] by (simp add: settle_step_def)
qed

lemma created_item_transfer:
  assumes "created_item (settle_step rid row q b t d) rid' lm pq x"
  shows "created_item d rid' lm pq x"
  using assms
  by (auto simp: created_item_def settle_step_def frame_simps set_upd_by get_provider_def split: if_splits)

text \<open>
  The loop as one change of the database: the items appended, and on the rows of internal
  providers every booked quantity booked a second time.
\<close>

text \<open>The rows after one settled item and the remaining ones are the rows with the whole request on them.\<close>

lemma settle_step_rows:
  assumes dist: "distinct (map inv_id (inventories d))"
    and row: "row \<in> set (inventories d)" "lm p = Some (inv_id row)"
    and d1: "d1 = settle_step rid row q (booking (get_provider d (inv_provider_id row))) t d"
  shows "append_items ts (reserve_rows (\<lambda>r. row_booking d1 r * booked its lm (inv_id r)) d1) =
    append_items (t # ts) (reserve_rows (\<lambda>r. row_booking d r * booked ((p, q) # its) lm (inv_id r)) d)"
proof -
  let ?b = "row_booking d row"
  have d1': "d1 = settle_step rid row q ?b t d" by (simp add: d1 row_booking_def)
  have rb: "row_booking d1 r = row_booking d r" for r
    by (simp add: row_booking_def d1 settle_step_def frame_simps get_provider_def)
  have each: "(if inv_id r = inv_id row then ?b * q else 0) + row_booking d r * booked its lm (inv_id r) =
      row_booking d r * booked ((p, q) # its) lm (inv_id r)" if "r \<in> set (inventories d)" for r
  proof (cases "inv_id r = inv_id row")
    case True
    then have "r = row" using dist that row(1) by (simp add: distinct_map inj_on_def)
    then show ?thesis using row(2) by (simp add: distrib_left)
  qed (use row(2) in simp)
  have "append_items ts (reserve_rows (\<lambda>r. row_booking d1 r * booked its lm (inv_id r)) d1) =
      append_items (t # ts) (reserve_rows
        (\<lambda>r. (if inv_id r = inv_id row then ?b * q else 0) + row_booking d r * booked its lm (inv_id r)) d)"
    unfolding rb unfolding d1' by (rule append_items_settle) (simp add: row_booking_def)
  also have "\<dots> = append_items (t # ts)
      (reserve_rows (\<lambda>r. row_booking d r * booked ((p, q) # its) lm (inv_id r)) d)"
    by (rule arg_cong [OF reserve_rows_cong]) (rule each)
  finally show ?thesis .
qed

lemma hold_items_Inr:
  assumes "hold_items e rid lm its w = (Inr u, w')"
    and "\<forall>t \<in> set (reservation_items (db w)). item_id t < next_item_id (db w)"
    and "distinct (map inv_id (inventories (db w)))"
  shows "\<exists>ts. list_all2 (created_item (db w) rid lm) its ts \<and> numbered (next_item_id (db w)) ts \<and>
    db w' = append_items ts (reserve_rows (\<lambda>r. row_booking (db w) r * booked its lm (inv_id r)) (db w))"
  using assms
proof (induction its arbitrary: w)
  case Nil
  then show ?case
    by (intro exI [of _ "[]"]) (simp add: append_items_def reserve_rows_zero numbered_def)
next
  case (Cons pq its)
  obtain p q where pq: "pq = (p, q)" by (cases pq)
  obtain w1 where step: "hold_item e rid lm (p, q) w = (Inr (), w1)"
    and rest: "hold_items e rid lm its w1 = (Inr u, w')"
    using Cons.prems(1) by (auto simp: pq split: prod.splits sum.splits)
  let ?d = "db w" and ?k = "next_item_id (db w)"
  obtain i row t b where i: "lm p = Some i" and row: "get_inventory ?d i = Some row"
    and b: "b = booking (get_provider ?d (inv_provider_id row))"
    and t: "settled_item rid row q ?k b t" "item_product_id t = p"
    and d1: "db w1 = settle_step rid row q b t ?d"
    by (rule hold_item_InrD [OF step Cons.prems(2)])
  have row': "row \<in> set (inventories ?d)" "inv_id row = i"
    using find_by_SomeD [OF row [unfolded get_inventory_def]] by auto
  have it: "item_id t = ?k" using t(1) by (simp add: settled_item_def)
  have new: "created_item ?d rid lm (p, q) t"
    using t i row' b by (auto simp: created_item_def settled_item_def)
  have fresh1: "\<forall>x \<in> set (reservation_items (db w1)). item_id x < next_item_id (db w1)"
    using Cons.prems(2) it by (auto simp: d1 settle_step_def frame_simps)
  have dist1: "distinct (map inv_id (inventories (db w1)))"
    using Cons.prems(3) by (simp add: d1 settle_step_def frame_simps map_upd_by)
  obtain ts where ts: "list_all2 (created_item (db w1) rid lm) its ts"
    "numbered (next_item_id (db w1)) ts"
    "db w' = append_items ts (reserve_rows (\<lambda>r. row_booking (db w1) r * booked its lm (inv_id r)) (db w1))"
    using Cons.IH [OF rest fresh1 dist1] by blast
  have "list_all2 (created_item ?d rid lm) its ts"
    by (rule list_all2_mono [OF ts(1)]) (auto simp: d1 dest: created_item_transfer)
  then have "list_all2 (created_item ?d rid lm) (pq # its) (t # ts)"
    using new by (simp add: pq)
  moreover have "numbered ?k (t # ts)"
    using ts(2) numbered_Cons [OF it] by (simp add: d1 settle_step_def frame_simps)
  moreover have "db w' = append_items (t # ts)
      (reserve_rows (\<lambda>r. row_booking ?d r * booked (pq # its) lm (inv_id r)) ?d)"
    using settle_step_rows [of ?d row lm p "db w1" rid q t ts its] Cons.prems(3) row' i d1 ts(3) by (simp add: pq b)
  ultimately show ?case by blast
qed

subsection \<open>The effect of create\<close>

definition insert_reservation :: "reservation \<Rightarrow> database \<Rightarrow> database" where
  "insert_reservation r d =
     d\<lparr>reservations := reservations d @ [r], next_reservation_id := next_reservation_id d + 1\<rparr>"

definition create_effect ::
    "reservation \<Rightarrow> reservation_item list \<Rightarrow> (int \<times> int) list \<Rightarrow> (int \<rightharpoonup> int) \<Rightarrow> database \<Rightarrow> database" where
  "create_effect r ts its lm d =
     append_items ts (reserve_rows (\<lambda>x. (1 + row_booking d x) * booked its lm (inv_id x))
       (insert_reservation r d))"

lemma create_effect_frame [frame_simps]:
  "providers (create_effect r ts its lm d) = providers d"
  "products (create_effect r ts its lm d) = products d"
  "reservations (create_effect r ts its lm d) = reservations d @ [r]"
  "reservation_items (create_effect r ts its lm d) = reservation_items d @ ts"
  "orders (create_effect r ts its lm d) = orders d"
  "next_reservation_id (create_effect r ts its lm d) = next_reservation_id d + 1"
  "next_item_id (create_effect r ts its lm d) = next_item_id d + int (length ts)"
  "next_order_id (create_effect r ts its lm d) = next_order_id d"
  "inventories (create_effect r ts its lm d) =
     map (\<lambda>x. reserve ((1 + row_booking d x) * booked its lm (inv_id x)) x) (inventories d)"
  by (simp_all add: create_effect_def append_items_def reserve_rows_def insert_reservation_def)

lemma reserve_rows_twice:
  assumes "\<And>x y. inv_id x = inv_id y \<Longrightarrow> inv_provider_id x = inv_provider_id y \<Longrightarrow> g x = g y"
  shows "reserve_rows g (reserve_rows h d) = reserve_rows (\<lambda>r. h r + g r) d"
proof -
  have "g (reserve n r) = g r" for n r by (rule assms) auto
  then show ?thesis by (simp add: reserve_rows_def comp_def add.commute)
qed

lemma created_item_cong:
  assumes "providers d' = providers d"
    and "\<And>i p. (\<exists>r \<in> set (inventories d'). inv_id r = i \<and> inv_provider_id r = p) =
      (\<exists>r \<in> set (inventories d). inv_id r = i \<and> inv_provider_id r = p)"
  shows "created_item d' = created_item d"
  using assms by (simp add: fun_eq_iff created_item_def get_provider_def)

lemma create_phases:
  assumes run: "create e now user its w = (Inr r, w')" and keys: "keys_ok (db w)"
  obtains lm w1 u where "locked_ok (db w) its lm"
    and "r = new_reservation user (now + ttl e) now (next_reservation_id (db w))"
    and "hold_items e (res_id r) lm its w1 = (Inr u, w')"
    and "db w1 = insert_reservation r (reserve_rows (\<lambda>r. booked its lm (inv_id r)) (db w))"
proof -
  obtain m lm d1 u where m: "preflight (db w) its Map.empty = Inr m"
    and lm: "lock_and_recheck (db w) its m Map.empty = Inr lm" and d1: "reserve_all its lm (db w) = Inr d1"
    and loop: "hold_items e (next_reservation_id d1) lm its
        (w\<lparr>db := insert_reservation (new_reservation user (now + ttl e) now (next_reservation_id d1)) d1\<rparr>) = (Inr u, w')"
    and r: "r = new_reservation user (now + ttl e) now (next_reservation_id d1)"
    using run by (auto simp: create_def add_reservation_def Let_def insert_reservation_def
        split: sum.splits prod.splits)
  have d1_eq: "d1 = reserve_rows (\<lambda>r. booked its lm (inv_id r)) (db w)" by (rule reserve_all_Inr [OF d1])
  have rid: "res_id r = next_reservation_id d1" by (simp add: r new_reservation_def)
  show ?thesis
  proof (rule that [OF phases_locked [OF keys m lm]])
    show "r = new_reservation user (now + ttl e) now (next_reservation_id (db w))"
      by (simp add: r d1_eq frame_simps)
    show "hold_items e (res_id r) lm its (w\<lparr>db := insert_reservation r d1\<rparr>) = (Inr u, w')"
      unfolding rid using loop by (simp only: r)
  qed (simp add: d1_eq)
qed

lemma create_InrD:
  assumes run: "create e now user its w = (Inr r, w')" and keys: "keys_ok (db w)"
  obtains lm ts where "locked_ok (db w) its lm"
    and "r = new_reservation user (now + ttl e) now (next_reservation_id (db w))"
    and "list_all2 (created_item (db w) (res_id r) lm) its ts"
    and "numbered (next_item_id (db w)) ts"
    and "db w' = create_effect r ts its lm (db w)"
proof -
  let ?d = "db w"
  obtain lm w1 u where lm: "locked_ok ?d its lm"
    and r: "r = new_reservation user (now + ttl e) now (next_reservation_id ?d)"
    and loop: "hold_items e (res_id r) lm its w1 = (Inr u, w')"
    and w1: "db w1 = insert_reservation r (reserve_rows (\<lambda>r. booked its lm (inv_id r)) ?d)"
    by (rule create_phases [OF run keys])
  have d2: "providers (db w1) = providers ?d" "reservation_items (db w1) = reservation_items ?d"
    "next_item_id (db w1) = next_item_id ?d"
    "inventories (db w1) = map (\<lambda>r. reserve (booked its lm (inv_id r)) r) (inventories ?d)"
    by (simp_all add: w1 insert_reservation_def frame_simps)
  have fresh: "\<forall>t \<in> set (reservation_items (db w1)). item_id t < next_item_id (db w1)"
    and dist: "distinct (map inv_id (inventories (db w1)))"
    using keys by (simp_all add: d2 keys_ok_def comp_def)
  obtain ts where ts: "list_all2 (created_item (db w1) (res_id r) lm) its ts"
    "numbered (next_item_id (db w1)) ts"
    "db w' = append_items ts (reserve_rows (\<lambda>r. row_booking (db w1) r * booked its lm (inv_id r)) (db w1))"
    using hold_items_Inr [OF loop fresh dist] by auto
  have ci: "created_item (db w1) = created_item ?d"
    by (rule created_item_cong) (unfold d2, auto)
  have rb: "row_booking (db w1) = row_booking ?d"
    by (simp add: fun_eq_iff row_booking_def get_provider_def d2)
  have "db w1 = reserve_rows (\<lambda>r. booked its lm (inv_id r)) (insert_reservation r ?d)"
    by (simp add: w1 insert_reservation_def reserve_rows_def)
  then have rr: "reserve_rows (\<lambda>r. row_booking (db w1) r * booked its lm (inv_id r)) (db w1) =
      reserve_rows (\<lambda>x. (1 + row_booking ?d x) * booked its lm (inv_id x)) (insert_reservation r ?d)"
    unfolding rb by (simp add: reserve_rows_twice row_booking_def distrib_right)
  show ?thesis
    by (rule that [OF lm r]) (use ts in \<open>simp_all only: ci d2 rr create_effect_def\<close>)
qed

subsection \<open>create keeps the invariant\<close>

lemma created_sums:
  assumes "list_all2 (created_item d rid lm) its ts"
  shows "sum_list (map (live_qty i) ts) = booked its lm i"
    and "sum_list (map (all_qty i) ts) = booked its lm i"
    and "sum_list (map (sold_qty i) ts) = 0"
  using assms
  by (induction rule: list_all2_induct)
     (auto simp: created_item_def live_qty_def all_qty_def sold_qty_def item_done_def)

lemma created_members:
  assumes "list_all2 (created_item d rid lm) its ts" and "t \<in> set ts"
  shows "\<exists>pq \<in> set its. created_item d rid lm pq t"
  using assms by (rule list_all2_right)

lemma created_item_ok:
  assumes keys: "keys_ok d" and lm: "locked_ok d its lm" and pos: "\<forall>pq \<in> set its. 0 < snd pq"
    and t: "list_all2 (created_item d (res_id r) lm) its ts" "t \<in> set ts"
  shows "item_ok (create_effect r ts its lm d) t"
proof -
  obtain pq where pq: "pq \<in> set its" and c: "created_item d (res_id r) lm pq t"
    using created_members [OF t] by blast
  obtain row where row: "row \<in> set (inventories d)" "lm (fst pq) = Some (inv_id row)"
    "inv_product_id row = fst pq"
    using lm pq by (auto simp: locked_ok_def)
  obtain row' where row': "row' \<in> set (inventories d)" "inv_id row' = item_inventory_id t"
    "inv_provider_id row' = item_provider_id t"
    using c by (auto simp: created_item_def)
  have "row' = row"
    using keys row row' c by (auto simp: created_item_def keys_ok_def distinct_map inj_on_def)
  then have "item_key t = row_key row" using row row' c by (simp add: item_key_def row_key_def created_item_def)
  then have "item_key t \<in> row_key ` set (inventories (create_effect r ts its lm d))"
    using row(1) by (auto simp: frame_simps row_key_def image_image)
  then show ?thesis
    using c pos pq by (simp add: item_ok_def created_item_def frame_simps get_provider_def)
qed

lemma create_effect_core:
  assumes core: "core (\<lambda>_. 0) d" and lm: "locked_ok d its lm" and pos: "\<forall>pq \<in> set its. 0 < snd pq"
    and r: "res_id r = next_reservation_id d"
    and ts: "list_all2 (created_item d (res_id r) lm) its ts" "numbered (next_item_id d) ts"
  shows "core (\<lambda>_. 0) (create_effect r ts its lm d)"
proof -
  let ?d = "create_effect r ts its lm d"
  have keys: "keys_ok d" and refs: "refs_ok d" and led: "ledger (\<lambda>_. 0) d"
    using core by (auto simp: core_def)
  have "keys_ok ?d"
    using keys ts(2) r by (fastforce simp: keys_ok_def frame_simps comp_def numbered_def)
  moreover have "refs_ok ?d"
    unfolding refs_ok_def
  proof
    fix t assume "t \<in> set (reservation_items ?d)"
    then consider "t \<in> set (reservation_items d)" | "t \<in> set ts" by (auto simp: frame_simps)
    then show "item_ok ?d t"
    proof cases
      case 1
      then have "item_ok d t" using refs by (simp add: refs_ok_def)
      then show ?thesis
        by (rule item_ok_transfer) (auto simp: frame_simps row_key_def image_image)
    next
      case 2
      then show ?thesis by (rule created_item_ok [OF keys lm pos ts(1)])
    qed
  qed
  moreover have "ledger (\<lambda>_. 0) ?d"
  proof -
    have "live_sum ?d i = live_sum d i + booked its lm i" and "all_sum ?d i = all_sum d i + booked its lm i" for i
      using created_sums [OF ts(1)] by (simp_all add: live_sum_def all_sum_def frame_simps)
    moreover have "row_booking ?d x = row_booking d x" for x
      by (simp add: row_booking_def get_provider_def frame_simps)
    moreover have "row_booking d (reserve n x) = row_booking d x" for n x
      by (simp add: row_booking_def)
    ultimately show ?thesis
      using led by (simp add: ledger_def frame_simps distrib_left distrib_right)
  qed
  ultimately show ?thesis by (simp add: core_def)
qed

lemma create_effect_inv:
  assumes inv: "db_inv d" and lm: "locked_ok d its lm" and pos: "\<forall>pq \<in> set its. 0 < snd pq"
    and r: "res_id r = next_reservation_id d" "res_status r = Pending"
    and ts: "list_all2 (created_item d (res_id r) lm) its ts" "numbered (next_item_id d) ts"
  shows "db_inv (create_effect r ts its lm d)"
proof -
  let ?d = "create_effect r ts its lm d"
  have keys: "keys_ok d" and refs: "refs_ok d" and st: "status_ok d" and ord: "orders_ok d"
    using inv by (auto simp: db_inv_def core_def)
  have old: "item_reservation_id t \<noteq> res_id r" if "t \<in> set (reservation_items d)" for t
    using refs keys that r by (force simp: refs_ok_def item_ok_def keys_ok_def)
  have old_r: "res_id x \<noteq> res_id r" if "x \<in> set (reservations d)" for x
    using keys that r by (force simp: keys_ok_def)
  have new: "item_reservation_id t = res_id r \<and> (provider_status t = Held \<or> provider_status t = ProviderFailed)"
    if "t \<in> set ts" for t
    using created_members [OF ts(1) that] by (auto simp: created_item_def)
  have "status_ok ?d"
    unfolding status_ok_def
  proof (intro ballI impI)
    fix t x
    assume "t \<in> set (reservation_items ?d)" and "x \<in> set (reservations ?d)"
      and id: "res_id x = item_reservation_id t"
    then have t: "t \<in> set (reservation_items d) \<or> t \<in> set ts" and x: "x \<in> set (reservations d) \<or> x = r"
      by (auto simp: frame_simps)
    show "item_fits (res_status x) (provider_status t)"
    proof (cases "x = r")
      case True
      then show ?thesis using t old [of t] new [of t] id r(2) by auto
    next
      case False
      then show ?thesis using t x old_r [of x] new [of t] id st by (auto simp: status_ok_def)
    qed
  qed
  moreover have "orders_ok ?d"
  proof -
    have "{x. (x = r \<or> x \<in> set (reservations d)) \<and> res_status x = Confirmed} =
        {x \<in> set (reservations d). res_status x = Confirmed}"
      using r(2) by auto
    then show ?thesis using ord by (simp add: orders_ok_def frame_simps)
  qed
  ultimately show ?thesis
    using create_effect_core [OF db_inv_core [OF inv] lm pos r(1) ts] by (simp add: db_inv_def)
qed

lemma create_inv:
  assumes "create e now user its w = (Inr r, w')" and "db_inv (db w)" and "\<forall>pq \<in> set its. 0 < snd pq"
  shows "db_inv (db w')"
  using assms(1) db_inv_keys [OF assms(2)]
proof (rule create_InrD)
  fix lm ts
  assume "locked_ok (db w) its lm" "r = new_reservation user (now + ttl e) now (next_reservation_id (db w))"
    "list_all2 (created_item (db w) (res_id r) lm) its ts" "numbered (next_item_id (db w)) ts"
    and w': "db w' = create_effect r ts its lm (db w)"
  then show "db_inv (db w')"
    unfolding w' using assms(2,3) by (intro create_effect_inv) (auto simp: new_reservation_def)
qed

subsection \<open>create never lowers a counter\<close>

lemma settle_hold_db:
  "settle_hold p k (x, w1) = (res, w') \<Longrightarrow> counters_le (db w1) (db w')"
  by (auto simp: settle_hold_def counters_le_def frame_simps split: sum.splits exn.splits)

lemma hold_item_counters: "hold_item e rid lm pq w = (res, w') \<Longrightarrow> counters_le (db w) (db w')"
proof -
  assume run: "hold_item e rid lm pq w = (res, w')"
  have "counters_le d (db w')"
    if "settle_hold p k (hold_stock e a s q rid w1) = (res, w')" and "counters_le d (db w1)" for d p k a s q w1
  proof -
    obtain x w2 where h: "hold_stock e a s q rid w1 = (x, w2)" by (cases "hold_stock e a s q rid w1")
    have "counters_le (db w1) (db w2)"
      using adapter.hold_frame(6-8) [OF h] by (simp add: counters_le_def)
    then show ?thesis using that settle_hold_db [of p k x w2] h counters_le_trans by metis
  qed
  then show ?thesis
    using run
    by (fastforce simp: hold_item_def add_item_def Let_def counters_le_def
        split: option.splits sum.splits)
qed

lemma hold_items_counters: "hold_items e rid lm its w = (res, w') \<Longrightarrow> counters_le (db w) (db w')"
proof (induction its arbitrary: w)
  case Nil
  then show ?case by simp
next
  case (Cons pq its)
  then show ?case
    by (fastforce split: prod.splits sum.splits dest: hold_item_counters intro: counters_le_trans)
qed

lemma create_counters: "counters_le (db w) (db (snd (create e now user its w)))"
proof -
  have "counters_le (db w) (db w')"
    if "hold_items e rid lm its (w\<lparr>db := insert_reservation r d1\<rparr>) = (res, w')"
      and "reserve_all its lm (db w) = Inr d1" for rid lm r d1 res w'
    using hold_items_counters [OF that(1)] reserve_all_Inr [OF that(2)]
    by (simp add: counters_le_def insert_reservation_def frame_simps)
  then show ?thesis
    by (fastforce simp: create_def add_reservation_def Let_def insert_reservation_def
        split: sum.splits prod.splits)
qed

end
