(* ===== verification/Stock.thy ===== *)
theory Stock
  imports Creation
begin

section \<open>Stock: conservation and no overselling\<close>

text \<open>
  What the quantities of an inventory row mean against the stock it started with: what is
  available and what has been sold add up to it, and no more is reserved than is available.
  Creating, confirming, cancelling and expiring reservations keep both; a synchronisation
  with a provider replaces the stock.
\<close>

definition conserved :: "(int \<Rightarrow> int) \<Rightarrow> database \<Rightarrow> bool" where
  "conserved stock d \<longleftrightarrow>
     (\<forall>r \<in> set (inventories d). qty_available r + sold_sum d (inv_id r) = stock (inv_id r))"

definition covered :: "database \<Rightarrow> bool" where
  "covered d \<longleftrightarrow> (\<forall>r \<in> set (inventories d). qty_reserved r \<le> qty_available r)"

definition stock_inv :: "(int \<Rightarrow> int) \<Rightarrow> database \<Rightarrow> bool" where
  "stock_inv stock d \<longleftrightarrow> db_inv d \<and> conserved stock d \<and> covered d"

lemma stock_inv_db_inv: "stock_inv stock d \<Longrightarrow> db_inv d"
  by (simp add: stock_inv_def)

lemma stock_inv_rollback: "stock_inv stock d \<Longrightarrow> counters_le d d' \<Longrightarrow> stock_inv stock (rollback d d')"
  by (simp add: stock_inv_def db_inv_rollback conserved_def covered_def sold_sum_def frame_simps)

text \<open>What is sold and what is held never exceeds the stock.\<close>

lemma no_oversell:
  assumes "stock_inv stock d" and "r \<in> set (inventories d)"
  shows "sold_sum d (inv_id r) + live_sum d (inv_id r) \<le> stock (inv_id r)"
proof -
  have "live_sum d (inv_id r) \<le> qty_reserved r"
    using core_reserved_ge [OF db_inv_core [OF stock_inv_db_inv [OF assms(1)]] assms(2)] by simp
  also have "\<dots> \<le> qty_available r" using assms by (simp add: stock_inv_def covered_def)
  also have "qty_available r = stock (inv_id r) - sold_sum d (inv_id r)"
    using assms by (force simp: stock_inv_def conserved_def)
  finally show ?thesis by simp
qed

subsection \<open>Closing a row\<close>

text \<open>The two ways to close a row: stock goes back, or leaves for good.\<close>

definition closes :: "provider_item_status \<Rightarrow> (int \<Rightarrow> inventory \<Rightarrow> inventory) \<Rightarrow> bool" where
  "closes s f \<longleftrightarrow> (s = Released \<and> f = unreserve) \<or> (s = ItemConfirmed \<and> f = consume)"

lemma closes_gives_back: "closes s f \<Longrightarrow> gives_back f"
  by (auto simp: closes_def gives_back_unreserve gives_back_consume)

lemma closes_status: "closes s f \<Longrightarrow> s = Released \<or> s = ItemConfirmed"
  by (auto simp: closes_def)

lemma sold_sum_close_row:
  assumes "distinct (map item_id (reservation_items d))"
    and "find_by item_id (item_id t) (reservation_items d) = Some t" and "\<not> item_done t"
    and "s = Released \<or> s = ItemConfirmed"
  shows "sold_sum (close_row s f t d) i =
    sold_sum d i + (if s = ItemConfirmed \<and> item_inventory_id t = i then qty_requested t else 0)"
  using sum_list_upd_by [OF assms(1,2), of "sold_qty i" "set_provider_status s"] assms(3,4)
  by (auto simp: sold_sum_def frame_simps sold_qty_def item_done_def)

lemma close_row_stock:
  assumes core: "core (\<lambda>_. 0) d" and con: "conserved stock d" and cov: "covered d"
    and cur: "find_by item_id (item_id t) (reservation_items d) = Some t" and live: "\<not> item_done t"
    and c: "closes s f"
  shows "conserved stock (close_row s f t d) \<and> covered (close_row s f t d)"
proof -
  let ?i = "item_inventory_id t" and ?q = "qty_requested t"
  have t: "t \<in> set (reservation_items d)" using cur by (rule find_by_SomeD)
  have dist: "distinct (map item_id (reservation_items d))"
    using core by (simp add: core_def keys_ok_def)
  have enough: "?q \<le> qty_reserved r" if "r \<in> set (inventories d)" "inv_id r = ?i" for r
    using live_qty_le_live_sum [OF core t, of ?i] core_reserved_ge [OF core that(1)] that(2) live
    by (simp add: live_qty_def)
  note sold = sold_sum_close_row [OF dist cur live closes_status [OF c]]
  have "qty_available r' + sold_sum (close_row s f t d) (inv_id r') = stock (inv_id r') \<and>
      qty_reserved r' \<le> qty_available r'" if r': "r' \<in> set (inventories (close_row s f t d))" for r'
  proof -
    obtain r where r: "r \<in> set (inventories d)" "r' = (if inv_id r = ?i then f ?q r else r)"
      using r' by (auto simp: frame_simps set_upd_by)
    have old: "qty_available r + sold_sum d (inv_id r) = stock (inv_id r)" "qty_reserved r \<le> qty_available r"
      using r(1) con cov by (simp_all add: conserved_def covered_def)
    show ?thesis
    proof (cases "inv_id r = ?i")
      case True
      then have q: "?q \<le> qty_reserved r" by (rule enough [OF r(1)])
      have "s = Released \<and> f = unreserve \<or> s = ItemConfirmed \<and> f = consume"
        using c by (simp add: closes_def)
      then show ?thesis
      proof
        assume sf: "s = Released \<and> f = unreserve"
        then have "r' = unreserve ?q r" and "sold_sum (close_row s f t d) i = sold_sum d i" for i
          using True r(2) sold by simp_all
        with old q core_qty_pos [OF core t] show ?thesis by simp
      next
        assume sf: "s = ItemConfirmed \<and> f = consume"
        then have "r' = consume ?q r" using True r(2) by simp
        moreover have "sold_sum (close_row s f t d) (inv_id r) = sold_sum d (inv_id r) + ?q"
          using sf True sold by simp
        ultimately show ?thesis using old q by simp
      qed
    next
      case False
      then show ?thesis using old r(2) sold by simp
    qed
  qed
  then show ?thesis by (simp add: conserved_def covered_def)
qed

lemma close_reservation_stock:
  assumes inv: "stock_inv stock d" and r: "r \<in> set (reservations d)" "res_status r = Pending"
    and c: "closes s f"
  shows "conserved stock (close_reservation s f S r d) \<and> covered (close_reservation s f S r d)"
proof -
  let ?P = "\<lambda>d. core (\<lambda>_. 0) d \<and> conserved stock d \<and> covered d"
  have db: "db_inv d" using inv by (rule stock_inv_db_inv)
  have "?P (close_rows s f (items_of d (res_id r)) d)"
  proof (rule close_reservation_rows [where P = ?P])
    fix t d
    assume P: "?P d" and t: "find_by item_id (item_id t) (reservation_items d) = Some t" "\<not> item_done t"
    have "core (\<lambda>_. 0) (close_row s f t d)"
      using close_row_core [OF _ t closes_status [OF c], of "\<lambda>_. 0" f] P closes_gives_back [OF c]
      by (simp add: gives_back_def row_key_def)
    with close_row_stock [OF _ _ _ t c, of stock] P show "?P (close_row s f t d)" by blast
  qed (use inv db r in \<open>auto simp: stock_inv_def db_inv_core db_inv_keys db_inv_status\<close>)
  then show ?thesis
    by (simp add: close_reservation_def conserved_def covered_def sold_sum_def frame_simps)
qed

subsection \<open>The operations that close reservations\<close>

lemma cancel_stock:
  assumes "cancel e rid w = (Inr u, w')" and "stock_inv stock (db w)"
  shows "stock_inv stock (db w')"
  using assms(1) db_inv_status [OF stock_inv_db_inv [OF assms(2)]]
proof (cases rule: cancel_cases)
  case (released r)
  then show ?thesis
    using close_reservation_stock [OF assms(2), of r Released unreserve Cancelled]
      close_reservation_inv [OF stock_inv_db_inv [OF assms(2)], of r Cancelled]
    by (simp add: stock_inv_def closes_def)
qed (simp add: assms(2))

lemma add_order_InrD:
  assumes "add_order mk d = (Inr ord, d')"
  shows "inventories d' = inventories d" and "reservation_items d' = reservation_items d"
    and "ord = mk (next_order_id d)"
  using assms by (auto simp: add_order_def Let_def split: if_splits)

lemma confirm_stock:
  assumes "confirm e now rid w = (Inr ord, w')" and "stock_inv stock (db w)"
  shows "stock_inv stock (db w')"
  using assms(1)
proof (rule confirm_InrD)
  fix r
  let ?c = "close_reservation ItemConfirmed consume Confirmed r (db w)"
  assume r: "r \<in> set (reservations (db w))" "res_status r = Pending"
    and add: "add_order (new_order r now) ?c = (Inr ord, db w')"
  have "conserved stock ?c \<and> covered ?c"
    by (rule close_reservation_stock [OF assms(2) r]) (simp add: closes_def)
  moreover note add_order_InrD(1,2) [OF add]
  ultimately have "conserved stock (db w') \<and> covered (db w')"
    by (simp add: conserved_def covered_def sold_sum_def)
  with close_reservation_confirmed_inv [OF stock_inv_db_inv [OF assms(2)] r add]
  show ?thesis by (simp add: stock_inv_def)
qed

lemma expire_rows_stock:
  assumes "stock_inv stock d" and "batch_ok d ris"
  shows "stock_inv stock (fold expire_row ris d)"
  using assms
proof (induction ris arbitrary: d)
  case Nil
  then show ?case by simp
next
  case (Cons ri ris)
  note inv = stock_inv_db_inv [OF Cons.prems(1)] and ri = batch_okD(1,2) [OF Cons.prems(2)]
  have "stock_inv stock (expire_row ri d)"
    using close_reservation_stock [OF Cons.prems(1) ri, of Released unreserve Expired]
      close_reservation_inv [OF inv ri, of Expired]
    by (simp add: stock_inv_def expire_row_def closes_def)
  with batch_next [OF db_inv_keys [OF inv] Cons.prems(2)] show ?case using Cons.IH by simp
qed

lemma expire_batch_stock:
  assumes "expire_batch e now limit w = (Inr n, w')" and "stock_inv stock (db w)"
  shows "stock_inv stock (db w')"
  unfolding expire_batch_close(1) [OF assms(1) stock_inv_db_inv [OF assms(2)]]
  by (rule expire_rows_stock [OF assms(2) get_expired_pendingD [OF db_inv_keys [OF stock_inv_db_inv [OF assms(2)]]]])

subsection \<open>create\<close>

lemma booked_le:
  assumes "distinct (map fst its)" and "0 \<le> n"
    and "\<forall>pq \<in> set its. lm (fst pq) = Some i \<longrightarrow> fst pq = p \<and> snd pq \<le> n"
  shows "booked its lm i \<le> n"
proof -
  have none: "booked xs lm i = 0" if "\<forall>pq \<in> set xs. lm (fst pq) \<noteq> Some i" for xs
    using that by (induction xs) auto
  show ?thesis using assms
  proof (induction its)
    case Nil
    then show ?case by simp
  next
    case (Cons x its)
    show ?case
    proof (cases "lm (fst x) = Some i")
      case True
      then have "fst x = p" "snd x \<le> n" using Cons.prems(3) by auto
      moreover have "booked its lm i = 0"
        using Cons.prems(1,3) \<open>fst x = p\<close> by (intro none) force
      ultimately show ?thesis using True by simp
    next
      case False
      then show ?thesis using Cons by simp
    qed
  qed
qed

text \<open>One product is requested once: what is booked on a row is what phase 2 has checked.\<close>

lemma locked_booked:
  assumes keys: "keys_ok d" and lm: "locked_ok d its lm" and dist: "distinct (map fst its)"
    and cov: "covered d" and r: "r \<in> set (inventories d)"
  shows "booked its lm (inv_id r) \<le> effective r"
proof (rule booked_le [OF dist, where p = "inv_product_id r"])
  show "0 \<le> effective r" using cov r by (simp add: covered_def effective_def)
  show "\<forall>pq \<in> set its. lm (fst pq) = Some (inv_id r) \<longrightarrow> fst pq = inv_product_id r \<and> snd pq \<le> effective r"
  proof (intro ballI impI)
    fix pq assume "pq \<in> set its" and i: "lm (fst pq) = Some (inv_id r)"
    then obtain row where row: "row \<in> set (inventories d)" "inv_id row = inv_id r"
      "inv_product_id row = fst pq" "snd pq \<le> effective row"
      using lm by (auto simp: locked_ok_def)
    then have "row = r" using keys r by (simp add: keys_ok_def distinct_map inj_on_def)
    then show "fst pq = inv_product_id r \<and> snd pq \<le> effective r" using row by simp
  qed
qed

lemma hold_items_covered:
  assumes "hold_items e rid lm its w = (Inr u, w')"
    and "\<forall>t \<in> set (reservation_items (db w)). item_id t < next_item_id (db w)"
    and "distinct (map inv_id (inventories (db w)))" and "covered (db w)"
  shows "covered (db w')"
  using assms
proof (induction its arbitrary: w)
  case Nil
  then show ?case by simp
next
  case (Cons pq its)
  obtain w1 where step: "hold_item e rid lm (fst pq, snd pq) w = (Inr (), w1)"
    and rest: "hold_items e rid lm its w1 = (Inr u, w')"
    using Cons.prems(1) by (auto split: prod.splits sum.splits)
  let ?q = "snd pq"
  obtain i row t b where "lm (fst pq) = Some i" and row: "get_inventory (db w) i = Some row"
    and b: "b = booking (get_provider (db w) (inv_provider_id row))"
    and t: "settled_item rid row ?q (next_item_id (db w)) b t" and "item_product_id t = fst pq"
    and d1: "db w1 = settle_step rid row ?q b t (db w)" and enough: "b \<noteq> 0 \<longrightarrow> ?q \<le> effective row"
    by (rule hold_item_InrD [OF step Cons.prems(2)])
  have row': "row \<in> set (inventories (db w))"
    using row by (auto simp: get_inventory_def dest: find_by_SomeD)
  have "b * ?q \<le> effective row"
    using enough booking_range [of "get_provider (db w) (inv_provider_id row)"] Cons.prems(4) row'
    by (auto simp: b covered_def effective_def)
  moreover have "r = row" if "r \<in> set (inventories (db w))" "inv_id r = inv_id row" for r
    using Cons.prems(3) that row' by (simp add: distinct_map inj_on_def)
  ultimately have "qty_reserved r + b * ?q \<le> qty_available r"
    if "r \<in> set (inventories (db w))" "inv_id r = inv_id row" for r
    using that by (force simp: effective_def)
  then have "covered (db w1)"
    using Cons.prems(4)
    by (auto simp: d1 covered_def settle_step_def frame_simps set_upd_by)
  moreover have "\<forall>t \<in> set (reservation_items (db w1)). item_id t < next_item_id (db w1)"
    and "distinct (map inv_id (inventories (db w1)))"
    using Cons.prems(2,3) t
    by (auto simp: d1 settle_step_def frame_simps settled_item_def map_upd_by)
  ultimately show ?case by (intro Cons.IH [OF rest])
qed

lemma create_covered:
  assumes run: "create e now user its w = (Inr r, w')" and keys: "keys_ok (db w)"
    and cov: "covered (db w)" and dist: "distinct (map fst its)"
  shows "covered (db w')"
  using run keys
proof (rule create_phases)
  fix lm w1 u
  let ?d = "db w"
  assume lm: "locked_ok ?d its lm"
    and loop: "hold_items e (res_id r) lm its w1 = (Inr u, w')"
    and w1: "db w1 = insert_reservation r (reserve_rows (\<lambda>r. booked its lm (inv_id r)) ?d)"
  have "covered (db w1)"
    using locked_booked [OF keys lm dist cov]
    by (force simp: w1 insert_reservation_def covered_def frame_simps effective_def)
  moreover have "\<forall>t \<in> set (reservation_items (db w1)). item_id t < next_item_id (db w1)"
    and "distinct (map inv_id (inventories (db w1)))"
    using keys by (simp_all add: w1 insert_reservation_def frame_simps keys_ok_def comp_def)
  ultimately show ?thesis by (intro hold_items_covered [OF loop])
qed

lemma create_stock:
  assumes run: "create e now user its w = (Inr r, w')" and inv: "stock_inv stock (db w)"
    and dist: "distinct (map fst its)" and pos: "\<forall>pq \<in> set its. 0 < snd pq"
  shows "stock_inv stock (db w')"
proof -
  have db: "db_inv (db w)" and cov: "covered (db w)" and con: "conserved stock (db w)"
    using inv by (simp_all add: stock_inv_def)
  have "conserved stock (db w')"
    using run db_inv_keys [OF db]
  proof (rule create_InrD)
    fix lm ts
    assume ts: "list_all2 (created_item (db w) (res_id r) lm) its ts"
      and w': "db w' = create_effect r ts its lm (db w)"
    show ?thesis
      using con created_sums(3) [OF ts] by (simp add: w' conserved_def sold_sum_def frame_simps)
  qed
  with create_covered [OF run db_inv_keys [OF db] cov dist] create_inv [OF run db pos]
  show ?thesis by (simp add: stock_inv_def)
qed

end
