(* ===== verification/Inventory_Service.thy ===== *)
theory Inventory_Service
  imports Lifecycle
begin

section \<open>InventoryService and OrderService\<close>

text \<open>
  Reading the availability of a product, overwriting the local stock of an external provider
  with what the provider reports (\<open>app/services/inventory_service.py\<close>), and reading an
  order (\<open>app/services/order_service.py\<close>).  The clock is read once per request.
\<close>

subsection \<open>get_availability\<close>

record source =
  src_provider_id :: int
  src_provider_name :: string
  src_qty_available :: int
  src_qty_reserved :: int
  src_effective_available :: int
  src_last_synced_at :: "int option"

definition source_of :: "database \<Rightarrow> inventory \<Rightarrow> source" where
  "source_of d r =
     \<lparr>src_provider_id = inv_provider_id r,
      src_provider_name =
        (case get_provider d (inv_provider_id r) of None \<Rightarrow> ''unknown'' | Some p \<Rightarrow> prov_name p),
      src_qty_available = qty_available r, src_qty_reserved = qty_reserved r,
      src_effective_available = qty_available r - qty_reserved r,
      src_last_synced_at = last_synced_at r\<rparr>"

definition get_availability :: "int \<Rightarrow> world \<Rightarrow> (exn + source list) \<times> world" where
  "get_availability p w = (Inr (map (source_of (db w)) (get_all_by_product (db w) p)), w)"

subsection \<open>sync_from_provider\<close>

record sync_result =
  sync_updated :: int
  sync_errors :: "string list"
  sync_message :: string

text \<open>\<open>str(exc)\<close> of a provider error.\<close>

fun exn_text :: "exn \<Rightarrow> string" where
  "exn_text (CapabilityNotSupported m) = m"
| "exn_text (ProviderTimeout m) = m"
| "exn_text (ProviderUnavailable m) = m"
| "exn_text (InsufficientProviderStock m) = m"
| "exn_text _ = []"

definition set_stock :: "int \<Rightarrow> int \<Rightarrow> inventory \<Rightarrow> inventory" where
  "set_stock now q r = r\<lparr>qty_available := q, last_synced_at := Some now\<rparr>"

definition row_sku :: "database \<Rightarrow> inventory \<Rightarrow> string option" where
  "row_sku d r =
     (case get_product d (inv_product_id r) of
        None \<Rightarrow> None | Some pr \<Rightarrow> if sku pr = [] then None else Some (sku pr))"

definition sync_row ::
    "env \<Rightarrow> int \<Rightarrow> provider \<Rightarrow> inventory \<Rightarrow> int \<times> string list \<Rightarrow> world \<Rightarrow>
       (exn + int \<times> string list) \<times> world" where
  "sync_row e now p row acc w =
     (case row_sku (db w) row of
        None \<Rightarrow> (Inr acc, w)
      | Some s \<Rightarrow>
          (case registry_resolve (Some p) None of
             Inl x \<Rightarrow> (Inl x, w)
           | Inr a \<Rightarrow>
               (case check_stock e a s w of
                  (Inr q, w') \<Rightarrow>
                    (Inr (fst acc + 1, snd acc), on_db (upd_inventory (inv_id row) (set_stock now q)) w')
                | (Inl x, w') \<Rightarrow>
                    if is_provider_error x
                    then (Inr (fst acc, snd acc @ [s @ '': '' @ exn_text x]), w')
                    else (Inl x, w'))))"

fun sync_rows ::
    "env \<Rightarrow> int \<Rightarrow> provider \<Rightarrow> inventory list \<Rightarrow> int \<times> string list \<Rightarrow> world \<Rightarrow>
       (exn + int \<times> string list) \<times> world" where
  "sync_rows e now p [] acc w = (Inr acc, w)"
| "sync_rows e now p (r # rs) acc w =
     (case sync_row e now p r acc w of
        (Inl x, w') \<Rightarrow> (Inl x, w')
      | (Inr acc', w') \<Rightarrow> sync_rows e now p rs acc' w')"

definition sync_from_provider ::
    "env \<Rightarrow> int \<Rightarrow> int \<Rightarrow> world \<Rightarrow> (exn + sync_result) \<times> world" where
  "sync_from_provider e now pid w =
     (case get_provider (db w) pid of
        None \<Rightarrow> (Inl (NotFoundError (''Provider '' @ str_int pid @ '' not found'')), w)
      | Some p \<Rightarrow>
          if \<not> prov_is_active p then
            (Inl (ValueError (''Provider '' @ str_int pid @ '' is inactive'')), w)
          else if prov_type p = internal then
            (Inr \<lparr>sync_updated = 0, sync_errors = [],
                  sync_message = ''internal providers do not require sync''\<rparr>, w)
          else
            (case sync_rows e now p (get_all_by_provider (db w) pid) (0, []) w of
               (Inl x, w') \<Rightarrow> (Inl x, w')
             | (Inr acc, w') \<Rightarrow>
                 (Inr \<lparr>sync_updated = fst acc, sync_errors = snd acc, sync_message = []\<rparr>, w')))"

subsection \<open>OrderService\<close>

definition order_get_by_id :: "int \<Rightarrow> world \<Rightarrow> (exn + order_row) \<times> world" where
  "order_get_by_id k w =
     (case get_order (db w) k of
        None \<Rightarrow> (Inl (NotFoundError (''Order '' @ str_int k @ '' not found'')), w)
      | Some x \<Rightarrow> (Inr x, w))"

subsection \<open>What a synchronisation changes\<close>

lemma set_stock_sel [simp]:
  "inv_id (set_stock now q r) = inv_id r" "inv_product_id (set_stock now q r) = inv_product_id r"
  "inv_provider_id (set_stock now q r) = inv_provider_id r"
  "qty_reserved (set_stock now q r) = qty_reserved r" "qty_available (set_stock now q r) = q"
  "last_synced_at (set_stock now q r) = Some now"
  by (simp_all add: set_stock_def)

text \<open>Asking for the stock does not change the database.\<close>

lemma check_stock_db: "check_stock e a s w = (res, w') \<Longrightarrow> db w' = db w"
  by (auto simp: check_stock_def int_check_stock_def ext_check_stock_def send_def
      split: adapter.splits option.splits)

text \<open>
  What one row of the provider may become: its reserved quantity, its keys and every other
  row stay, its available quantity may be replaced.
\<close>

definition restocked :: "int \<Rightarrow> inventory \<Rightarrow> inventory \<Rightarrow> bool" where
  "restocked pid r r' \<longleftrightarrow>
     row_key r' = row_key r \<and> qty_reserved r' = qty_reserved r \<and>
     (inv_provider_id r \<noteq> pid \<longrightarrow> r' = r)"

definition synced :: "int \<Rightarrow> database \<Rightarrow> database \<Rightarrow> bool" where
  "synced pid d d' \<longleftrightarrow>
     (\<exists>rs. d' = d\<lparr>inventories := rs\<rparr> \<and> list_all2 (restocked pid) (inventories d) rs)"

lemma restocked_refl [simp]: "restocked pid r r"
  by (simp add: restocked_def)

lemma restocked_trans: "restocked pid a b \<Longrightarrow> restocked pid b c \<Longrightarrow> restocked pid a c"
  by (auto simp: restocked_def row_key_def)

lemma synced_refl [simp]: "synced pid d d"
  by (auto simp: synced_def list_all2_same intro: exI [of _ "inventories d"])

lemma synced_trans:
  assumes "synced pid a b" and "synced pid b c"
  shows "synced pid a c"
proof -
  obtain rs where b: "b = a\<lparr>inventories := rs\<rparr>" and 1: "list_all2 (restocked pid) (inventories a) rs"
    using assms(1) by (auto simp: synced_def)
  obtain rs' where c: "c = b\<lparr>inventories := rs'\<rparr>" and 2: "list_all2 (restocked pid) rs rs'"
    using assms(2) b by (auto simp: synced_def)
  have "list_all2 (restocked pid) (inventories a) rs'"
    by (rule list_all2_trans [OF _ 1 2]) (rule restocked_trans)
  then show ?thesis by (auto simp: synced_def b c)
qed

lemma synced_upd:
  assumes "\<forall>r \<in> set (inventories d). inv_id r = i \<longrightarrow> inv_provider_id r = pid"
  shows "synced pid d (upd_inventory i (set_stock now q) d)"
  using assms
  by (auto simp: synced_def upd_inventory_def upd_by_def list_all2_map2 restocked_def row_key_def
      list_all2_same)

lemma synced_provider_row:
  assumes "synced pid d d'" and "\<forall>r \<in> set (inventories d). inv_id r = i \<longrightarrow> inv_provider_id r = pid"
  shows "\<forall>r \<in> set (inventories d'). inv_id r = i \<longrightarrow> inv_provider_id r = pid"
  using assms
  by (fastforce simp: synced_def restocked_def row_key_def list_all2_conv_all_nth in_set_conv_nth)

lemma sync_row_cases:
  assumes "sync_row e now p row acc w = (res, w')"
  obtains (kept) "db w' = db w"
    | (stock) q where "db w' = upd_inventory (inv_id row) (set_stock now q) (db w)"
proof (cases "row_sku (db w) row")
  case None
  then show ?thesis using assms kept by (simp add: sync_row_def)
next
  case (Some s)
  show ?thesis
  proof (cases "registry_resolve (Some p) None")
    case (Inl x)
    then show ?thesis using assms Some kept by (simp add: sync_row_def)
  next
    case (Inr a)
    obtain x w1 where c: "check_stock e a s w = (x, w1)" by (cases "check_stock e a s w")
    then show ?thesis
      using assms Some Inr check_stock_db [OF c] kept stock
      by (cases x) (auto simp: sync_row_def split: if_splits)
  qed
qed

lemma sync_row_synced:
  assumes "sync_row e now p row acc w = (res, w')"
    and "\<forall>r \<in> set (inventories (db w)). inv_id r = inv_id row \<longrightarrow> inv_provider_id r = pid"
  shows "synced pid (db w) (db w')"
  using assms(1) by (rule sync_row_cases) (simp_all add: synced_upd [OF assms(2)])

lemma sync_rows_synced:
  assumes "sync_rows e now p rs acc w = (res, w')"
    and "\<forall>row \<in> set rs. \<forall>r \<in> set (inventories (db w)). inv_id r = inv_id row \<longrightarrow> inv_provider_id r = pid"
  shows "synced pid (db w) (db w')"
  using assms
proof (induction rs arbitrary: acc w)
  case Nil
  then show ?case by simp
next
  case (Cons row rs)
  obtain res1 w1 where step: "sync_row e now p row acc w = (res1, w1)" by (cases "sync_row e now p row acc w")
  have 1: "synced pid (db w) (db w1)"
    by (rule sync_row_synced [OF step]) (rule bspec [OF Cons.prems(2)], simp)
  show ?case
  proof (cases res1)
    case (Inl x)
    then show ?thesis using Cons.prems(1) step 1 by auto
  next
    case (Inr acc1)
    then have rest: "sync_rows e now p rs acc1 w1 = (res, w')" using Cons.prems(1) step by simp
    have "synced pid (db w1) (db w')"
    proof (rule Cons.IH [OF rest], rule ballI)
      fix row' assume "row' \<in> set rs"
      then have "\<forall>r \<in> set (inventories (db w)). inv_id r = inv_id row' \<longrightarrow> inv_provider_id r = pid"
        by (intro bspec [OF Cons.prems(2)]) simp
      then show "\<forall>r \<in> set (inventories (db w1)). inv_id r = inv_id row' \<longrightarrow> inv_provider_id r = pid"
        by (rule synced_provider_row [OF 1])
    qed
    with 1 show ?thesis by (rule synced_trans)
  qed
qed

lemma provider_rows:
  assumes "distinct (map inv_id (inventories d))" and "row \<in> set (get_all_by_provider d pid)"
  shows "\<forall>r \<in> set (inventories d). inv_id r = inv_id row \<longrightarrow> inv_provider_id r = pid"
  using assms by (auto simp: get_all_by_provider_def distinct_map inj_on_def)

lemma sync_synced:
  assumes "sync_from_provider e now pid w = (res, w')" and "distinct (map inv_id (inventories (db w)))"
  shows "synced pid (db w) (db w')"
proof -
  have rows: "synced pid (db w) (db w1)"
    if "sync_rows e now p (get_all_by_provider (db w) pid) (0, []) w = (res1, w1)" for p res1 w1
    using sync_rows_synced [OF that] provider_rows [OF assms(2)] by blast
  show ?thesis using assms(1)
    by (auto simp: sync_from_provider_def split: option.splits if_splits prod.splits sum.splits dest: rows)
qed

lemma synced_keys:
  assumes "synced pid d d'"
  shows "map row_key (inventories d') = map row_key (inventories d)"
    and "map inv_id (inventories d') = map inv_id (inventories d)"
proof -
  obtain rs where d': "d' = d\<lparr>inventories := rs\<rparr>" and 1: "list_all2 (restocked pid) (inventories d) rs"
    using assms by (auto simp: synced_def)
  from 1 have "map row_key rs = map row_key (inventories d) \<and> map inv_id rs = map inv_id (inventories d)"
    by (induction rule: list_all2_induct) (auto simp: restocked_def row_key_def)
  then show "map row_key (inventories d') = map row_key (inventories d)"
    and "map inv_id (inventories d') = map inv_id (inventories d)" by (simp_all add: d')
qed

lemma synced_inv:
  assumes "db_inv d" and "synced pid d d'"
  shows "db_inv d'"
proof -
  obtain rs where d': "d' = d\<lparr>inventories := rs\<rparr>" and 1: "list_all2 (restocked pid) (inventories d) rs"
    using assms(2) by (auto simp: synced_def)
  have rk: "row_key ` set rs = row_key ` set (inventories d)"
    using arg_cong [OF synced_keys(1) [OF assms(2)], of set] by (simp add: d')
  have ids: "distinct (map inv_id rs)"
    using synced_keys(2) [OF assms(2)] db_inv_keys [OF assms(1)] by (simp add: d' keys_ok_def)
  have led: "ledger (\<lambda>_. 0) d'"
    unfolding ledger_def
  proof
    fix r' assume "r' \<in> set (inventories d')"
    then obtain r where r: "r \<in> set (inventories d)" "restocked pid r r'"
      using list_all2_right [OF 1] by (auto simp: d')
    then show "qty_reserved r' = live_sum d' (inv_id r') + row_booking d' r' * all_sum d' (inv_id r') + 0"
      using assms(1) by (force simp: d' restocked_def row_key_def db_inv_def core_def ledger_def
          live_sum_def all_sum_def row_booking_def get_provider_def)
  qed
  have items: "item_ok d' t" if "t \<in> set (reservation_items d)" for t
    using assms(1) that item_ok_transfer [of d t d' t] by (simp add: d' rk db_inv_def core_def refs_ok_def)
  show ?thesis
    using assms(1) led ids items
    by (auto simp: db_inv_def core_def keys_ok_def refs_ok_def status_ok_def orders_ok_def d')
qed

interpretation sync: transaction "sync_from_provider e now pid" db_inv for e now pid
proof
  fix w x w'
  assume "db_inv (db w)" and "sync_from_provider e now pid w = (Inr x, w')"
  then show "db_inv (db w')"
    using sync_synced db_inv_keys synced_inv unfolding keys_ok_def by blast
next
  fix w
  have row: "counters_le (db w) (db w')" if "sync_row e now p r acc w = (res, w')" for p r acc w res w'
    using that by (rule sync_row_cases) (simp_all add: counters_le_def frame_simps)
  have rows: "counters_le (db w) (db w')" if "sync_rows e now p rs acc w = (res, w')" for p rs acc w res w'
    using that
  proof (induction rs arbitrary: acc w)
    case Nil
    then show ?case by simp
  next
    case (Cons r rs)
    then show ?case by (fastforce split: prod.splits sum.splits dest: row intro: counters_le_trans)
  qed
  show "counters_le (db w) (db (snd (sync_from_provider e now pid w)))"
    by (auto simp: sync_from_provider_def dest: rows split: option.splits prod.splits sum.splits)
qed (rule db_inv_rollback)

subsection \<open>What a synchronisation stores\<close>

text \<open>
  The reference: the provider is asked for the stock of each SKU in turn, and nothing is written.
  The answers depend on the requests only, not on the tables, so they can be had beforehand.
\<close>

definition ask :: "env \<Rightarrow> provider \<Rightarrow> string \<Rightarrow> world \<Rightarrow> (exn + int) \<times> world" where
  "ask e p s w =
     (case registry_resolve (Some p) None of Inl x \<Rightarrow> (Inl x, w) | Inr a \<Rightarrow> check_stock e a s w)"

fun ask_all :: "env \<Rightarrow> provider \<Rightarrow> string list \<Rightarrow> world \<Rightarrow> (exn + int) list \<times> world" where
  "ask_all e p [] w = ([], w)"
| "ask_all e p (s # ss) w =
     (case ask e p s w of (r, w1) \<Rightarrow> (case ask_all e p ss w1 of (rs, w2) \<Rightarrow> (r # rs, w2)))"

definition stocked :: "int \<Rightarrow> (int \<times> (exn + int)) list \<Rightarrow> inventory \<Rightarrow> inventory" where
  "stocked now answers r =
     (case map_of answers (inv_id r) of Some (Inr q) \<Rightarrow> set_stock now q r | _ \<Rightarrow> r)"

definition good_answers :: "(exn + int) list \<Rightarrow> int" where
  "good_answers rs = int (length (filter (\<lambda>r. case r of Inr _ \<Rightarrow> True | Inl _ \<Rightarrow> False) rs))"

fun sync_complaints :: "string list \<Rightarrow> (exn + int) list \<Rightarrow> string list" where
  "sync_complaints (s # ss) (Inl x # rs) = (s @ '': '' @ exn_text x) # sync_complaints ss rs"
| "sync_complaints (s # ss) (Inr q # rs) = sync_complaints ss rs"
| "sync_complaints _ _ = []"

definition rows_to_sync :: "database \<Rightarrow> inventory list \<Rightarrow> inventory list" where
  "rows_to_sync d rs = filter (\<lambda>r. row_sku d r \<noteq> None) rs"

definition skus_of :: "database \<Rightarrow> inventory list \<Rightarrow> string list" where
  "skus_of d rs = map (\<lambda>r. the (row_sku d r)) (rows_to_sync d rs)"

lemma length_ask_all: "length (fst (ask_all e p ss w)) = length ss"
  by (induction ss arbitrary: w) (simp_all split: prod.splits, metis fst_conv)

lemma ask_frame: "ask e p s w = (r, w') \<Longrightarrow> db w' = db w"
  by (auto simp: ask_def dest: check_stock_db split: sum.splits)

text \<open>The answers do not depend on the tables.\<close>

lemma ask_sent:
  assumes "sent v = sent w"
  shows "fst (ask e p s v) = fst (ask e p s w)" and "sent (snd (ask e p s v)) = sent (snd (ask e p s w))"
proof -
  have "a = ExternalAdapter x" if "registry_resolve (Some p) None = Inr a" and "\<nexists>x. a = ExternalAdapter x" for a x
    using that by (auto simp: registry_resolve_def split: if_splits sum.splits)
  then show "fst (ask e p s v) = fst (ask e p s w)" and "sent (snd (ask e p s v)) = sent (snd (ask e p s w))"
    using assms
    by (auto simp: ask_def check_stock_def int_check_stock_def ext_check_stock_def send_def
        split: sum.splits adapter.splits option.splits)
qed

lemma ask_all_sent:
  "sent v = sent w \<Longrightarrow> fst (ask_all e p ss v) = fst (ask_all e p ss w) \<and>
     sent (snd (ask_all e p ss v)) = sent (snd (ask_all e p ss w))"
proof (induction ss arbitrary: v w)
  case (Cons s ss)
  have "fst (ask_all e p ss (snd (ask e p s v))) = fst (ask_all e p ss (snd (ask e p s w))) \<and>
      sent (snd (ask_all e p ss (snd (ask e p s v)))) = sent (snd (ask_all e p ss (snd (ask e p s w))))"
    using ask_sent(2) [OF Cons.prems] by (rule Cons.IH)
  then show ?case using ask_sent(1) [OF Cons.prems, of e p s] by (simp add: case_prod_unfold)
qed simp

lemma stocked_Nil [simp]: "stocked now [] r = r"
  by (simp add: stocked_def)

text \<open>One row, then the others.\<close>

lemma stocked_step:
  assumes "k \<notin> set (map fst as)"
  shows "stocked now as (if inv_id r = k then set_stock now q r else r) = stocked now ((k, Inr q) # as) r"
    and "stocked now as r = stocked now ((k, Inl x) # as) r"
proof -
  have "map_of as k = None" using assms by (simp add: map_of_eq_None_iff)
  then show "stocked now as (if inv_id r = k then set_stock now q r else r) = stocked now ((k, Inr q) # as) r"
    and "stocked now as r = stocked now ((k, Inl x) # as) r" by (auto simp: stocked_def)
qed

lemma row_sku_cong: "products d' = products d \<Longrightarrow> row_sku d' = row_sku d"
  by (simp add: fun_eq_iff row_sku_def get_product_def)

lemma stocked_rows:
  assumes "k \<notin> set (map fst as)"
  shows "map (stocked now as) (upd_by inv_id k (set_stock now q) rs) = map (stocked now ((k, Inr q) # as)) rs"
    and "map (stocked now as) rs = map (stocked now ((k, Inl x) # as)) rs"
  using stocked_step [OF assms] by (simp_all add: upd_by_def)

text \<open>A row with a SKU: the provider is asked, and its answer stored or noted.\<close>

lemma sync_row_asks:
  assumes step: "sync_row e now p r acc w = (Inr acc1, w1)" and sku: "row_sku (db w) r = Some s"
  obtains x u where "ask e p s w = (x, u)" and "sent w1 = sent u"
    and "case x of
        Inr q \<Rightarrow> acc1 = (fst acc + 1, snd acc) \<and> db w1 = upd_inventory (inv_id r) (set_stock now q) (db w)
      | Inl y \<Rightarrow> acc1 = (fst acc, snd acc @ [s @ '': '' @ exn_text y]) \<and> db w1 = db w \<and> is_provider_error y"
proof -
  obtain a where a: "registry_resolve (Some p) None = Inr a" using step sku by (auto simp: sync_row_def split: sum.splits)
  obtain x u where x: "check_stock e a s w = (x, u)" by (cases "check_stock e a s w")
  have "ask e p s w = (x, u)" by (simp add: ask_def a x)
  then show ?thesis
    using step sku a x check_stock_db [OF x] that [of x u] by (auto simp: sync_row_def split: sum.splits if_splits)
qed

lemma sync_rows_exact:
  assumes "sync_rows e now p rs acc w = (Inr acc', w')" and "distinct (map inv_id rs)"
    and "ask_all e p (skus_of (db w) rs) w = (as, v)"
  shows "db w' = (db w)\<lparr>inventories :=
        map (stocked now (zip (map inv_id (rows_to_sync (db w) rs)) as)) (inventories (db w))\<rparr> \<and>
    sent w' = sent v \<and>
    acc' = (fst acc + good_answers as, snd acc @ sync_complaints (skus_of (db w) rs) as) \<and>
    (\<forall>x. Inl x \<in> set as \<longrightarrow> is_provider_error x)"
  using assms
proof (induction rs arbitrary: acc w as v)
  case Nil
  then show ?case by (simp add: skus_of_def rows_to_sync_def good_answers_def)
next
  case (Cons r rs)
  obtain acc1 w1 where step: "sync_row e now p r acc w = (Inr acc1, w1)"
    and rest: "sync_rows e now p rs acc1 w1 = (Inr acc', w')"
    using Cons.prems(1) by (auto split: prod.splits sum.splits)
  let ?ss = "skus_of (db w) rs" and ?rows = "rows_to_sync (db w) rs"
  have "products (db w1) = products (db w)"
    using step by (rule sync_row_cases) (simp_all add: frame_simps)
  then have "row_sku (db w1) = row_sku (db w)" by (rule row_sku_cong)
  then have same: "skus_of (db w1) rs = ?ss" "rows_to_sync (db w1) rs = ?rows"
    by (simp_all add: skus_of_def rows_to_sync_def)
  show ?case
  proof (cases "row_sku (db w) r")
    case None
    then have "acc1 = acc" "w1 = w" and "skus_of (db w) (r # rs) = ?ss" "rows_to_sync (db w) (r # rs) = ?rows"
      using step by (simp_all add: sync_row_def skus_of_def rows_to_sync_def)
    then show ?thesis using Cons.IH [of acc w as v] rest Cons.prems(2,3) by simp
  next
    case (Some s)
    then have todo: "skus_of (db w) (r # rs) = s # ?ss" "rows_to_sync (db w) (r # rs) = r # ?rows"
      by (simp_all add: skus_of_def rows_to_sync_def)
    obtain x u where ask: "ask e p s w = (x, u)" "sent w1 = sent u"
      and eff: "case x of
          Inr q \<Rightarrow> acc1 = (fst acc + 1, snd acc) \<and> db w1 = upd_inventory (inv_id r) (set_stock now q) (db w)
        | Inl y \<Rightarrow> acc1 = (fst acc, snd acc @ [s @ '': '' @ exn_text y]) \<and> db w1 = db w \<and> is_provider_error y"
      using step Some by (rule sync_row_asks)
    obtain as1 v1 where u: "ask_all e p ?ss u = (as1, v1)" by (cases "ask_all e p ?ss u")
    then have as: "as = x # as1" "v = v1" using Cons.prems(3) by (simp_all add: todo ask(1))
    obtain v2 where as2: "ask_all e p ?ss w1 = (as1, v2)" "sent v2 = sent v1"
      using ask_all_sent [OF ask(2), of e p ?ss] u by (cases "ask_all e p ?ss w1") simp
    note ih = Cons.IH [OF rest _ as2(1) [folded same(1)], unfolded same]
    have "set (map fst (zip (map inv_id ?rows) as1)) \<subseteq> inv_id ` set ?rows" by (auto dest: set_zip_leftD)
    then have fresh: "inv_id r \<notin> set (map fst (zip (map inv_id ?rows) as1))"
      using Cons.prems(2) by (auto simp: rows_to_sync_def)
    show ?thesis
      using ih Cons.prems(2) eff as2(2) stocked_rows [OF fresh]
      by (cases x) (auto simp: as todo upd_inventory_def good_answers_def)
  qed
qed

lemma answers_count:
  "length ss = length rs \<Longrightarrow> good_answers rs + int (length (sync_complaints ss rs)) = int (length rs)"
  by (induction ss rs rule: list_induct2) (auto simp: good_answers_def split: sum.splits elim: sync_complaints.elims)

end
