(* ===== verification/Schemas.thy ===== *)
theory Schemas
  imports Repositories
begin

section \<open>Schemas: what a request must satisfy, what a response shows (app/schemas)\<close>

text \<open>
  The constraints pydantic enforces on the fields of \<open>app/schemas/reservation.py\<close> and
  \<open>app/schemas/order.py\<close>, on fields that already have their declared types, and the
  response classes, built from rows.
\<close>

subsection \<open>Requests\<close>

definition valid_item :: "int \<times> int \<Rightarrow> bool" where
  "valid_item pq \<longleftrightarrow> 0 < fst pq \<and> 0 < snd pq \<and> snd pq \<le> 1000"

text \<open>The validator of \<open>items\<close>: \<open>len(pids) != len(set(pids))\<close>.\<close>

definition no_duplicate_products :: "(int \<times> int) list \<Rightarrow> bool" where
  "no_duplicate_products its = (length (map fst its) = card (set (map fst its)))"

definition valid_create_request :: "string \<Rightarrow> (int \<times> int) list \<Rightarrow> bool" where
  "valid_create_request user its \<longleftrightarrow>
     1 \<le> length user \<and> length user \<le> 100 \<and> 1 \<le> length its \<and> length its \<le> 50 \<and>
     list_all valid_item its \<and> no_duplicate_products its"

definition valid_payment_outcome :: "int \<Rightarrow> string \<Rightarrow> bool" where
  "valid_payment_outcome rid outcome \<longleftrightarrow> 0 < rid \<and> (outcome = ''success'' \<or> outcome = ''failed'')"

lemma no_duplicate_products_distinct: "no_duplicate_products its \<longleftrightarrow> distinct (map fst its)"
  unfolding no_duplicate_products_def by (metis card_distinct distinct_card)

lemma valid_create_requestD:
  assumes "valid_create_request user its"
  shows "distinct (map fst its)" and "\<forall>pq \<in> set its. 0 < snd pq" and "its \<noteq> []"
  using assms
  by (auto simp: valid_create_request_def no_duplicate_products_distinct list_all_iff valid_item_def)

subsection \<open>Responses\<close>

record item_response =
  ir_id :: int
  ir_product_id :: int
  ir_provider_id :: int
  ir_provider_name :: string
  ir_qty_requested :: int
  ir_provider_status :: provider_item_status
  ir_provider_hold_ref :: "string option"
  ir_provider_error_message :: "string option"

record reservation_response =
  rr_id :: int
  rr_user_id :: string
  rr_status :: reservation_status
  rr_expires_at :: int
  rr_created_at :: int
  rr_items :: "item_response list"

record order_response =
  or_id :: int
  or_reservation_id :: int
  or_user_id :: string
  or_status :: order_status
  or_created_at :: int

definition from_item :: "database \<Rightarrow> reservation_item \<Rightarrow> item_response" where
  "from_item d t =
     \<lparr>ir_id = item_id t, ir_product_id = item_product_id t, ir_provider_id = item_provider_id t,
      ir_provider_name =
        (case get_provider d (item_provider_id t) of None \<Rightarrow> [] | Some p \<Rightarrow> prov_name p),
      ir_qty_requested = qty_requested t, ir_provider_status = provider_status t,
      ir_provider_hold_ref = provider_hold_ref t,
      ir_provider_error_message = provider_error_message t\<rparr>"

definition from_reservation :: "database \<Rightarrow> reservation \<times> reservation_item list \<Rightarrow> reservation_response" where
  "from_reservation d ri =
     \<lparr>rr_id = res_id (fst ri), rr_user_id = res_user_id (fst ri), rr_status = res_status (fst ri),
      rr_expires_at = expires_at (fst ri), rr_created_at = res_created_at (fst ri),
      rr_items = map (from_item d) (snd ri)\<rparr>"

definition order_response_of :: "order_row \<Rightarrow> order_response" where
  "order_response_of x =
     \<lparr>or_id = order_id x, or_reservation_id = order_reservation_id x, or_user_id = order_user_id x,
      or_status = order_status x, or_created_at = order_created_at x\<rparr>"

end
