(* ===== verification/Http.thy ===== *)
theory Http
  imports Models
begin

section \<open>Responses and exception handlers\<close>

text \<open>
  The envelopes of \<open>app/core/response.py\<close> and the handlers of
  \<open>app/core/exception_handler.py\<close> that \<open>main.py\<close> registers: every exception a
  request raises becomes a reply.  The request id in a failure is added in \<^theory_text>\<open>Middleware\<close>.  The type of the data is a parameter.
\<close>

datatype error_body = Detail string | FieldErrors "(string \<times> string list) list"

datatype 'a reply =
    Success int string 'a
  | NoContent int
  | Failure int string error_body "(string \<times> string) list"

fun reply_status :: "'a reply \<Rightarrow> int" where
  "reply_status (Success c _ _) = c"
| "reply_status (NoContent c) = c"
| "reply_status (Failure c _ _ _) = c"

definition ok :: "'a \<Rightarrow> 'a reply" where
  "ok x = Success 200 ''Ok'' x"

definition created :: "'a \<Rightarrow> 'a reply" where
  "created x = Success 201 ''Created'' x"

definition no_content :: "'a reply" where
  "no_content = NoContent 204"

subsection \<open>Status and message of an exception\<close>

definition error_messages :: "(int \<times> string) list" where
  "error_messages =
     [(400, ''Bad Request''), (401, ''Unauthenticated''), (403, ''Unauthorized''),
      (404, ''Not Found''), (405, ''Method Not Allowed''), (409, ''Conflict''),
      (422, ''Validation Exception''), (429, ''Too Many Requests''), (500, ''Unexpected Exception'')]"

definition error_message :: "int \<Rightarrow> string" where
  "error_message c = (case map_of error_messages c of None \<Rightarrow> ''Something went wrong'' | Some m \<Rightarrow> m)"

fun domain_status :: "exn \<Rightarrow> int option" where
  "domain_status (NotFoundError _) = Some 404"
| "domain_status (ReservationNotFound _) = Some 404"
| "domain_status (ConflictError _) = Some 409"
| "domain_status (InsufficientStockError _) = Some 409"
| "domain_status (DuplicateOrderError _) = Some 409"
| "domain_status (AuthenticationError _) = Some 401"
| "domain_status (InactiveAccountError _) = Some 403"
| "domain_status (ReservationStateError _) = Some 422"
| "domain_status _ = None"

text \<open>\<open>exc.detail\<close> of an application error.\<close>

fun app_detail :: "exn \<Rightarrow> string" where
  "app_detail (NotFoundError m) = m"
| "app_detail (ReservationNotFound m) = m"
| "app_detail (ConflictError m) = m"
| "app_detail (InsufficientStockError m) = m"
| "app_detail (DuplicateOrderError m) = m"
| "app_detail (AuthenticationError m) = m"
| "app_detail (InactiveAccountError m) = m"
| "app_detail (ReservationStateError m) = m"
| "app_detail _ = []"

definition envelope :: "int \<Rightarrow> string \<Rightarrow> error_body \<Rightarrow> 'a reply" where
  "envelope c m b = Failure c m b []"

definition app_error_handler :: "exn \<Rightarrow> 'a reply" where
  "app_error_handler x =
     (let c = (case domain_status x of None \<Rightarrow> 400 | Some c \<Rightarrow> c) in
      envelope c (error_message c) (Detail (app_detail x)))"

definition http_exception_handler :: "int \<Rightarrow> string \<Rightarrow> (string \<times> string) list \<Rightarrow> 'a reply" where
  "http_exception_handler c detail headers = Failure c (error_message c) (Detail detail) headers"

definition unhandled_exception_handler :: "'a reply" where
  "unhandled_exception_handler =
     envelope 500 ''Unexpected Exception'' (Detail ''An unexpected error occurred.'')"

subsection \<open>Validation errors\<close>

definition join :: "string \<Rightarrow> string list \<Rightarrow> string" where
  "join sep xs = (case xs of [] \<Rightarrow> [] | y # ys \<Rightarrow> y @ concat (map (\<lambda>z. sep @ z) ys))"

definition field_name :: "string list \<Rightarrow> string" where
  "field_name loc = join ''.'' (filter (\<lambda>l. l \<noteq> ''body'') loc)"

text \<open>\<open>errors.setdefault(field, []).append(msg)\<close> on a dictionary in insertion order.\<close>

fun add_error :: "string \<Rightarrow> string \<Rightarrow> (string \<times> string list) list \<Rightarrow> (string \<times> string list) list" where
  "add_error f m [] = [(f, [m])]"
| "add_error f m ((g, ms) # rest) =
     (if f = g then (g, ms @ [m]) # rest else (g, ms) # add_error f m rest)"

fun collect_errors ::
    "(string \<times> string list) list \<Rightarrow> (string list \<times> string) list \<Rightarrow> (string \<times> string list) list" where
  "collect_errors errors [] = errors"
| "collect_errors errors ((loc, m) # rest) = collect_errors (add_error (field_name loc) m errors) rest"

definition validation_exception_handler :: "(string list \<times> string) list \<Rightarrow> 'a reply" where
  "validation_exception_handler errs =
     envelope 422 ''Validation Exception'' (FieldErrors (collect_errors [] errs))"

text \<open>Starlette looks the handler up by the class of the exception.\<close>

definition exception_reply :: "exn \<Rightarrow> 'a reply" where
  "exception_reply x =
     (case x of
        HTTPException c d h \<Rightarrow> http_exception_handler c d h
      | RequestValidationError errs \<Rightarrow> validation_exception_handler errs
      | _ \<Rightarrow> if is_app_error x then app_error_handler x else unhandled_exception_handler)"

subsection \<open>What the validation reply contains\<close>

lemma map_of_add_error:
  "map_of (add_error f m es) g =
     (if g = f then Some ((case map_of es f of None \<Rightarrow> [] | Some ms \<Rightarrow> ms) @ [m]) else map_of es g)"
  by (induction es) (auto split: option.splits)

lemma add_error_keys: "fst ` set (add_error f m es) = insert f (fst ` set es)"
  by (induction f m es rule: add_error.induct) (simp_all add: insert_commute insert_absorb)

lemma add_error_distinct: "distinct (map fst es) \<Longrightarrow> distinct (map fst (add_error f m es))"
proof (induction f m es rule: add_error.induct)
  case (2 f m g ms rest)
  then show ?case using add_error_keys [of f m rest] by (cases "f = g") simp_all
qed simp

definition messages_of :: "string \<Rightarrow> (string list \<times> string) list \<Rightarrow> string list" where
  "messages_of f errs = map snd (filter (\<lambda>em. field_name (fst em) = f) errs)"

lemma collect_errors_lookup:
  "map_of (collect_errors es errs) f =
     (let old = map_of es f; new = messages_of f errs in
      if old = None \<and> new = [] then None else Some ((case old of None \<Rightarrow> [] | Some ms \<Rightarrow> ms) @ new))"
  by (induction es errs rule: collect_errors.induct)
     (auto simp: messages_of_def map_of_add_error Let_def split: option.splits)

lemma collect_errors_distinct: "distinct (map fst es) \<Longrightarrow> distinct (map fst (collect_errors es errs))"
  by (induction es errs rule: collect_errors.induct) (auto intro: add_error_distinct)

subsection \<open>Which exceptions are answered how\<close>

lemma app_error_status:
  "is_app_error x \<Longrightarrow>
     exception_reply x = Failure (the (domain_status x)) (error_message (the (domain_status x)))
       (Detail (app_detail x)) [] \<and> domain_status x \<noteq> None"
  by (cases x) (auto simp: exception_reply_def app_error_handler_def envelope_def)

lemma provider_error_status:
  "is_provider_error x \<Longrightarrow> exception_reply x = unhandled_exception_handler"
  by (cases x) (auto simp: exception_reply_def)

end
