(* ===== verification/Api.thy ===== *)
theory Api
  imports Stock Inventory_Service Schemas Http
begin

section \<open>The routers (app/api/v1/routers) and the request cycle\<close>

text \<open>
  One request of the API, from its validated fields to its reply: the route calls a service in
  the session of \<open>get_db\<close>, which commits or rolls back, and the exception handlers turn
  what was raised into a failure.  The locations and messages that pydantic reports for an
  invalid request are the parameter \<open>det\<close>.
\<close>

datatype request =
    CreateReservation string "(int \<times> int) list"
  | GetReservation int
  | ConfirmReservation int
  | CancelReservation int
  | PaymentOutcome int string
  | GetOrder int
  | GetAvailability int
  | SyncProvider int

datatype payload =
    ReservationData reservation_response
  | OrderData order_response
  | OutcomeData int string
  | AvailabilityData int "source list"
  | SyncData sync_result

text \<open>A route: the result of a service, and the reply made of it in the state after the call.\<close>

definition respond ::
    "(database \<Rightarrow> 'a \<Rightarrow> payload reply) \<Rightarrow> (exn + 'a) \<times> world \<Rightarrow> (exn + payload reply) \<times> world" where
  "respond f res =
     (case res of (Inl x, w) \<Rightarrow> (Inl x, w) | (Inr a, w) \<Rightarrow> (Inr (f (db w) a), w))"

definition create_reservation ::
    "env \<Rightarrow> int \<Rightarrow> string \<Rightarrow> (int \<times> int) list \<Rightarrow> world \<Rightarrow> (exn + payload reply) \<times> world" where
  "create_reservation e now user its w =
     respond (\<lambda>d r. created (ReservationData (from_reservation d (r, items_of d (res_id r)))))
       (create e now user its w)"

definition get_reservation_route :: "int \<Rightarrow> world \<Rightarrow> (exn + payload reply) \<times> world" where
  "get_reservation_route rid w =
     respond (\<lambda>d ri. ok (ReservationData (from_reservation d ri))) (service_get_with_items rid w)"

definition confirm_reservation :: "env \<Rightarrow> int \<Rightarrow> int \<Rightarrow> world \<Rightarrow> (exn + payload reply) \<times> world" where
  "confirm_reservation e now rid w =
     respond (\<lambda>d x. ok (OrderData (order_response_of x))) (confirm e now rid w)"

definition cancel_reservation :: "env \<Rightarrow> int \<Rightarrow> world \<Rightarrow> (exn + payload reply) \<times> world" where
  "cancel_reservation e rid w = respond (\<lambda>d u. no_content) (cancel e rid w)"

definition payment_outcome ::
    "env \<Rightarrow> int \<Rightarrow> int \<Rightarrow> string \<Rightarrow> world \<Rightarrow> (exn + payload reply) \<times> world" where
  "payment_outcome e now rid outcome w =
     (if outcome = ''success''
      then respond (\<lambda>d x. ok (OrderData (order_response_of x))) (confirm e now rid w)
      else respond (\<lambda>d u. ok (OutcomeData rid ''cancelled'')) (cancel e rid w))"

definition get_order_route :: "int \<Rightarrow> world \<Rightarrow> (exn + payload reply) \<times> world" where
  "get_order_route k w = respond (\<lambda>d x. ok (OrderData (order_response_of x))) (order_get_by_id k w)"

definition get_availability_route :: "int \<Rightarrow> world \<Rightarrow> (exn + payload reply) \<times> world" where
  "get_availability_route p w = respond (\<lambda>d xs. ok (AvailabilityData p xs)) (get_availability p w)"

definition sync_provider :: "env \<Rightarrow> int \<Rightarrow> int \<Rightarrow> world \<Rightarrow> (exn + payload reply) \<times> world" where
  "sync_provider e now pid w = respond (\<lambda>d x. ok (SyncData x)) (sync_from_provider e now pid w)"

fun valid_request :: "request \<Rightarrow> bool" where
  "valid_request (CreateReservation user its) = valid_create_request user its"
| "valid_request (PaymentOutcome rid outcome) = valid_payment_outcome rid outcome"
| "valid_request _ = True"

fun route :: "env \<Rightarrow> int \<Rightarrow> request \<Rightarrow> world \<Rightarrow> (exn + payload reply) \<times> world" where
  "route e now (CreateReservation user its) w = create_reservation e now user its w"
| "route e now (GetReservation rid) w = get_reservation_route rid w"
| "route e now (ConfirmReservation rid) w = confirm_reservation e now rid w"
| "route e now (CancelReservation rid) w = cancel_reservation e rid w"
| "route e now (PaymentOutcome rid outcome) w = payment_outcome e now rid outcome w"
| "route e now (GetOrder k) w = get_order_route k w"
| "route e now (GetAvailability p) w = get_availability_route p w"
| "route e now (SyncProvider p) w = sync_provider e now p w"

type_synonym validation_details = "request \<Rightarrow> (string list \<times> string) list"

definition dispatch ::
    "validation_details \<Rightarrow> env \<Rightarrow> int \<Rightarrow> request \<Rightarrow> world \<Rightarrow> (exn + payload reply) \<times> world" where
  "dispatch det e now req w =
     (if valid_request req then route e now req w else (Inl (RequestValidationError (det req)), w))"

definition serve ::
    "validation_details \<Rightarrow> env \<Rightarrow> int \<Rightarrow> request \<Rightarrow> world \<Rightarrow> payload reply \<times> world" where
  "serve det e now req w =
     (case get_db (dispatch det e now req) w of
        (Inr rep, w') \<Rightarrow> (rep, w')
      | (Inl x, w') \<Rightarrow> (exception_reply x, w'))"

lemmas route_defs = create_reservation_def get_reservation_route_def confirm_reservation_def
  cancel_reservation_def payment_outcome_def get_order_route_def get_availability_route_def
  sync_provider_def respond_def

subsection \<open>Every route is a transaction that keeps the invariant\<close>

lemma respond_db [simp]: "snd (respond f res) = snd res"
  by (auto simp: respond_def split: prod.splits sum.splits)

lemma respond_InrD: "respond f res = (Inr rep, w') \<Longrightarrow> \<exists>a. res = (Inr a, w') \<and> rep = f (db w') a"
  by (auto simp: respond_def split: prod.splits sum.splits)

lemma respond_InlD: "respond f res = (Inl x, w') \<Longrightarrow> res = (Inl x, w')"
  by (auto simp: respond_def split: prod.splits sum.splits)

lemma dispatch_counters: "counters_le (db w) (db (snd (dispatch det e now req w)))"
  using create_counters confirm_counters cancel_counters sync.counters
  by (cases req)
     (auto simp: dispatch_def create_reservation_def get_reservation_route_def confirm_reservation_def
        cancel_reservation_def payment_outcome_def get_order_route_def get_availability_route_def
        sync_provider_def service_get_with_items_def order_get_by_id_def get_availability_def
        split: option.splits)

text \<open>What a request may have done to the database when it returns.\<close>

lemma dispatch_cases:
  assumes "dispatch det e now req w = (Inr rep, w')"
  obtains (same) "w' = w"
    | (create) user its r where "req = CreateReservation user its" "valid_create_request user its"
        "create e now user its w = (Inr r, w')"
    | (confirm) rid ord where "confirm e now rid w = (Inr ord, w')"
    | (cancel) rid where "cancel e rid w = (Inr (), w')"
    | (sync) pid s where "req = SyncProvider pid" "sync_from_provider e now pid w = (Inr s, w')"
  using assms
  by (cases req)
     (auto simp: dispatch_def create_reservation_def get_reservation_route_def confirm_reservation_def
        cancel_reservation_def payment_outcome_def get_order_route_def get_availability_route_def
        sync_provider_def service_get_with_items_def order_get_by_id_def get_availability_def
        dest!: respond_InrD split: option.splits if_splits)

interpretation dispatch: transaction "dispatch det e now req" db_inv for det e now req
proof
  fix w rep w'
  assume inv: "db_inv (db w)" and run: "dispatch det e now req w = (Inr rep, w')"
  from run show "db_inv (db w')"
  proof (cases rule: dispatch_cases)
    case same
    then show ?thesis using inv by simp
  next
    case (create user its r)
    then show ?thesis using create_inv [OF create(3) inv] valid_create_requestD by simp
  next
    case (confirm rid ord)
    then show ?thesis by (rule confirm.returns [OF inv])
  next
    case (cancel rid)
    then show ?thesis by (rule cancel.returns [OF inv])
  next
    case (sync pid s)
    show ?thesis by (rule sync.returns [OF inv sync(2)])
  qed
qed (simp_all add: dispatch_counters db_inv_rollback)

text \<open>Away from synchronisation, the stock is conserved and covered as well.\<close>

definition is_sync :: "request \<Rightarrow> bool" where
  "is_sync req = (case req of SyncProvider _ \<Rightarrow> True | _ \<Rightarrow> False)"

definition dispatch_local ::
    "validation_details \<Rightarrow> env \<Rightarrow> int \<Rightarrow> request \<Rightarrow> world \<Rightarrow> (exn + payload reply) \<times> world" where
  "dispatch_local det e now req w =
     (if is_sync req then (Inl (ValueError []), w) else dispatch det e now req w)"

interpretation local_dispatch: transaction "dispatch_local det e now req" "stock_inv stock"
  for det e now req stock
proof
  fix w rep w'
  assume inv: "stock_inv stock (db w)" and "dispatch_local det e now req w = (Inr rep, w')"
  then have run: "dispatch det e now req w = (Inr rep, w')" and loc: "\<not> is_sync req"
    by (auto simp: dispatch_local_def split: if_splits)
  from run show "stock_inv stock (db w')"
  proof (cases rule: dispatch_cases)
    case same
    then show ?thesis using inv by simp
  next
    case (create user its r)
    then show ?thesis using create_stock [OF create(3) inv] valid_create_requestD by simp
  next
    case (confirm rid ord)
    then show ?thesis by (rule confirm_stock [OF _ inv])
  next
    case (cancel rid)
    then show ?thesis by (rule cancel_stock [OF _ inv])
  next
    case (sync pid s)
    then show ?thesis using loc by (simp add: is_sync_def)
  qed
qed (auto simp: dispatch_local_def dispatch_counters stock_inv_rollback)

lemma serve_db: "db (snd (serve det e now req w)) = db (snd (get_db (dispatch det e now req) w))"
  by (auto simp: serve_def split: prod.splits sum.splits)

lemma serve_inv: "db_inv (db w) \<Longrightarrow> db_inv (db (snd (serve det e now req w)))"
  unfolding serve_db by (rule dispatch.committed)

lemma serve_stock_inv:
  "stock_inv stock (db w) \<Longrightarrow> \<not> is_sync req \<Longrightarrow> stock_inv stock (db (snd (serve det e now req w)))"
  unfolding serve_db
  using local_dispatch.committed [of stock w det e now req]
  by (simp add: get_db_def dispatch_local_def)

end
