(* ===== verification/Worker.thy ===== *)
theory Worker
  imports Stock
begin

section \<open>The expiry worker (app/workers/expiry_worker.py)\<close>

text \<open>
  One sweep of the scheduler: \<open>expire_batch\<close> with its limit of 100 in a session of its own,
  committed when it returns, rolled back and logged when it raises.  The scheduler itself
  is APScheduler's; what the module keeps is a reference to the last one it started.
\<close>

definition sweep_limit :: int where
  "sweep_limit = 100"

definition run_expiry_sweep :: "env \<Rightarrow> int \<Rightarrow> world \<Rightarrow> world" where
  "run_expiry_sweep e now w =
     (case expire_batch e now sweep_limit w of
        (Inr count, w') \<Rightarrow> w'
      | (Inl x, w') \<Rightarrow> w'\<lparr>db := rollback (db w) (db w')\<rparr>)"

lemma sweep_get_db: "run_expiry_sweep e now w = snd (get_db (expire_batch e now sweep_limit) w)"
  by (auto simp: run_expiry_sweep_def get_db_def split: prod.splits sum.splits)

lemma sweep_inv: "db_inv (db w) \<Longrightarrow> db_inv (db (run_expiry_sweep e now w))"
  unfolding sweep_get_db by (rule expire_batch.committed)

lemma sweep_stock_inv:
  "stock_inv stock (db w) \<Longrightarrow> stock_inv stock (db (run_expiry_sweep e now w))"
  by (auto simp: run_expiry_sweep_def intro: expire_batch_stock stock_inv_rollback
      split: prod.splits sum.splits)
     (metis expire_batch_counters snd_conv stock_inv_rollback)

subsection \<open>What a batch expires\<close>

lemma expire_rows_reservations:
  "reservations (fold expire_row ris d) =
     map (\<lambda>r. if res_id r \<in> (res_id \<circ> fst) ` set ris then set_status Expired r else r) (reservations d)"
  by (induction ris arbitrary: d)
     (auto simp: expire_row_def frame_simps upd_by_def set_status_def intro!: map_cong)

lemma expired_ids:
  "(res_id \<circ> fst) ` set (get_expired_pending now d limit) =
     res_id ` set (take (nat limit) (filter (past_ttl now) (reservations d)))"
  by (simp add: get_expired_pending_def image_image)

text \<open>Marking the first \<open>n\<close> elements with a property takes them out of it, and no others.\<close>

lemma filter_mark_taken:
  assumes "distinct (map key xs)" and "\<And>x. \<not> P (f x)"
  shows "filter P (map (\<lambda>x. if key x \<in> key ` set (take n (filter P xs)) then f x else x) xs) =
    drop n (filter P xs)"
  using assms(1)
proof (induction xs arbitrary: n)
  case Nil
  then show ?case by simp
next
  case (Cons x xs)
  have other: "key y \<noteq> key x" if "y \<in> set xs" for y using Cons.prems that by (auto simp: image_iff)
  have notin: "key x \<notin> key ` set (take m (filter P xs))" for m
    using other by (force dest: in_set_takeD)
  show ?case
  proof (cases "P x \<and> 0 < n")
    case True
    then obtain m where n: "n = Suc m" by (cases n) auto
    have eq: "map (\<lambda>y. if key y = key x \<or> key y \<in> key ` set (take m (filter P xs)) then f y else y) xs =
        map (\<lambda>y. if key y \<in> key ` set (take m (filter P xs)) then f y else y) xs"
      using other by (intro map_cong) auto
    have "filter P (map (\<lambda>y. if key y \<in> key ` set (take n (filter P (x # xs))) then f y else y) (x # xs)) =
        filter P (map (\<lambda>y. if key y = key x \<or> key y \<in> key ` set (take m (filter P xs)) then f y else y) xs)"
      using True assms(2) by (simp add: n)
    also have "\<dots> = drop m (filter P xs)" unfolding eq using Cons by simp
    finally show ?thesis using True by (simp add: n)
  next
    case False
    then show ?thesis using Cons notin by auto
  qed
qed

lemma expire_batch_remaining:
  assumes "expire_batch e now limit w = (Inr n, w')" and "db_inv (db w)"
  shows "filter (past_ttl now) (reservations (db w')) =
    drop (nat limit) (filter (past_ttl now) (reservations (db w)))"
proof -
  have dist: "distinct (map res_id (reservations (db w)))"
    using db_inv_keys [OF assms(2)] by (simp add: keys_ok_def)
  have "\<not> past_ttl now (set_status Expired r)" for r by (simp add: past_ttl_def)
  then show ?thesis
    unfolding expire_batch_close(1) [OF assms] expire_rows_reservations expired_ids
    by (rule filter_mark_taken [OF dist])
qed

subsection \<open>When a batch returns\<close>

text \<open>
  The only call outside the \<open>try\<close> of \<open>_release_items\<close> is the one that resolves the
  adapter.  It needs the provider's row and a complete \<open>auth_config\<close>.
\<close>

definition resolvable :: "database \<Rightarrow> reservation_item \<Rightarrow> bool" where
  "resolvable d t \<longleftrightarrow>
     (\<exists>p hs. get_provider d (item_provider_id t) = Some p \<and> prov_type p = external \<and>
        build_auth_headers (case auth_config p of None \<Rightarrow> [] | Some ac \<Rightarrow> ac) = Inr hs)"

definition releasable :: "database \<Rightarrow> reservation_item list \<Rightarrow> bool" where
  "releasable d ts \<longleftrightarrow> (\<forall>t \<in> set ts. \<not> item_done t \<longrightarrow> held_ref t \<noteq> None \<longrightarrow> resolvable d t)"

lemma release_at_provider_returns:
  assumes "held_ref t \<noteq> None \<longrightarrow> resolvable (db w) t"
  shows "\<exists>w'. release_at_provider e t w = (Inr (), w')"
proof (cases "held_ref t")
  case None
  then show ?thesis by (simp add: release_at_provider_def)
next
  case (Some ref)
  then obtain p hs where p: "get_provider (db w) (item_provider_id t) = Some p" "prov_type p = external"
    and hs: "build_auth_headers (case auth_config p of None \<Rightarrow> [] | Some ac \<Rightarrow> ac) = Inr hs"
    using assms by (auto simp: resolvable_def)
  obtain a where "registry_resolve (Some p) None = Inr a"
    using p(2) by (simp add: registry_resolve_def external_init_def hs)
  then show ?thesis using Some p(1)
    by (cases "release_hold e a ref w") (simp add: release_at_provider_def)
qed

lemma release_item_returns:
  assumes "\<not> item_done t \<longrightarrow> held_ref t \<noteq> None \<longrightarrow> resolvable (db w) t"
  shows "\<exists>w'. release_item e t w = (Inr (), w')"
proof (cases "item_done t")
  case False
  have "resolvable (db (on_db (return_stock t) w)) t = resolvable (db w) t"
    by (simp add: resolvable_def get_provider_def frame_simps)
  then show ?thesis
    using False release_at_provider_returns [of t "on_db (return_stock t) w" e] assms
    by (auto simp: release_item_def)
qed (simp add: release_item_def)

lemma release_items_returns:
  "releasable (db w) ts \<Longrightarrow> \<exists>w'. release_items e ts w = (Inr (), w')"
proof (induction ts arbitrary: w)
  case Nil
  then show ?case by simp
next
  case (Cons t ts)
  obtain w1 where w1: "release_item e t w = (Inr (), w1)"
    using Cons.prems release_item_returns [of t w e] by (auto simp: releasable_def)
  have "providers (db w1) = providers (db w)"
    by (simp add: release_item_db [OF w1] frame_simps)
  then have "releasable (db w1) ts"
    using Cons.prems by (simp add: releasable_def resolvable_def get_provider_def)
  from Cons.IH [OF this] w1 show ?case by simp
qed

lemma expire_all_returns:
  "\<forall>ri \<in> set ris. releasable (db w) (snd ri) \<Longrightarrow> \<exists>w'. expire_all e ris w = (Inr (), w')"
proof (induction ris arbitrary: w)
  case Nil
  then show ?case by simp
next
  case (Cons ri ris)
  obtain w1 where w1: "release_items e (snd ri) w = (Inr (), w1)"
    using Cons.prems release_items_returns [of w "snd ri" e] by auto
  let ?w = "on_db (upd_reservation (res_id (fst ri)) (set_status Expired)) w1"
  have "providers (db ?w) = providers (db w)"
    by (simp add: release_items_db [OF w1] frame_simps)
  then have "\<forall>ri \<in> set ris. releasable (db ?w) (snd ri)"
    using Cons.prems by (simp add: releasable_def resolvable_def get_provider_def)
  from Cons.IH [OF this] w1 show ?case by (simp add: release_and_set_def)
qed

lemma expire_batch_returns:
  assumes "releasable (db w) (reservation_items (db w))"
  shows "\<exists>n w'. expire_batch e now limit w = (Inr n, w')"
proof -
  have "\<forall>ri \<in> set (get_expired_pending now (db w) limit). releasable (db w) (snd ri)"
    using assms by (auto simp: get_expired_pending_def releasable_def items_of_def)
  from expire_all_returns [OF this, of e] show ?thesis by (auto simp: expire_batch_def Let_def)
qed

lemma releasable_expire_row:
  assumes "releasable d (reservation_items d)"
  shows "releasable (expire_row ri d) (reservation_items (expire_row ri d))"
proof -
  have "reservation_items (expire_row ri d) = map (\<lambda>t. if item_id t \<in>
      item_id ` set (items_of d (res_id (fst ri))) then set_provider_status Released t else t) (reservation_items d)"
    by (simp add: expire_row_def close_reservation_def frame_simps close_rows_items)
  moreover have "providers (expire_row ri d) = providers d"
    by (simp add: expire_row_def frame_simps)
  ultimately show ?thesis
    using assms by (auto simp: releasable_def resolvable_def get_provider_def)
qed

lemma releasable_expire_rows:
  "releasable d (reservation_items d) \<Longrightarrow>
     releasable (fold expire_row ris d) (reservation_items (fold expire_row ris d))"
  by (induction ris arbitrary: d) (simp_all add: releasable_expire_row)

text \<open>One sweep, then any number of them: each takes the first hundred expired reservations.\<close>

lemma sweep_progress:
  assumes "db_inv (db w)" and "releasable (db w) (reservation_items (db w))"
  shows "filter (past_ttl now) (reservations (db (run_expiry_sweep e now w))) =
      drop 100 (filter (past_ttl now) (reservations (db w)))"
    and "releasable (db (run_expiry_sweep e now w)) (reservation_items (db (run_expiry_sweep e now w)))"
proof -
  obtain n w' where run: "expire_batch e now sweep_limit w = (Inr n, w')"
    using expire_batch_returns [OF assms(2)] by blast
  then have w': "run_expiry_sweep e now w = w'" by (simp add: run_expiry_sweep_def)
  show "filter (past_ttl now) (reservations (db (run_expiry_sweep e now w))) =
      drop 100 (filter (past_ttl now) (reservations (db w)))"
    using expire_batch_remaining [OF run assms(1)] by (simp add: w' sweep_limit_def)
  show "releasable (db (run_expiry_sweep e now w)) (reservation_items (db (run_expiry_sweep e now w)))"
    unfolding w' expire_batch_close(1) [OF run assms(1)] by (rule releasable_expire_rows [OF assms(2)])
qed

lemma sweeps_progress:
  assumes "db_inv (db w)" and "releasable (db w) (reservation_items (db w))"
  shows "filter (past_ttl now) (reservations (db ((run_expiry_sweep e now ^^ n) w))) =
      drop (100 * n) (filter (past_ttl now) (reservations (db w))) \<and>
    db_inv (db ((run_expiry_sweep e now ^^ n) w)) \<and>
    releasable (db ((run_expiry_sweep e now ^^ n) w)) (reservation_items (db ((run_expiry_sweep e now ^^ n) w)))"
proof (induction n)
  case 0
  then show ?case using assms by simp
next
  case (Suc n)
  then show ?case
    using sweep_progress [where w = "(run_expiry_sweep e now ^^ n) w" and now = now and e = e]
    by (simp add: sweep_inv add.commute)
qed

subsection \<open>A reservation whose provider cannot be resolved\<close>

text \<open>
  When the adapter of one held item among the expired reservations cannot be built, the
  exception leaves \<open>expire_batch\<close> and the sweep rolls back everything.
\<close>

lemma release_items_raise:
  assumes "t \<in> set ts" and "held_ref t \<noteq> None" and "\<not> resolvable (db w) t"
    and "booking (get_provider (db w) (item_provider_id t)) = 0"
  shows "\<exists>x w'. release_items e ts w = (Inl x, w')"
proof -
  have item: "\<exists>x w'. release_item e t v = (Inl x, w')" if "providers (db v) = providers (db w)" for v
  proof -
    have gp: "get_provider (return_stock t (db v)) = get_provider (db w)"
      using that by (simp add: fun_eq_iff get_provider_def frame_simps)
    obtain ref where ref: "held_ref t = Some ref" using assms(2) by auto
    have "\<exists>x. registry_resolve (get_provider (db w) (item_provider_id t)) None = Inl x"
    proof (cases "get_provider (db w) (item_provider_id t)")
      case None
      then show ?thesis by (simp add: registry_resolve_def)
    next
      case (Some p)
      let ?h = "build_auth_headers (case auth_config p of None \<Rightarrow> [] | Some ac \<Rightarrow> ac)"
      have "prov_type p = external"
        using assms(4) Some by (cases "prov_type p") (simp_all add: booking_def)
      moreover obtain x where "?h = Inl x"
        using assms(3) Some calculation by (cases ?h) (auto simp: resolvable_def)
      ultimately show ?thesis using Some by (simp add: registry_resolve_def external_init_def)
    qed
    moreover have "\<not> item_done t" using assms(2) by (auto simp: held_ref_def item_done_def split: if_splits)
    ultimately show ?thesis
      by (auto simp: release_item_def release_at_provider_def ref gp)
  qed
  have "\<exists>x w'. release_items e ts v = (Inl x, w')" if "providers (db v) = providers (db w)" for v
    using that assms(1)
  proof (induction ts arbitrary: v)
    case Nil
    then show ?case by simp
  next
    case (Cons t' ts)
    obtain res v1 where r: "release_item e t' v = (res, v1)" by (cases "release_item e t' v")
    show ?case
    proof (cases res)
      case (Inl x)
      then show ?thesis using r by simp
    next
      case (Inr u)
      then have "t' \<noteq> t" using item [OF Cons.prems(1)] r by auto
      moreover have "providers (db v1) = providers (db w)"
        using release_item_db [of e t' v u v1] r Inr Cons.prems(1) by (simp add: frame_simps)
      ultimately show ?thesis using Cons r Inr by auto
    qed
  qed
  then show ?thesis by simp
qed

lemma expire_all_raise:
  assumes "ri \<in> set ris" and "t \<in> set (snd ri)" and "held_ref t \<noteq> None" and "\<not> resolvable (db w) t"
    and "booking (get_provider (db w) (item_provider_id t)) = 0"
  shows "\<exists>x w'. expire_all e ris w = (Inl x, w')"
  using assms
proof (induction ris arbitrary: w)
  case Nil
  then show ?case by simp
next
  case (Cons r ris)
  obtain res w1 where run: "release_and_set e Expired r w = (res, w1)" by (cases "release_and_set e Expired r w")
  show ?case
  proof (cases res)
    case (Inl x)
    then show ?thesis using run by simp
  next
    case (Inr u)
    then obtain w2 where w2: "release_items e (snd r) w = (Inr (), w2)"
      and w1: "w1 = on_db (upd_reservation (res_id (fst r)) (set_status Expired)) w2"
      using run by (auto simp: release_and_set_def split: prod.splits sum.splits)
    then have "r \<noteq> ri" using release_items_raise [OF Cons.prems(2-5), of e] by auto
    moreover have "providers (db w1) = providers (db w)"
      by (simp add: w1 release_items_db [OF w2] frame_simps)
    ultimately show ?thesis
      using Cons.IH [of w1] Cons.prems run Inr by (auto simp: resolvable_def get_provider_def)
  qed
qed

end
