(* ===== verification/System.thy ===== *)
theory System
  imports Api Worker
begin

section \<open>The system: requests and sweeps, one after the other\<close>

text \<open>
  A run of the program: requests of the API and sweeps of the worker, each at its own clock
  reading, each in a transaction of its own, in any order.  Transactions that overlap are not
  interleaved here.
\<close>

datatype event = Request request | Sweep

inductive step :: "validation_details \<Rightarrow> env \<Rightarrow> world \<Rightarrow> int \<times> event \<Rightarrow> world \<Rightarrow> bool"
  for det e where
  request: "serve det e now req w = (rep, w') \<Longrightarrow> step det e w (now, Request req) w'"
| sweep: "run_expiry_sweep e now w = w' \<Longrightarrow> step det e w (now, Sweep) w'"

inductive reachable :: "validation_details \<Rightarrow> env \<Rightarrow> world \<Rightarrow> (int \<times> event) list \<Rightarrow> world \<Rightarrow> bool"
  for det e w0 where
  start: "reachable det e w0 [] w0"
| more: "reachable det e w0 tr w \<Longrightarrow> step det e w ev w' \<Longrightarrow> reachable det e w0 (tr @ [ev]) w'"

inductive_simps step_iff: "step det e w ev w'"

inductive_cases reachable_snocE: "reachable det e w0 (tr @ [ev]) w"

text \<open>The same runs, computed: the system is deterministic once the environment is.\<close>

fun advance :: "validation_details \<Rightarrow> env \<Rightarrow> int \<times> event \<Rightarrow> world \<Rightarrow> world" where
  "advance det e (now, Request req) w = snd (serve det e now req w)"
| "advance det e (now, Sweep) w = run_expiry_sweep e now w"

definition after :: "validation_details \<Rightarrow> env \<Rightarrow> (int \<times> event) list \<Rightarrow> world \<Rightarrow> world" where
  "after det e tr w = fold (advance det e) tr w"

lemma step_advance: "step det e w ev w' \<longleftrightarrow> w' = advance det e ev w"
proof (cases ev)
  case (Pair now x)
  show ?thesis
  proof (cases x)
    case (Request req)
    then show ?thesis
      by (cases "serve det e now req w") (auto simp: Pair step_iff)
  qed (auto simp: Pair step_iff)
qed

lemma reachable_after: "reachable det e w0 tr w \<longleftrightarrow> w = after det e tr w0"
proof (induction tr arbitrary: w rule: rev_induct)
  case Nil
  show ?case by (auto simp: after_def intro: reachable.start elim: reachable.cases)
next
  case (snoc ev tr)
  show ?case
  proof
    assume "reachable det e w0 (tr @ [ev]) w"
    then obtain w1 where "reachable det e w0 tr w1" "step det e w1 ev w" by (rule reachable_snocE)
    then show "w = after det e (tr @ [ev]) w0" using snoc by (simp add: after_def step_advance)
  next
    assume "w = after det e (tr @ [ev]) w0"
    then have "step det e (after det e tr w0) ev w" by (simp add: after_def step_advance)
    then show "reachable det e w0 (tr @ [ev]) w" using snoc by (intro reachable.more) auto
  qed
qed

subsection \<open>Invariants of a run\<close>

lemma step_inv: "step det e w ev w' \<Longrightarrow> db_inv (db w) \<Longrightarrow> db_inv (db w')"
  by (auto simp: step_iff intro: sweep_inv) (metis serve_inv snd_conv)

lemma reachable_inv: "reachable det e w0 tr w \<Longrightarrow> db_inv (db w0) \<Longrightarrow> db_inv (db w)"
  by (induction rule: reachable.induct) (auto intro: step_inv)

definition local_event :: "int \<times> event \<Rightarrow> bool" where
  "local_event ev = (case snd ev of Request req \<Rightarrow> \<not> is_sync req | Sweep \<Rightarrow> True)"

lemma step_stock_inv:
  "step det e w ev w' \<Longrightarrow> local_event ev \<Longrightarrow> stock_inv stock (db w) \<Longrightarrow> stock_inv stock (db w')"
  by (auto simp: step_iff local_event_def intro: sweep_stock_inv) (metis serve_stock_inv snd_conv)

lemma reachable_stock_inv:
  "reachable det e w0 tr w \<Longrightarrow> list_all local_event tr \<Longrightarrow> stock_inv stock (db w0) \<Longrightarrow>
     stock_inv stock (db w)"
  by (induction rule: reachable.induct) (auto intro: step_stock_inv)

subsection \<open>The life of a reservation\<close>

inductive moves :: "reservation_status \<Rightarrow> reservation_status \<Rightarrow> bool" where
  stay: "moves s s"
| settle: "s \<noteq> Pending \<Longrightarrow> moves Pending s"

inductive_simps moves_iff [simp]: "moves s s'"

text \<open>The life cycle is an order, with the settled statuses above \<open>Pending\<close>.\<close>

instantiation reservation_status :: order
begin

definition less_eq_reservation_status :: "reservation_status \<Rightarrow> reservation_status \<Rightarrow> bool" where
  "less_eq_reservation_status s t \<longleftrightarrow> moves s t"

definition less_reservation_status :: "reservation_status \<Rightarrow> reservation_status \<Rightarrow> bool" where
  "less_reservation_status s t \<longleftrightarrow> moves s t \<and> s \<noteq> t"

instance
  by standard (auto simp: less_eq_reservation_status_def less_reservation_status_def)

end

lemma status_le_iff [simp]: "s \<le> t \<longleftrightarrow> s = t \<or> s = Pending" for s t :: reservation_status
  by (auto simp: less_eq_reservation_status_def)

text \<open>
  One state of the database after another: reservations and orders are never lost, a
  reservation keeps everything but its status, and its status moves.
\<close>

definition same_reservation :: "reservation \<Rightarrow> reservation \<Rightarrow> bool" where
  "same_reservation r r' \<longleftrightarrow> (\<exists>s. r' = set_status s r \<and> res_status r \<le> s)"

definition advances :: "database \<Rightarrow> database \<Rightarrow> bool" where
  "advances d d' \<longleftrightarrow>
     (\<forall>r \<in> set (reservations d). \<exists>r' \<in> set (reservations d'). same_reservation r r') \<and>
     set (orders d) \<subseteq> set (orders d')"

lemma set_status_same [simp]: "set_status (res_status r) r = r"
  by (simp add: set_status_def)

lemma same_reservation_refl [simp]: "same_reservation r r"
  unfolding same_reservation_def by (rule exI [of _ "res_status r"]) simp

lemma set_status_twice [simp]: "set_status b (set_status a r) = set_status b r"
  by (simp add: set_status_def)

lemma same_reservation_trans:
  assumes "same_reservation a b" and "same_reservation b c"
  shows "same_reservation a c"
proof -
  obtain s where s: "b = set_status s a" "res_status a \<le> s"
    using assms(1) unfolding same_reservation_def by blast
  obtain s' where s': "c = set_status s' b" "res_status b \<le> s'"
    using assms(2) unfolding same_reservation_def by blast
  have "c = set_status s' a" using s s' by simp
  moreover have "res_status a \<le> s'"
    using order_trans [OF s(2), of s'] s s' by (simp add: set_status_def)
  ultimately show ?thesis unfolding same_reservation_def by blast
qed

lemma advances_sub:
  assumes "set (reservations d) \<subseteq> set (reservations d')" and "set (orders d) \<subseteq> set (orders d')"
  shows "advances d d'"
  unfolding advances_def using assms same_reservation_refl by blast

lemma advances_refl [simp]: "advances d d"
  by (simp add: advances_sub)

lemma advances_trans: "advances a b \<Longrightarrow> advances b c \<Longrightarrow> advances a c"
  unfolding advances_def by (meson same_reservation_trans subset_trans)

lemma advances_rollback [simp]: "advances d (rollback d d')"
  by (simp add: advances_sub frame_simps)

lemma advances_append:
  assumes "reservations d' = reservations d @ rs" and "set (orders d) \<subseteq> set (orders d')"
  shows "advances d d'"
  using assms by (intro advances_sub) auto

lemma advances_close:
  assumes "keys_ok d" and "r \<in> set (reservations d)" and "res_status r = Pending" and "S \<noteq> Pending"
    and "reservations d' = reservations (close_reservation s f S r d)" and "set (orders d) \<subseteq> set (orders d')"
  shows "advances d d'"
  unfolding advances_def
proof (intro conjI ballI)
  fix x assume x: "x \<in> set (reservations d)"
  show "\<exists>r' \<in> set (reservations d'). same_reservation x r'"
  proof (cases "res_id x = res_id r")
    case True
    then have "x = r" using reservation_unique [OF assms(1) x assms(2)] by simp
    then have "same_reservation x (set_status S x)"
      unfolding same_reservation_def using assms(3,4) by auto
    moreover have "set_status S x \<in> set (reservations d')"
      using x True by (auto simp: assms(5) frame_simps set_upd_by intro!: image_eqI [of _ _ x])
    ultimately show ?thesis by blast
  next
    case False
    then have "x \<in> set (reservations d')"
      using x by (auto simp: assms(5) frame_simps set_upd_by intro!: image_eqI [of _ _ x])
    then show ?thesis by (intro bexI [of _ x]) simp_all
  qed
qed (rule assms(6))

lemma create_advances:
  "create e now user its w = (Inr r, w') \<Longrightarrow> keys_ok (db w) \<Longrightarrow> advances (db w) (db w')"
  by (erule create_InrD) (auto simp: frame_simps intro: advances_append)

lemma cancel_advances:
  assumes "cancel e rid w = (Inr u, w')" and "db_inv (db w)"
  shows "advances (db w) (db w')"
  using assms(1) db_inv_status [OF assms(2)]
proof (cases rule: cancel_cases)
  case (released r)
  then show ?thesis
    by (intro advances_close [OF db_inv_keys [OF assms(2)] released(1,3), of Cancelled])
       (simp_all add: frame_simps)
qed simp

lemma confirm_advances:
  assumes "confirm e now rid w = (Inr ord, w')" and "db_inv (db w)"
  shows "advances (db w) (db w')"
  using assms(1)
proof (rule confirm_InrD)
  fix r
  let ?c = "close_reservation ItemConfirmed consume Confirmed r (db w)"
  assume r: "r \<in> set (reservations (db w))" "res_status r = Pending"
    and add: "add_order (new_order r now) ?c = (Inr ord, db w')"
  have "reservations d' = reservations d \<and> set (orders d) \<subseteq> set (orders d')"
    if "add_order (new_order r now) d = (Inr ord, d')" for d d'
    using that by (auto simp: add_order_def Let_def split: if_splits)
  from this [OF add] show ?thesis
    by (intro advances_close [OF db_inv_keys [OF assms(2)] r, of Confirmed]) (simp_all add: frame_simps)
qed

lemma expire_rows_advances:
  assumes "\<forall>r \<in> set (reservations d). res_id r \<in> (res_id \<circ> fst) ` set ris \<longrightarrow> res_status r = Pending"
  shows "advances d (fold expire_row ris d)"
proof -
  have "orders (fold expire_row ris d) = orders d"
    by (induction ris arbitrary: d) (simp_all add: expire_row_def frame_simps)
  moreover have "\<exists>r' \<in> set (reservations (fold expire_row ris d)). same_reservation r r'"
    if r: "r \<in> set (reservations d)" for r
  proof -
    let ?r = "if res_id r \<in> (res_id \<circ> fst) ` set ris then set_status Expired r else r"
    have "?r \<in> set (reservations (fold expire_row ris d))"
      using r by (auto simp: expire_rows_reservations intro!: image_eqI [of _ _ r])
    moreover have "same_reservation r ?r"
      using assms r by (auto simp: same_reservation_def intro: exI [of _ Expired] exI [of _ "res_status r"])
    ultimately show ?thesis by blast
  qed
  ultimately show ?thesis by (simp add: advances_def)
qed

lemma expire_batch_advances:
  assumes "expire_batch e now limit w = (Inr n, w')" and "db_inv (db w)"
  shows "advances (db w) (db w')"
  unfolding expire_batch_close(1) [OF assms]
proof (rule expire_rows_advances, intro ballI impI)
  fix r assume r: "r \<in> set (reservations (db w))"
    and "res_id r \<in> (res_id \<circ> fst) ` set (get_expired_pending now (db w) limit)"
  then obtain x where "x \<in> set (take (nat limit) (filter (past_ttl now) (reservations (db w))))"
    "res_id x = res_id r"
    unfolding expired_ids by auto
  then have "x \<in> set (reservations (db w))" "past_ttl now x" "x = r"
    using reservation_unique [OF db_inv_keys [OF assms(2)] _ r] by (auto dest!: in_set_takeD)
  then show "res_status r = Pending" by (simp add: past_ttl_def)
qed

lemma step_advances:
  assumes "step det e w ev w'" and inv: "db_inv (db w)"
  shows "advances (db w) (db w')"
  using assms(1)
proof cases
  case (request now req rep)
  note keys = db_inv_keys [OF inv]
  obtain res w1 where run: "dispatch det e now req w = (res, w1)" by (cases "dispatch det e now req w")
  show ?thesis
  proof (cases res)
    case (Inl x)
    then show ?thesis using request(2) run by (auto simp: serve_def get_db_def)
  next
    case (Inr rep')
    then have "w' = w1" using request(2) run by (auto simp: serve_def get_db_def)
    from run [unfolded Inr] this show ?thesis
    proof (cases rule: dispatch_cases)
      case (sync pid s)
      then have "synced pid (db w) (db w1)"
        using sync_synced keys unfolding keys_ok_def by blast
      then show ?thesis using \<open>w' = w1\<close> by (auto simp: synced_def intro: advances_append [of _ _ "[]"])
    qed (auto intro: create_advances confirm_advances cancel_advances inv keys)
  qed
next
  case (sweep now)
  then show ?thesis
    by (auto simp: run_expiry_sweep_def intro: expire_batch_advances inv split: prod.splits sum.splits)
qed

lemma reachable_advances:
  "reachable det e w0 tr w \<Longrightarrow> db_inv (db w0) \<Longrightarrow> advances (db w0) (db w)"
proof (induction rule: reachable.induct)
  case start
  then show ?case by simp
next
  case (more tr w ev w')
  then show ?case using reachable_inv step_advances advances_trans by blast
qed

end
