(* ===== verification/Sample.thy ===== *)
theory Sample
  imports System
begin

section \<open>A concrete shop\<close>

text \<open>
  Two providers, two products, one inventory row each: product 1 in an external warehouse,
  product 2 in the shop's own stock.  The environments answer every request alike:
  a warehouse that grants every hold, one that is out of stock, one that does not answer.
  The instances of the theorems are evaluated here.
\<close>

definition own_stock :: provider where
  "own_stock =
     \<lparr>prov_id = 1, prov_name = ''Shop'', prov_type = internal, capabilities = [],
      auth_config = None, base_url = None, timeout_seconds = 5, prov_is_active = True\<rparr>"

definition all_capabilities :: "(string \<times> json) list" where
  "all_capabilities =
     [(''check_stock'', JBool True), (''hold_stock'', JBool True),
      (''release_hold'', JBool True), (''confirm_hold'', JBool True)]"

definition warehouse :: provider where
  "warehouse =
     \<lparr>prov_id = 2, prov_name = ''WH'', prov_type = external, capabilities = all_capabilities,
      auth_config = Some [(''type'', ''api_key''), (''header'', ''K''), (''value'', ''v'')],
      base_url = Some ''http://w/'', timeout_seconds = 5, prov_is_active = True\<rparr>"

definition sample_row1 :: inventory where
  "sample_row1 =
     \<lparr>inv_id = 1, inv_product_id = 1, inv_provider_id = 2, qty_available = 10, qty_reserved = 0,
      last_synced_at = None\<rparr>"

definition sample_row2 :: inventory where
  "sample_row2 =
     \<lparr>inv_id = 2, inv_product_id = 2, inv_provider_id = 1, qty_available = 8, qty_reserved = 0,
      last_synced_at = None\<rparr>"

definition shop :: database where
  "shop =
     \<lparr>providers = [own_stock, warehouse],
      products = [\<lparr>prod_id = 1, prod_name = ''P'', sku = ''A''\<rparr>, \<lparr>prod_id = 2, prod_name = ''Q'', sku = ''B''\<rparr>],
      inventories = [sample_row1, sample_row2], reservations = [], reservation_items = [], orders = [],
      next_reservation_id = 1, next_item_id = 1, next_order_id = 1\<rparr>"

definition answering :: "http_outcome \<Rightarrow> env" where
  "answering out =
     \<lparr>http = (\<lambda>h r. out), py_str = (\<lambda>j. []), column_str = (\<lambda>j. []), ttl_minutes = 15, tz_aware = True\<rparr>"

definition granting :: env where
  "granting = answering (Response
     \<lparr>status_code = 200, status_error = None, body = Some (JObj [(''hold_ref'', JStr ''H''), (''qty'', JInt 7)])\<rparr>)"

definition refusing :: env where
  "refusing = answering (Response
     \<lparr>status_code = 409, status_error = Some ''409'', body = Some (JObj [(''detail'', JStr ''none left'')])\<rparr>)"

definition silent :: env where
  "silent = answering Timeout"

definition start_world :: world where
  "start_world = \<lparr>db = shop, sent = []\<rparr>"

definition no_details :: validation_details where
  "no_details req = []"

definition sample_stock :: "int \<Rightarrow> int" where
  "sample_stock i = (if i = 1 then 10 else 8)"

lemmas sample_defs = own_stock_def warehouse_def all_capabilities_def sample_row1_def sample_row2_def
  shop_def answering_def granting_def refusing_def silent_def start_world_def

lemma shop_inv: "db_inv shop"
  by code_simp

lemma shop_stock_inv: "stock_inv sample_stock shop"
  by code_simp

text \<open>A reservation of both products, then its confirmation.\<close>

definition order_both :: request where
  "order_both = CreateReservation ''ann'' [(1, 3), (2, 2)]"

definition held_world :: world where
  "held_world = after no_details granting [(0, Request order_both)] start_world"

definition sold_world :: world where
  "sold_world = after no_details granting [(0, Request order_both), (5, Request (ConfirmReservation 1))] start_world"

definition lapsed_world :: world where
  "lapsed_world = after no_details granting [(0, Request order_both), (1000000000, Sweep)] start_world"

lemma held_inv: "db_inv (db held_world)"
  by code_simp

end
