(* ===== verification/Exact.thy ===== *)
theory Exact
  imports Stock
begin

section \<open>Exact effects of closing a reservation\<close>

text \<open>
  What \<open>cancel\<close>, \<open>expire_batch\<close> and \<open>confirm\<close> do to the inventory as one change of every row,
  by the sum of the reservation's quantities on the row.  Under the ledger the
  \<open>max(0, ...)\<close> of \<open>_release_items\<close> never cuts anything off, so releasing subtracts exactly.
\<close>

definition qty_on :: "int \<Rightarrow> reservation_item list \<Rightarrow> int" where
  "qty_on i ts = sum_list (map (all_qty i) ts)"

lemma qty_on_simps [simp]:
  "qty_on i [] = 0" "qty_on i (t # ts) = all_qty i t + qty_on i ts"
  by (simp_all add: qty_on_def)

lemma qty_on_map_status [simp]: "qty_on i (map (set_provider_status s) ts) = qty_on i ts"
  by (simp add: qty_on_def comp_def)

lemma consume_consume [simp]: "consume a (consume b r) = consume (a + b) r"
  by (simp add: consume_def)

lemma consume_0 [simp]: "consume 0 r = r"
  by (simp add: consume_def)

text \<open>A change of rows that adds up: the loop is the change by the sum.\<close>

lemma close_rows_inventories:
  assumes "\<And>a b r. f a (f b r) = f (b + a) r" and "\<And>r. f 0 r = r" and "\<And>q r. inv_id (f q r) = inv_id r"
  shows "inventories (close_rows s f ts d) = map (\<lambda>x. f (qty_on (inv_id x) ts) x) (inventories d)"
proof (induction ts arbitrary: d)
  case Nil
  then show ?case by (simp add: close_rows_def assms(2))
next
  case (Cons t ts)
  have "inventories (close_rows s f (t # ts) d) = inventories (close_rows s f ts (close_row s f t d))"
    by (simp add: close_rows_def)
  also have "\<dots> = map (\<lambda>x. f (qty_on (inv_id x) (t # ts)) x) (inventories d)"
    unfolding Cons.IH by (auto simp: frame_simps upd_by_def assms all_qty_def)
  finally show ?case .
qed

lemma close_rows_consume:
  "inventories (close_rows s consume ts d) = map (\<lambda>x. consume (qty_on (inv_id x) ts) x) (inventories d)"
  by (rule close_rows_inventories) (simp_all add: add.commute)

text \<open>Releasing under the ledger: \<open>unreserve q\<close> is \<open>reserve (- q)\<close>.\<close>

definition unbook :: "int \<Rightarrow> inventory \<Rightarrow> inventory" where
  "unbook q r = reserve (- q) r"

lemma close_rows_unbook:
  "inventories (close_rows s unbook ts d) = map (\<lambda>x. unbook (qty_on (inv_id x) ts) x) (inventories d)"
  by (rule close_rows_inventories) (simp_all add: unbook_def reserve_def)

lemma close_row_exact:
  assumes core: "core adj d" and cur: "find_by item_id (item_id t) (reservation_items d) = Some t"
    and live: "\<not> item_done t" and adj: "\<And>i. 0 \<le> adj i"
  shows "close_row Released unreserve t d = close_row Released unbook t d"
proof -
  have t: "t \<in> set (reservation_items d)" using cur by (rule find_by_SomeD)
  have "unreserve (qty_requested t) r = unbook (qty_requested t) r"
    if "r \<in> set (inventories d)" "inv_id r = item_inventory_id t" for r
    using live_qty_le_live_sum [OF core t, of "inv_id r"] core_reserved_ge [OF core that(1)] that(2) live adj [of "inv_id r"]
    by (simp add: live_qty_def unreserve_def unbook_def reserve_def)
  then have "upd_by inv_id (item_inventory_id t) (unreserve (qty_requested t)) (inventories d) =
      upd_by inv_id (item_inventory_id t) (unbook (qty_requested t)) (inventories d)"
    unfolding upd_by_def by (intro map_cong) simp_all
  then show ?thesis by (simp add: close_row_def upd_inventory_def)
qed

lemma close_rows_exact:
  assumes "core adj d" and "distinct (map item_id ts)"
    and "\<forall>t \<in> set ts. find_by item_id (item_id t) (reservation_items d) = Some t \<and> \<not> item_done t"
    and adj: "\<And>i. 0 \<le> adj i"
  shows "close_rows Released unreserve ts d = close_rows Released unbook ts d"
  using assms(1-3)
proof (induction ts arbitrary: d)
  case Nil
  then show ?case by (simp add: close_rows_def)
next
  case (Cons t ts)
  let ?d = "close_row Released unreserve t d"
  have t: "find_by item_id (item_id t) (reservation_items d) = Some t" "\<not> item_done t"
    using Cons.prems(3) by auto
  have "core adj ?d"
    using close_row_core [OF Cons.prems(1) t, of Released unreserve] adj by simp
  moreover have "find_by item_id (item_id t') (reservation_items ?d) = Some t'" if "t' \<in> set ts" for t'
  proof -
    have "item_id t' \<noteq> item_id t" using Cons.prems(2) that by (auto simp: image_iff)
    then show ?thesis using Cons.prems(3) that by (simp add: frame_simps find_by_upd_other)
  qed
  ultimately have "close_rows Released unreserve ts ?d = close_rows Released unbook ts ?d"
    using Cons.prems by (intro Cons.IH) auto
  then show ?case using close_row_exact [OF Cons.prems(1) t adj] by (simp add: close_rows_def)
qed

lemma close_reservation_released_leaky:
  assumes inv: "leaky_inv adj d" and r: "r \<in> set (reservations d)" "res_status r = Pending"
  shows "inventories (close_reservation Released unreserve S r d) =
    map (\<lambda>x. reserve (- qty_on (inv_id x) (items_of d (res_id r))) x) (inventories d)"
proof -
  let ?ts = "items_of d (res_id r)"
  have "close_rows Released unreserve ?ts d = close_rows Released unbook ?ts d"
    using close_rows_exact [OF leaky_invD(2) [OF inv] items_of_current(1) [OF leaky_invD(5) [OF inv]] _ leaky_invD(1) [OF inv]]
      items_of_current(2) [OF leaky_invD(5) [OF inv]] pending_items_live [OF leaky_invD(3) [OF inv] r] by blast
  then show ?thesis
    by (simp add: close_reservation_def frame_simps close_rows_unbook) (simp add: unbook_def)
qed

lemmas close_reservation_released = close_reservation_released_leaky [OF db_inv_leaky [THEN iffD1]]

lemma close_reservation_consumed:
  "inventories (close_reservation ItemConfirmed consume S r d) =
     map (\<lambda>x. consume (qty_on (inv_id x) (items_of d (res_id r))) x) (inventories d)"
  by (simp add: close_reservation_def frame_simps close_rows_consume)

lemma close_reservation_own_items:
  assumes "keys_ok d"
  shows "items_of (close_reservation s f S r d) (res_id r) =
    map (set_provider_status s) (items_of d (res_id r))"
proof -
  have "filter (\<lambda>t. item_reservation_id t = k)
      (map (\<lambda>t. if item_reservation_id t = k then set_provider_status s t else t) ts) =
    map (set_provider_status s) (filter (\<lambda>t. item_reservation_id t = k) ts)" for k ts
    by (induction ts) auto
  then show ?thesis by (simp add: items_of_def close_reservation_items [OF assms])
qed

subsection \<open>The items of a new reservation\<close>

lemma created_items_of:
  assumes inv: "db_inv d" and r: "res_id r = next_reservation_id d"
    and ts: "list_all2 (created_item d (res_id r) lm) its ts"
  shows "items_of (create_effect r ts its lm d) (res_id r) = ts"
proof -
  have "item_reservation_id t \<noteq> res_id r" if "t \<in> set (reservation_items d)" for t
    using inv that r by (force simp: db_inv_def core_def refs_ok_def item_ok_def keys_ok_def)
  moreover have "item_reservation_id t = res_id r" if "t \<in> set ts" for t
    using created_members [OF ts that] by (auto simp: created_item_def)
  ultimately show ?thesis by (simp add: items_of_def frame_simps filter_empty_conv)
qed

lemma created_qty_on:
  "list_all2 (created_item d rid lm) its ts \<Longrightarrow> qty_on i ts = booked its lm i"
  using created_sums(2) by (simp add: qty_on_def)

end
