(* ===== verification/Outgoing.thy ===== *)
theory Outgoing
  imports System
begin

section \<open>What the operations send and raise\<close>

text \<open>
  \<open>polite M E ps w out\<close> holds of an outcome \<open>out\<close> of an operation started in \<open>w\<close> when the
  providers \<open>ps\<close> stay, the requests sent in between use the methods \<open>M\<close> and are addressed to
  a provider of \<open>ps\<close> with its own credentials, and what is raised satisfies \<open>E\<close>.
  It is proved once for each call of an adapter and carried through the loops.
\<close>

definition addressed :: "provider list \<Rightarrow> http_request \<Rightarrow> bool" where
  "addressed ps rq \<longleftrightarrow>
     (\<exists>p \<in> set ps. \<exists>a path. prov_type p = external \<and> external_init p = Inr a \<and>
        req_url rq = ext_base_url a @ path \<and> req_headers rq = ext_headers a \<and>
        req_timeout rq = timeout_seconds p)"

definition polite ::
    "http_method set \<Rightarrow> (exn \<Rightarrow> bool) \<Rightarrow> provider list \<Rightarrow> world \<Rightarrow> (exn + 'a) \<times> world \<Rightarrow> bool" where
  "polite M E ps w out \<longleftrightarrow>
     providers (db (snd out)) = ps \<and>
     (\<exists>rs. sent (snd out) = sent w @ rs \<and> (\<forall>rq \<in> set rs. req_method rq \<in> M \<and> addressed ps rq)) \<and>
     (case fst out of Inl x \<Rightarrow> E x | Inr _ \<Rightarrow> True)"

lemma polite_same: "providers (db w) = ps \<Longrightarrow> (case res of Inl x \<Rightarrow> E x | Inr _ \<Rightarrow> True) \<Longrightarrow> polite M E ps w (res, w)"
  by (simp add: polite_def)

lemma polite_trans:
  "polite M E ps w (res, w1) \<Longrightarrow> polite M E ps w1 out \<Longrightarrow> polite M E ps w out"
  by (fastforce simp: polite_def)

lemma polite_start: "sent w1 = sent w \<Longrightarrow> polite M E ps w1 out \<Longrightarrow> polite M E ps w out"
  by (simp add: polite_def)

lemma polite_result:
  assumes "polite M E ps w (res, w1)" and "providers (db w2) = providers (db w1)" and "sent w2 = sent w1"
    and "case res' of Inl x \<Rightarrow> E' x | Inr _ \<Rightarrow> True"
  shows "polite M E' ps w (res', w2)"
  using assms by (simp add: polite_def)

lemma polite_case:
  assumes "polite M E ps w (res, w1)"
    and "\<And>x. res = Inl x \<Longrightarrow> out = (Inl x, w1)" and "\<And>u. res = Inr u \<Longrightarrow> out = (Inr (f u), w2)"
    and "providers (db w2) = providers (db w1)" and "sent w2 = sent w1"
  shows "polite M E ps w out"
proof (cases res)
  case (Inl x)
  then show ?thesis using assms(1,2) by (simp add: polite_def)
next
  case (Inr u)
  then show ?thesis using assms(1,4,5) assms(3) [OF Inr] by (simp add: polite_def)
qed

lemma polite_raise: "polite M E ps w (Inl x, w1) \<Longrightarrow> E x"
  by (simp add: polite_def)

lemma polite_providers: "polite M E ps w (res, w1) \<Longrightarrow> providers (db w1) = ps"
  by (simp add: polite_def)

lemma polite_weaken:
  "polite M E ps w out \<Longrightarrow> M \<subseteq> M' \<Longrightarrow> (\<And>x. E x \<Longrightarrow> E' x) \<Longrightarrow> polite M' E' ps w out"
  by (fastforce simp: polite_def split: sum.splits)

text \<open>Exceptions below the application: no handler of its own, and none of the framework's.\<close>

fun low :: "exn \<Rightarrow> bool" where
  "low (HTTPException c d h) \<longleftrightarrow> False"
| "low (RequestValidationError errs) \<longleftrightarrow> False"
| "low x \<longleftrightarrow> \<not> is_app_error x"

subsection \<open>The adapters\<close>

lemma external_initD:
  assumes "external_init p = Inr a"
  shows "build_auth_headers (case auth_config p of None \<Rightarrow> [] | Some ac \<Rightarrow> ac) = Inr (ext_headers a)"
    and "ext_base_url a = rstrip (CHR ''/'') (case base_url p of None \<Rightarrow> [] | Some u \<Rightarrow> u)"
  using assms by (auto simp: external_init_def split: sum.splits)

lemma external_init_timeout: "external_init p = Inr a \<Longrightarrow> ext_timeout a = timeout_seconds p"
  by (auto simp: external_init_def split: sum.splits)

lemma addressed_request:
  assumes "p \<in> set ps" and "prov_type p = external" and "external_init p = Inr a"
  shows "addressed ps (client_request a m path j)"
  unfolding addressed_def
  by (rule bexI [OF _ assms(1)])
     (use assms in \<open>auto simp: client_request_def external_init_timeout\<close>)

lemma client_request_method [simp]: "req_method (client_request a m path j) = m"
  by (simp add: client_request_def)

lemma require_capability_low: "require_capability a c = Some x \<Longrightarrow> low x"
  by (auto simp: require_capability_def split: if_splits)

lemma json_index_low: "json_index r k = Inl x \<Longrightarrow> low x"
  by (auto simp: json_index_def split: option.splits json.splits)

lemma json_get_low: "json_get r k = Inl x \<Longrightarrow> low x"
  by (auto simp: json_get_def split: option.splits json.splits)

lemma py_int_low: "py_int v = Inl x \<Longrightarrow> low x"
  by (cases v) (auto simp: int_of_text_def split: option.splits prod.splits if_splits)

lemma registry_resolve_low: "registry_resolve po ro = Inl x \<Longrightarrow> low x"
  by (auto simp: registry_resolve_def external_init_def build_auth_headers_def
      split: option.splits if_splits sum.splits)

text \<open>The adapter was made from a provider of \<open>ps\<close>.\<close>

definition made_from :: "provider list \<Rightarrow> adapter \<Rightarrow> bool" where
  "made_from ps a \<longleftrightarrow>
     (case a of InternalAdapter _ \<Rightarrow> True
      | ExternalAdapter x \<Rightarrow> \<exists>p \<in> set ps. prov_type p = external \<and> external_init p = Inr x)"

lemma resolve_made_from:
  assumes "registry_resolve (get_provider d k) ro = Inr a" and "providers d = ps"
  shows "made_from ps a"
  using assms(1)
proof (rule registry_resolve_InrD)
  fix p
  assume p: "get_provider d k = Some p"
    and a: "(prov_type p = internal \<and> (\<exists>i. ro = Some i \<and> a = InternalAdapter i)) \<or>
      (prov_type p = external \<and> (\<exists>x. external_init p = Inr x \<and> a = ExternalAdapter x))"
  have "p \<in> set ps" using p assms(2) by (auto simp: get_provider_def dest: find_by_SomeD)
  then show ?thesis using a by (auto simp: made_from_def)
qed

lemma polite_sent:
  assumes "providers (db w1) = ps" and "sent w1 = sent w @ [rq]" and "req_method rq \<in> M"
    and "addressed ps rq" and "case res of Inl x \<Rightarrow> E x | Inr _ \<Rightarrow> True"
  shows "polite M E ps w (res, w1)"
  using assms by (simp add: polite_def)

lemma hold_stock_polite:
  assumes a: "made_from ps a" and ps: "providers (db w) = ps"
  shows "polite {POST} low ps w (hold_stock e a s q rid w)"
proof (cases a)
  case (InternalAdapter i)
  then show ?thesis using ps
    by (auto simp: hold_stock_def int_hold_stock_def Let_def polite_def frame_simps split: option.splits)
next
  case (ExternalAdapter x)
  then obtain p where p: "p \<in> set ps" "prov_type p = external" "external_init p = Inr x"
    using a by (auto simp: made_from_def)
  show ?thesis
  proof (cases "require_capability x ''hold_stock''")
    case None
    then show ?thesis
      unfolding hold_stock_def ExternalAdapter
      by (auto simp: ext_hold_stock_def send_def ps addressed_request [OF p] intro!: polite_sent
          dest: json_get_low split: http_outcome.splits option.splits sum.splits)
  next
    case (Some y)
    then show ?thesis using require_capability_low [OF Some] ps
      by (simp add: hold_stock_def ExternalAdapter ext_hold_stock_def polite_same)
  qed
qed

lemma confirm_hold_polite:
  assumes a: "made_from ps a" and ps: "providers (db w) = ps"
  shows "polite {POST} low ps w (confirm_hold e a ref w)"
proof (cases a)
  case (InternalAdapter i)
  then show ?thesis using ps by (simp add: confirm_hold_def int_confirm_hold_def polite_same)
next
  case (ExternalAdapter x)
  then obtain p where p: "p \<in> set ps" "prov_type p = external" "external_init p = Inr x"
    using a by (auto simp: made_from_def)
  show ?thesis
  proof (cases "require_capability x ''confirm_hold''")
    case None
    then show ?thesis
      unfolding confirm_hold_def ExternalAdapter
      by (auto simp: ext_confirm_hold_def send_def ps addressed_request [OF p] intro!: polite_sent
          split: http_outcome.splits option.splits)
  next
    case (Some y)
    then show ?thesis using require_capability_low [OF Some] ps
      by (simp add: confirm_hold_def ExternalAdapter ext_confirm_hold_def polite_same)
  qed
qed

lemma release_hold_polite:
  assumes a: "made_from ps a" and ps: "providers (db w) = ps"
  shows "polite {DELETE} low ps w (release_hold e a ref w)"
proof (cases a)
  case (InternalAdapter i)
  then show ?thesis using ps by (simp add: release_hold_def int_release_hold_def polite_same)
next
  case (ExternalAdapter x)
  then obtain p where p: "p \<in> set ps" "prov_type p = external" "external_init p = Inr x"
    using a by (auto simp: made_from_def)
  show ?thesis
  proof (cases "require_capability x ''release_hold''")
    case None
    then show ?thesis
      unfolding release_hold_def ExternalAdapter
      by (auto simp: ext_release_hold_def send_def ps addressed_request [OF p] intro!: polite_sent
          split: http_outcome.splits)
  next
    case (Some y)
    then show ?thesis using require_capability_low [OF Some] ps
      by (simp add: release_hold_def ExternalAdapter ext_release_hold_def polite_same)
  qed
qed

lemma check_stock_polite:
  assumes a: "made_from ps a" and ps: "providers (db w) = ps"
  shows "polite {GET} low ps w (check_stock e a s w)"
proof (cases a)
  case (InternalAdapter i)
  then show ?thesis using ps
    by (auto simp: check_stock_def int_check_stock_def polite_def split: option.splits)
next
  case (ExternalAdapter x)
  then obtain p where p: "p \<in> set ps" "prov_type p = external" "external_init p = Inr x"
    using a by (auto simp: made_from_def)
  show ?thesis
    unfolding check_stock_def ExternalAdapter
    by (auto simp: ext_check_stock_def send_def ps addressed_request [OF p] intro!: polite_sent
        dest: json_index_low py_int_low split: http_outcome.splits option.splits sum.splits)
qed

end
