(* ===== verification/Conversation.thy ===== *)
theory Conversation
  imports Outgoing
begin

section \<open>The operations, as conversations with the providers\<close>

text \<open>
  \<open>create\<close> and \<open>confirm\<close> only POST, releasing only DELETEs, a synchronisation only GETs,
  each to the provider it concerns; and what each operation may raise.
\<close>

subsection \<open>create\<close>

definition refusal :: "exn \<Rightarrow> bool" where
  "refusal x \<longleftrightarrow> low x \<or> (\<exists>m. x = InsufficientStockError m)"

lemma settle_hold_polite:
  assumes "polite {POST} low ps w out"
  shows "polite {POST} refusal ps w (settle_hold p k out)"
proof -
  obtain res w1 where out: "out = (res, w1)" by (cases out)
  have err: "case res of Inl x \<Rightarrow> low x | Inr _ \<Rightarrow> True"
    using assms by (simp add: out polite_def)
  show ?thesis
  proof (cases res)
    case (Inr ref)
    then show ?thesis
      by (auto simp: out settle_hold_def frame_simps intro!: polite_result [OF assms [unfolded out]])
  next
    case (Inl x)
    then show ?thesis using err
      by (cases x)
         (auto simp: out settle_hold_def frame_simps refusal_def intro!: polite_result [OF assms [unfolded out]])
  qed
qed

lemma hold_item_polite:
  assumes ps: "providers (db w) = ps"
  shows "polite {POST} refusal ps w (hold_item e rid lm pq w)"
proof (cases "Option.bind (lm (fst pq)) (get_inventory (db w))")
  case None
  then show ?thesis using ps by (simp add: hold_item_def polite_same refusal_def)
next
  case (Some row)
  let ?d = "append_item (new_item rid (fst pq) row (snd pq) (next_item_id (db w))) (db w)"
  let ?w = "w\<lparr>db := ?d\<rparr>" and ?k = "next_item_id (db w)"
  have ps1: "providers (db ?w) = ps" using ps by (simp add: frame_simps)
  have eq: "hold_item e rid lm pq w =
      (case registry_resolve (get_provider ?d (inv_provider_id row)) (Some (inv_id row)) of
         Inl x \<Rightarrow> (Inl x, ?w)
       | Inr a \<Rightarrow>
           (case get_product ?d (inv_product_id row) of
              None \<Rightarrow> (Inl (AttributeError ''sku''), ?w)
            | Some pr \<Rightarrow> settle_hold (fst pq) ?k (hold_stock e a (sku pr) (snd pq) rid ?w)))"
    unfolding append_item_def by (simp add: hold_item_def Some add_item_def Let_def)
  have start: "polite {POST} refusal ps w out" if "polite {POST} refusal ps ?w out" for out :: "(exn + unit) \<times> world"
    by (rule polite_start [OF _ that]) simp
  show ?thesis
  proof (cases "registry_resolve (get_provider ?d (inv_provider_id row)) (Some (inv_id row))")
    case (Inl x)
    then show ?thesis unfolding eq
      using registry_resolve_low [OF Inl] ps1 by (intro start) (simp add: polite_same refusal_def)
  next
    case (Inr a)
    have "made_from ps a" using resolve_made_from [OF Inr] ps1 by simp
    then have "polite {POST} low ps ?w (hold_stock e a s q rid ?w)" for s q
      using ps1 by (rule hold_stock_polite)
    then show ?thesis unfolding eq
      using ps1 by (intro start) (auto simp: Inr polite_same refusal_def settle_hold_polite split: option.splits)
  qed
qed

lemma hold_items_polite:
  "providers (db w) = ps \<Longrightarrow> polite {POST} refusal ps w (hold_items e rid lm its w)"
proof (induction its arbitrary: w)
  case Nil
  then show ?case by (simp add: polite_same)
next
  case (Cons pq its)
  obtain res w1 where r: "hold_item e rid lm pq w = (res, w1)" by (cases "hold_item e rid lm pq w")
  have 1: "polite {POST} refusal ps w (res, w1)" using hold_item_polite [OF Cons.prems, of e rid lm pq] by (simp add: r)
  show ?case
  proof (cases res)
    case (Inl x)
    then show ?thesis using 1 by (simp add: r polite_def)
  next
    case (Inr u)
    then show ?thesis
      using polite_trans [OF 1 Cons.IH [OF polite_providers [OF 1]]] by (simp add: r)
  qed
qed

lemma preflight_refusal: "preflight d its m = Inl x \<Longrightarrow> refusal x"
  by (induction its arbitrary: m) (auto simp: refusal_def split: option.splits if_splits)

lemma lock_and_recheck_refusal: "lock_and_recheck d its m lm = Inl x \<Longrightarrow> refusal x"
  by (induction its arbitrary: lm) (auto simp: refusal_def split: option.splits if_splits)

lemma reserve_all_refusal: "reserve_all its lm d = Inl x \<Longrightarrow> refusal x"
  by (induction its arbitrary: d) (auto simp: refusal_def split: option.splits)

lemma create_polite:
  assumes ps: "providers (db w) = ps"
  shows "polite {POST} refusal ps w (create e now user its w)"
proof (cases "preflight (db w) its Map.empty")
  case (Inl x)
  then show ?thesis using ps preflight_refusal [OF Inl] by (simp add: create_def polite_same)
next
  case (Inr m)
  note pre = this
  show ?thesis
  proof (cases "lock_and_recheck (db w) its m Map.empty")
    case (Inl x)
    then show ?thesis using ps pre lock_and_recheck_refusal [OF Inl] by (simp add: create_def polite_same)
  next
    case (Inr lm)
    note lock = this
    show ?thesis
    proof (cases "reserve_all its lm (db w)")
      case (Inl x)
      then show ?thesis using ps pre lock reserve_all_refusal [OF Inl] by (simp add: create_def polite_same)
    next
      case (Inr d1)
      let ?r = "new_reservation user (now + ttl e) now (next_reservation_id d1)"
      let ?w = "w\<lparr>db := insert_reservation ?r d1\<rparr>"
      have "providers (db ?w) = ps"
        using ps reserve_all_Inr [OF Inr] by (simp add: insert_reservation_def frame_simps)
      note loop = hold_items_polite [OF this, of e "next_reservation_id d1" lm its]
      obtain res w1 where r: "hold_items e (next_reservation_id d1) lm its ?w = (res, w1)"
        by (cases "hold_items e (next_reservation_id d1) lm its ?w")
      have eq: "create e now user its w = (case res of Inl x \<Rightarrow> (Inl x, w1) | Inr _ \<Rightarrow> (Inr ?r, w1))"
        using r by (simp add: create_def pre lock Inr add_reservation_def Let_def insert_reservation_def
            split: sum.splits)
      have p: "polite {POST} refusal ps w (res, w1)"
        using polite_start [OF _ loop, of w] r by simp
      show ?thesis
        by (rule polite_case [OF p, where f = "\<lambda>u. ?r" and ?w2.0 = w1]) (simp_all add: eq)
    qed
  qed
qed

subsection \<open>confirm\<close>

lemma confirm_at_provider_polite:
  assumes ps: "providers (db w) = ps"
  shows "polite {POST} low ps w (confirm_at_provider e t w)"
proof (cases "held_ref t")
  case None
  then show ?thesis using ps by (simp add: confirm_at_provider_def polite_same)
next
  case (Some ref)
  show ?thesis
  proof (cases "registry_resolve (get_provider (db w) (item_provider_id t)) None")
    case (Inl x)
    then show ?thesis using ps Some registry_resolve_low [OF Inl] by (simp add: confirm_at_provider_def polite_same)
  next
    case (Inr a)
    note a = this
    obtain res w1 where r: "confirm_hold e a ref w = (res, w1)" by (cases "confirm_hold e a ref w")
    have p: "polite {POST} low ps w (res, w1)"
      using confirm_hold_polite [OF resolve_made_from [OF Inr ps] ps, of e ref] by (simp add: r)
    show ?thesis
    proof (cases res)
      case (Inl x)
      have "polite {POST} low ps w (Inr (), w1)" by (rule polite_result [OF p]) simp_all
      moreover have "polite {POST} low ps w (Inl x, w1)"
        by (rule polite_result [OF p]) (simp_all add: polite_raise [OF p [unfolded Inl]])
      ultimately show ?thesis
        using Some a r Inl by (cases x) (simp_all add: confirm_at_provider_def)
    next
      case (Inr u)
      have "polite {POST} low ps w (Inr (), w1)" by (rule polite_result [OF p]) simp_all
      then show ?thesis
        using Some a r Inr by (simp add: confirm_at_provider_def)
    qed
  qed
qed

lemma confirm_item_polite:
  assumes ps: "providers (db w) = ps"
  shows "polite {POST} low ps w (confirm_item e t w)"
proof -
  let ?w = "on_db (take_stock t) w"
  obtain res w1 where r: "confirm_at_provider e t ?w = (res, w1)" by (cases "confirm_at_provider e t ?w")
  have "polite {POST} low ps ?w (res, w1)"
    using confirm_at_provider_polite [of ?w ps e t] ps by (simp add: r frame_simps)
  from polite_start [OF _ this, of w] have p: "polite {POST} low ps w (res, w1)" by simp
  show ?thesis
    by (rule polite_case [OF p, where f = "\<lambda>u. ()"
          and ?w2.0 = "on_db (upd_item (item_id t) (set_provider_status ItemConfirmed)) w1"])
       (simp_all add: confirm_item_def r frame_simps)
qed

lemma confirm_items_polite:
  "providers (db w) = ps \<Longrightarrow> polite {POST} low ps w (confirm_items e ts w)"
proof (induction ts arbitrary: w)
  case Nil
  then show ?case by (simp add: polite_same)
next
  case (Cons t ts)
  obtain res w1 where r: "confirm_item e t w = (res, w1)" by (cases "confirm_item e t w")
  have 1: "polite {POST} low ps w (res, w1)" using confirm_item_polite [OF Cons.prems, of e t] by (simp add: r)
  show ?case
  proof (cases res)
    case (Inl x)
    then show ?thesis using 1 by (simp add: r polite_def)
  next
    case (Inr u)
    then show ?thesis using polite_trans [OF 1 Cons.IH [OF polite_providers [OF 1]]] by (simp add: r)
  qed
qed

text \<open>Nothing of this is an IntegrityError: only the insertion of the order can raise one.\<close>

lemma registry_resolve_integrity: "registry_resolve po ro \<noteq> Inl (IntegrityError m)"
  by (auto simp: registry_resolve_def external_init_def build_auth_headers_def
      split: option.splits if_splits sum.splits)

lemma confirm_hold_integrity: "fst (confirm_hold e a ref w) \<noteq> Inl (IntegrityError m)"
  by (auto simp: confirm_hold_def int_confirm_hold_def ext_confirm_hold_def require_capability_def
      split: adapter.splits option.splits prod.splits http_outcome.splits if_splits)

lemma confirm_at_provider_integrity: "confirm_at_provider e t w \<noteq> (Inl (IntegrityError m), w')"
proof (cases "held_ref t")
  case None
  then show ?thesis by (simp add: confirm_at_provider_def)
next
  case (Some ref)
  show ?thesis
  proof (cases "registry_resolve (get_provider (db w) (item_provider_id t)) None")
    case (Inl x)
    then show ?thesis using registry_resolve_integrity Some by (auto simp: confirm_at_provider_def)
  next
    case (Inr a)
    then show ?thesis using Some confirm_hold_integrity [of e a ref w m]
      by (auto simp: confirm_at_provider_def split: prod.splits sum.splits exn.splits)
  qed
qed

lemma confirm_items_integrity: "confirm_items e ts w = (Inl x, w') \<Longrightarrow> x \<noteq> IntegrityError m"
  by (induction ts arbitrary: w)
     (auto simp: confirm_item_def confirm_at_provider_integrity split: prod.splits sum.splits)

definition confirm_refusal :: "exn \<Rightarrow> bool" where
  "confirm_refusal x \<longleftrightarrow>
     low x \<or> (\<exists>m. x = ReservationNotFound m \<or> x = ReservationStateError m \<or> x = DuplicateOrderError m)"

lemma confirm_polite:
  assumes ps: "providers (db w) = ps"
  shows "polite {POST} confirm_refusal ps w (confirm e now rid w)"
proof (cases "get_with_items (db w) rid")
  case None
  then show ?thesis using ps by (simp add: confirm_def polite_same confirm_refusal_def)
next
  case (Some ri)
  obtain r its where ri: "ri = (r, its)" by (cases ri)
  obtain res w1 where run: "confirm_items e its w = (res, w1)" by (cases "confirm_items e its w")
  have p: "polite {POST} low ps w (res, w1)"
    using confirm_items_polite [OF ps, of e its] by (simp add: run)
  have loop: "polite {POST} confirm_refusal ps w
      (case res of Inl x \<Rightarrow> (Inl x, w1)
       | Inr _ \<Rightarrow> (case add_order (new_order r now) (upd_reservation (res_id r) (set_status Confirmed) (db w1)) of
            (y, d) \<Rightarrow> (y, w1\<lparr>db := d\<rparr>)))"
  proof (cases res)
    case (Inl x)
    then show ?thesis using p by (auto simp: polite_def confirm_refusal_def)
  next
    case (Inr u)
    then show ?thesis
      by (auto simp: add_order_def Let_def confirm_refusal_def frame_simps intro!: polite_result [OF p])
  qed
  show ?thesis
  proof (cases "res_status r = Pending \<and> tz_aware e \<and> now \<le> expires_at r \<and> get_by_reservation_id (db w) rid = None")
    case True
    have "confirm e now rid w = (case res of Inl x \<Rightarrow> (Inl x, w1)
        | Inr _ \<Rightarrow> (case add_order (new_order r now) (upd_reservation (res_id r) (set_status Confirmed) (db w1)) of
            (y, d) \<Rightarrow> (y, w1\<lparr>db := d\<rparr>)))"
      using True by (cases res) (simp_all add: confirm_def Some ri run before_now_def)
    then show ?thesis using loop by simp
  next
    case False
    have "\<exists>x. confirm e now rid w = (Inl x, w) \<and> confirm_refusal x"
    proof (cases "expires_at r < now")
      case True
      then show ?thesis by (auto simp: confirm_def Some ri before_now_def confirm_refusal_def)
    next
      case early: False
      then show ?thesis using False by (auto simp: confirm_def Some ri before_now_def confirm_refusal_def)
    qed
    then show ?thesis using ps by (auto simp: polite_same)
  qed
qed

subsection \<open>cancel and expire_batch\<close>

lemma release_at_provider_polite:
  assumes ps: "providers (db w) = ps"
  shows "polite {DELETE} low ps w (release_at_provider e t w)"
proof (cases "held_ref t")
  case None
  then show ?thesis using ps by (simp add: release_at_provider_def polite_same)
next
  case (Some ref)
  show ?thesis
  proof (cases "registry_resolve (get_provider (db w) (item_provider_id t)) None")
    case (Inl x)
    then show ?thesis using ps Some registry_resolve_low [OF Inl] by (simp add: release_at_provider_def polite_same)
  next
    case (Inr a)
    obtain res w1 where r: "release_hold e a ref w = (res, w1)" by (cases "release_hold e a ref w")
    have p: "polite {DELETE} low ps w (res, w1)"
      using release_hold_polite [OF resolve_made_from [OF Inr ps] ps, of e ref] by (simp add: r)
    have "polite {DELETE} low ps w (Inr (), w1)" by (rule polite_result [OF p]) simp_all
    then show ?thesis using Some Inr r by (simp add: release_at_provider_def)
  qed
qed

lemma release_item_polite:
  assumes ps: "providers (db w) = ps"
  shows "polite {DELETE} low ps w (release_item e t w)"
proof (cases "item_done t")
  case True
  then show ?thesis using ps by (simp add: release_item_def polite_same)
next
  case False
  let ?w = "on_db (return_stock t) w"
  obtain res w1 where r: "release_at_provider e t ?w = (res, w1)" by (cases "release_at_provider e t ?w")
  have "polite {DELETE} low ps ?w (res, w1)"
    using release_at_provider_polite [of ?w ps e t] ps by (simp add: r frame_simps)
  from polite_start [OF _ this, of w] have p: "polite {DELETE} low ps w (res, w1)" by simp
  show ?thesis
    by (rule polite_case [OF p, where f = "\<lambda>u. ()"
          and ?w2.0 = "on_db (upd_item (item_id t) (set_provider_status Released)) w1"])
       (use False in \<open>simp_all add: release_item_def r frame_simps\<close>)
qed

lemma release_items_polite:
  "providers (db w) = ps \<Longrightarrow> polite {DELETE} low ps w (release_items e ts w)"
proof (induction ts arbitrary: w)
  case Nil
  then show ?case by (simp add: polite_same)
next
  case (Cons t ts)
  obtain res w1 where r: "release_item e t w = (res, w1)" by (cases "release_item e t w")
  have 1: "polite {DELETE} low ps w (res, w1)" using release_item_polite [OF Cons.prems, of e t] by (simp add: r)
  show ?case
  proof (cases res)
    case (Inl x)
    then show ?thesis using 1 by (simp add: r polite_def)
  next
    case (Inr u)
    then show ?thesis using polite_trans [OF 1 Cons.IH [OF polite_providers [OF 1]]] by (simp add: r)
  qed
qed

lemma release_and_set_polite:
  assumes ps: "providers (db w) = ps"
  shows "polite {DELETE} low ps w (release_and_set e S ri w)"
proof -
  obtain res w1 where r: "release_items e (snd ri) w = (res, w1)" by (cases "release_items e (snd ri) w")
  have p: "polite {DELETE} low ps w (res, w1)"
    using release_items_polite [OF ps, of e "snd ri"] by (simp add: r)
  show ?thesis
    by (rule polite_case [OF p, where f = "\<lambda>u. ()"
          and ?w2.0 = "on_db (upd_reservation (res_id (fst ri)) (set_status S)) w1"])
       (simp_all add: release_and_set_def r frame_simps)
qed

definition cancel_refusal :: "exn \<Rightarrow> bool" where
  "cancel_refusal x \<longleftrightarrow> low x \<or> (\<exists>m. x = ReservationNotFound m \<or> x = ReservationStateError m)"

lemma cancel_polite:
  assumes ps: "providers (db w) = ps"
  shows "polite {DELETE} cancel_refusal ps w (cancel e rid w)"
proof (cases "get_with_items (db w) rid")
  case None
  then show ?thesis using ps by (simp add: cancel_def polite_same cancel_refusal_def)
next
  case (Some ri)
  obtain r its where ri: "ri = (r, its)" by (cases ri)
  have "polite {DELETE} cancel_refusal ps w (release_and_set e Cancelled (r, its) w)"
    by (rule polite_weaken [OF release_and_set_polite [OF ps]]) (simp_all add: cancel_refusal_def)
  then show ?thesis using ps by (auto simp: cancel_def Some ri polite_same cancel_refusal_def)
qed

lemma expire_all_polite:
  "providers (db w) = ps \<Longrightarrow> polite {DELETE} low ps w (expire_all e ris w)"
proof (induction ris arbitrary: w)
  case Nil
  then show ?case by (simp add: polite_same)
next
  case (Cons ri ris)
  obtain res w1 where r: "release_and_set e Expired ri w = (res, w1)" by (cases "release_and_set e Expired ri w")
  have 1: "polite {DELETE} low ps w (res, w1)"
    using release_and_set_polite [OF Cons.prems, of e Expired ri] by (simp add: r)
  show ?case
  proof (cases res)
    case (Inl x)
    then show ?thesis using 1 by (simp add: r polite_def)
  next
    case (Inr u)
    then show ?thesis using polite_trans [OF 1 Cons.IH [OF polite_providers [OF 1]]] by (simp add: r)
  qed
qed

lemma expire_batch_polite:
  assumes ps: "providers (db w) = ps"
  shows "polite {DELETE} low ps w (expire_batch e now limit w)"
proof -
  let ?ris = "get_expired_pending now (db w) limit"
  obtain res w1 where r: "expire_all e ?ris w = (res, w1)" by (cases "expire_all e ?ris w")
  have p: "polite {DELETE} low ps w (res, w1)"
    using expire_all_polite [OF ps, of e ?ris] by (simp add: r)
  show ?thesis
    by (rule polite_case [OF p, where f = "\<lambda>u. int (length ?ris)" and ?w2.0 = w1])
       (simp_all add: expire_batch_def Let_def r)
qed

subsection \<open>Synchronisation\<close>

definition sync_refusal :: "exn \<Rightarrow> bool" where
  "sync_refusal x \<longleftrightarrow> low x \<or> (\<exists>m. x = NotFoundError m)"

lemma sync_row_polite:
  assumes ps: "providers (db w) = ps" and p: "p \<in> set ps"
  shows "polite {GET} low ps w (sync_row e now p row acc w)"
proof (cases "row_sku (db w) row")
  case None
  then show ?thesis using ps by (simp add: sync_row_def polite_same)
next
  case (Some s)
  show ?thesis
  proof (cases "registry_resolve (Some p) None")
    case (Inl x)
    then show ?thesis using ps Some registry_resolve_low [OF Inl] by (simp add: sync_row_def polite_same)
  next
    case (Inr a)
    note a = this
    have "made_from ps a"
      using a p by (auto simp: made_from_def elim!: registry_resolve_InrD)
    obtain res w1 where r: "check_stock e a s w = (res, w1)" by (cases "check_stock e a s w")
    have c: "polite {GET} low ps w (res, w1)"
      using check_stock_polite [OF \<open>made_from ps a\<close> ps, of e s] by (simp add: r)
    show ?thesis
    proof (cases res)
      case (Inr q)
      have "sync_row e now p row acc w =
          (Inr (fst acc + 1, snd acc), on_db (upd_inventory (inv_id row) (set_stock now q)) w1)"
        using Some a r Inr by (simp add: sync_row_def)
      moreover have "polite {GET} low ps w
          (Inr (fst acc + 1, snd acc), on_db (upd_inventory (inv_id row) (set_stock now q)) w1)"
        by (rule polite_result [OF c]) (simp_all add: frame_simps)
      ultimately show ?thesis by simp
    next
      case (Inl x)
      have "sync_row e now p row acc w =
          (if is_provider_error x then Inr (fst acc, snd acc @ [s @ '': '' @ exn_text x]) else Inl x, w1)"
        using Some a r Inl by (simp add: sync_row_def)
      moreover have "polite {GET} low ps w
          (if is_provider_error x then Inr (fst acc, snd acc @ [s @ '': '' @ exn_text x]) else Inl x, w1)"
        by (rule polite_result [OF c]) (simp_all add: polite_raise [OF c [unfolded Inl]])
      ultimately show ?thesis by simp
    qed
  qed
qed

lemma sync_rows_polite:
  "providers (db w) = ps \<Longrightarrow> p \<in> set ps \<Longrightarrow> polite {GET} low ps w (sync_rows e now p rs acc w)"
proof (induction rs arbitrary: acc w)
  case Nil
  then show ?case by (simp add: polite_same)
next
  case (Cons row rs)
  obtain res w1 where r: "sync_row e now p row acc w = (res, w1)" by (cases "sync_row e now p row acc w")
  have 1: "polite {GET} low ps w (res, w1)"
    using sync_row_polite [OF Cons.prems, of e now row acc] by (simp add: r)
  show ?case
  proof (cases res)
    case (Inl x)
    then show ?thesis using 1 by (simp add: r polite_def)
  next
    case (Inr acc1)
    then show ?thesis
      using polite_trans [OF 1 Cons.IH [OF polite_providers [OF 1] Cons.prems(2)]] by (simp add: r)
  qed
qed

lemma sync_polite:
  assumes ps: "providers (db w) = ps"
  shows "polite {GET} sync_refusal ps w (sync_from_provider e now pid w)"
proof (cases "get_provider (db w) pid")
  case None
  then show ?thesis using ps by (simp add: sync_from_provider_def polite_same sync_refusal_def)
next
  case (Some p)
  then have p: "p \<in> set ps" using ps by (auto simp: get_provider_def dest: find_by_SomeD)
  let ?rows = "get_all_by_provider (db w) pid"
  obtain res w1 where r: "sync_rows e now p ?rows (0, []) w = (res, w1)"
    by (cases "sync_rows e now p ?rows (0, []) w")
  have c: "polite {GET} low ps w (res, w1)"
    using sync_rows_polite [OF ps p, of e now ?rows "(0, [])"] by (simp add: r)
  have "polite {GET} low ps w (case res of Inl x \<Rightarrow> (Inl x, w1)
      | Inr acc \<Rightarrow> (Inr \<lparr>sync_updated = fst acc, sync_errors = snd acc, sync_message = []\<rparr>, w1))"
    by (rule polite_case [OF c, where ?w2.0 = w1]) simp_all
  then have rows: "polite {GET} sync_refusal ps w (case res of Inl x \<Rightarrow> (Inl x, w1)
      | Inr acc \<Rightarrow> (Inr \<lparr>sync_updated = fst acc, sync_errors = snd acc, sync_message = []\<rparr>, w1))"
    by (rule polite_weaken) (simp_all add: sync_refusal_def)
  consider "\<not> prov_is_active p" | "prov_is_active p" "prov_type p = internal"
    | "prov_is_active p" "prov_type p \<noteq> internal" by blast
  then show ?thesis
  proof cases
    case 3
    then have "sync_from_provider e now pid w = (case res of Inl x \<Rightarrow> (Inl x, w1)
        | Inr acc \<Rightarrow> (Inr \<lparr>sync_updated = fst acc, sync_errors = snd acc, sync_message = []\<rparr>, w1))"
      by (cases res) (simp_all add: sync_from_provider_def Some r)
    then show ?thesis using rows by simp
  qed (use ps in \<open>simp_all add: sync_from_provider_def Some polite_same sync_refusal_def\<close>)
qed

subsection \<open>Requests and runs\<close>

text \<open>What a request of the API may raise.\<close>

definition request_refusal :: "exn \<Rightarrow> bool" where
  "request_refusal x \<longleftrightarrow>
     refusal x \<or> confirm_refusal x \<or> sync_refusal x \<or> (\<exists>errs. x = RequestValidationError errs)"

lemma cancel_refusal_confirm: "cancel_refusal x \<Longrightarrow> confirm_refusal x"
  by (auto simp: cancel_refusal_def confirm_refusal_def)

lemma respond_polite: "polite M E ps w res \<Longrightarrow> polite M E ps w (respond f res)"
  by (auto simp: polite_def respond_def split: prod.splits sum.splits)

lemma dispatch_polite:
  assumes ps: "providers (db w) = ps"
  shows "polite UNIV request_refusal ps w (dispatch det e now req w)"
proof -
  have r: "polite UNIV request_refusal ps w (respond f (create e now user its w))" for f user its
    by (intro respond_polite polite_weaken [OF create_polite [OF ps]]) (simp_all add: request_refusal_def)
  have c: "polite UNIV request_refusal ps w (respond f (confirm e now rid w))" for f rid
    by (intro respond_polite polite_weaken [OF confirm_polite [OF ps]]) (simp_all add: request_refusal_def)
  have x: "polite UNIV request_refusal ps w (respond f (cancel e rid w))" for f rid
    by (intro respond_polite polite_weaken [OF cancel_polite [OF ps]])
       (simp_all add: request_refusal_def cancel_refusal_confirm)
  have s: "polite UNIV request_refusal ps w (respond f (sync_from_provider e now pid w))" for f pid
    by (intro respond_polite polite_weaken [OF sync_polite [OF ps]]) (simp_all add: request_refusal_def)
  have g: "polite UNIV request_refusal ps w (respond f (service_get_with_items rid w))" for f rid
    using ps by (intro respond_polite) (auto simp: service_get_with_items_def request_refusal_def
        confirm_refusal_def intro!: polite_same split: option.splits)
  have h: "polite UNIV request_refusal ps w (respond f (order_get_by_id k w))" for f k
    using ps by (intro respond_polite) (auto simp: order_get_by_id_def request_refusal_def
        sync_refusal_def intro!: polite_same split: option.splits)
  have a: "polite UNIV request_refusal ps w (respond f (get_availability p w))" for f p
    using ps by (intro respond_polite) (simp add: get_availability_def polite_same)
  have v: "polite UNIV request_refusal ps w
      (Inl (RequestValidationError errs) :: exn + payload reply, w)" for errs
    using ps by (simp add: polite_same request_refusal_def)
  have "polite UNIV request_refusal ps w (route e now req w)"
    using r c x s g h a
    by (cases req) (simp_all add: create_reservation_def get_reservation_route_def confirm_reservation_def
        cancel_reservation_def payment_outcome_def get_order_route_def get_availability_route_def sync_provider_def)
  then show ?thesis using v by (simp add: dispatch_def)
qed

lemma serve_sends:
  assumes "providers (db w) = ps" and "serve det e now req w = (rep, w')"
  shows "providers (db w') = ps" and "\<exists>rs. sent w' = sent w @ rs \<and> (\<forall>rq \<in> set rs. addressed ps rq)"
proof -
  obtain res w1 where r: "dispatch det e now req w = (res, w1)" by (cases "dispatch det e now req w")
  have p: "polite UNIV request_refusal ps w (res, w1)"
    using dispatch_polite [OF assms(1), of det e now req] by (simp add: r)
  have "w' = w1 \<or> w' = w1\<lparr>db := rollback (db w) (db w1)\<rparr>"
    using assms(2) by (auto simp: serve_def get_db_def r split: sum.splits)
  then show "providers (db w') = ps" and "\<exists>rs. sent w' = sent w @ rs \<and> (\<forall>rq \<in> set rs. addressed ps rq)"
    using p assms(1) by (auto simp: polite_def frame_simps)
qed

lemma sweep_sends:
  assumes "providers (db w) = ps"
  shows "providers (db (run_expiry_sweep e now w)) = ps"
    and "\<exists>rs. sent (run_expiry_sweep e now w) = sent w @ rs \<and> (\<forall>rq \<in> set rs. addressed ps rq)"
  using expire_batch_polite [OF assms, of e now sweep_limit] assms
  by (auto simp: run_expiry_sweep_def polite_def frame_simps split: prod.splits sum.splits)

lemma reachable_sends:
  "reachable det e w0 tr w \<Longrightarrow>
     providers (db w) = providers (db w0) \<and>
     (\<exists>rs. sent w = sent w0 @ rs \<and> (\<forall>rq \<in> set rs. addressed (providers (db w0)) rq))"
proof (induction rule: reachable.induct)
  case start
  then show ?case by simp
next
  case (more tr w ev w')
  have ps: "providers (db w) = providers (db w0)" using more.IH by simp
  from more.hyps(2) have "providers (db w') = providers (db w0) \<and>
      (\<exists>rs. sent w' = sent w @ rs \<and> (\<forall>rq \<in> set rs. addressed (providers (db w0)) rq))"
    by cases (use serve_sends [OF ps] sweep_sends [OF ps] in blast)+
  then show ?case using more.IH by fastforce
qed

lemma serve_status:
  "reply_status (fst (serve det e now req w)) \<in> {200, 201, 204, 404, 409, 422, 500}"
proof -
  obtain res w1 where r: "dispatch det e now req w = (res, w1)" by (cases "dispatch det e now req w")
  show ?thesis
  proof (cases res)
    case (Inl x)
    have "request_refusal x"
      using polite_raise dispatch_polite [OF refl, of w det e now req] unfolding r Inl by blast
    then have "reply_status (exception_reply x) \<in> {404, 409, 422, 500}"
      by (cases x) (auto simp: request_refusal_def refusal_def confirm_refusal_def sync_refusal_def
          exception_reply_def app_error_handler_def envelope_def unhandled_exception_handler_def
          validation_exception_handler_def)
    then show ?thesis by (auto simp: serve_def get_db_def r Inl)
  next
    case (Inr rep)
    then have "reply_status rep \<in> {200, 201, 204}"
      using r by (cases req) (auto simp: dispatch_def create_reservation_def get_reservation_route_def
          confirm_reservation_def cancel_reservation_def payment_outcome_def get_order_route_def
          get_availability_route_def sync_provider_def ok_def created_def no_content_def
          dest!: respond_InrD split: if_splits)
    then show ?thesis by (auto simp: serve_def get_db_def r Inr)
  qed
qed

end
