(* ===== verification/Reservation_Properties.thy ===== *)
theory Reservation_Properties
  imports Sample Exact Conversation
begin

section \<open>Properties of the reservation service\<close>

text \<open>
  What each operation of \<open>ReservationService\<close> does when it returns, when it refuses, and when
  it must return; with instances on the sample shop.
\<close>

subsection \<open>create\<close>

text \<open>C15:
  A reservation that is created is pending, belongs to the user, expires one TTL after the clock
  reading and has one item per requested product, in order, each with the product and quantity
  asked for and held or marked failed.  The reserved quantity of every inventory row grows by
  what its new items ask for, twice on a row of an internal provider; nothing else changes.\<close>

theorem create_result:
  assumes "create e now user its w = (Inr r, w')" and "db_inv (db w)"
  shows "\<exists>ts. r = \<lparr>res_id = next_reservation_id (db w), res_user_id = user, res_status = Pending,
        expires_at = now + ttl_minutes e * 60000000, res_created_at = now\<rparr> \<and>
      list_all2 (\<lambda>pq t. item_product_id t = fst pq \<and> qty_requested t = snd pq \<and>
        item_reservation_id t = res_id r \<and> (provider_status t = Held \<or> provider_status t = ProviderFailed)) its ts \<and>
      reservations (db w') = reservations (db w) @ [r] \<and>
      reservation_items (db w') = reservation_items (db w) @ ts \<and>
      inventories (db w') = map (\<lambda>x. reserve ((1 + row_booking (db w) x) * qty_on (inv_id x) ts) x) (inventories (db w)) \<and>
      orders (db w') = orders (db w) \<and> providers (db w') = providers (db w) \<and> products (db w') = products (db w)"
  using assms(1) db_inv_keys [OF assms(2)]
proof (rule create_InrD)
  fix lm ts
  assume r: "r = new_reservation user (now + ttl e) now (next_reservation_id (db w))"
    and ts: "list_all2 (created_item (db w) (res_id r) lm) its ts"
    and w': "db w' = create_effect r ts its lm (db w)"
  have "list_all2 (\<lambda>pq t. item_product_id t = fst pq \<and> qty_requested t = snd pq \<and>
      item_reservation_id t = res_id r \<and> (provider_status t = Held \<or> provider_status t = ProviderFailed)) its ts"
    by (rule list_all2_mono [OF ts]) (simp add: created_item_def)
  then show ?thesis
    by (intro exI [of _ ts]) (simp add: w' frame_simps created_qty_on [OF ts] r new_reservation_def ttl_def)
qed

theorem create_result_witness:
  "\<exists>r w'. create granting 0 ''ann'' [(1, 3), (2, 2)] start_world = (Inr r, w') \<and>
     map qty_reserved (inventories (db w')) = [3, 4] \<and> reservations (db w') = [r] \<and> expires_at r = 900000000"
proof -
  let ?c = "create granting 0 ''ann'' [(1, 3), (2, 2)] start_world"
  have "case fst ?c of Inr r \<Rightarrow> expires_at r = 900000000 | Inl _ \<Rightarrow> False"
    and rows: "map qty_reserved (inventories (db (snd ?c))) = [3, 4]" by code_simp+
  then obtain r where r: "?c = (Inr r, snd ?c)" "expires_at r = 900000000"
    by (cases ?c) (auto split: sum.splits)
  have "db_inv (db start_world)" by (simp add: start_world_def shop_inv)
  from create_result [OF r(1) this] have "reservations (db (snd ?c)) = [r]"
    by (auto simp: start_world_def shop_def)
  then show ?thesis by (intro exI [of _ r] exI [of _ "snd ?c"] conjI r rows)
qed

text \<open>C6:
  Every item of a new reservation is served by an inventory row of its product that, before the
  request, had the most effective stock of all rows of the product, and enough for the item.\<close>

theorem create_best_source:
  assumes "create e now user its w = (Inr r, w')" and "db_inv (db w)" and "t \<in> set (items_of (db w') (res_id r))"
  shows "\<exists>row \<in> set (inventories (db w)). inv_id row = item_inventory_id t \<and>
      inv_product_id row = item_product_id t \<and> qty_requested t \<le> effective row \<and>
      (\<forall>x \<in> set (inventories (db w)). inv_product_id x = item_product_id t \<longrightarrow> effective x \<le> effective row)"
  using assms(1) db_inv_keys [OF assms(2)]
proof (rule create_InrD)
  fix lm ts
  assume lm: "locked_ok (db w) its lm" and r: "r = new_reservation user (now + ttl e) now (next_reservation_id (db w))"
    and ts: "list_all2 (created_item (db w) (res_id r) lm) its ts"
    and w': "db w' = create_effect r ts its lm (db w)"
  have "items_of (db w') (res_id r) = ts"
    unfolding w' by (rule created_items_of [OF assms(2) _ ts]) (simp add: r new_reservation_def)
  then obtain pq where "pq \<in> set its" "created_item (db w) (res_id r) lm pq t"
    using created_members [OF ts, of t] assms(3) by blast
  then show ?thesis using lm by (fastforce simp: locked_ok_def created_item_def)
qed

theorem create_best_source_witness:
  "\<exists>r w'. create granting 0 ''ann'' [(1, 3), (2, 2)] start_world = (Inr r, w') \<and>
     list_all (\<lambda>t. \<exists>row \<in> set (inventories shop). inv_id row = item_inventory_id t \<and>
        inv_product_id row = item_product_id t \<and> qty_requested t \<le> effective row) (items_of (db w') (res_id r))"
proof -
  let ?c = "create granting 0 ''ann'' [(1, 3), (2, 2)] start_world"
  have "case fst ?c of Inr r \<Rightarrow> True | Inl _ \<Rightarrow> False" by code_simp
  then obtain r where r: "?c = (Inr r, snd ?c)" by (cases ?c) (auto split: sum.splits)
  have inv: "db_inv (db start_world)" and start: "db start_world = shop" by (simp_all add: start_world_def shop_inv)
  have "\<exists>row \<in> set (inventories shop). inv_id row = item_inventory_id t \<and>
      inv_product_id row = item_product_id t \<and> qty_requested t \<le> effective row"
    if "t \<in> set (items_of (db (snd ?c)) (res_id r))" for t
    using create_best_source [OF r inv that] unfolding start by blast
  then have "list_all (\<lambda>t. \<exists>row \<in> set (inventories shop). inv_id row = item_inventory_id t \<and>
        inv_product_id row = item_product_id t \<and> qty_requested t \<le> effective row) (items_of (db (snd ?c)) (res_id r))"
    unfolding list_all_iff by blast
  then show ?thesis by (intro exI [of _ r] exI [of _ "snd ?c"] conjI r)
qed

text \<open>C29:
  On a row of an internal provider a reservation is created only when the effective stock
  covers twice the quantity: the adapter asks for the quantity again after create has already
  reserved it.  (The products of a request are distinct.)\<close>

theorem internal_hold_needs_twice:
  assumes run: "create e now user its w = (Inr r, w')" and inv: "db_inv (db w)" and cov: "covered (db w)"
    and dist: "distinct (map fst its)" and t: "t \<in> set (items_of (db w') (res_id r))"
    and p: "get_provider (db w) (item_provider_id t) = Some p" "prov_type p = internal"
    and pos: "\<forall>pq \<in> set its. 0 < snd pq"
  shows "\<exists>row \<in> set (inventories (db w)). inv_id row = item_inventory_id t \<and>
      2 * qty_requested t \<le> effective row"
  using run db_inv_keys [OF inv]
proof (rule create_InrD)
  fix lm ts
  assume r: "r = new_reservation user (now + ttl e) now (next_reservation_id (db w))"
    and ts: "list_all2 (created_item (db w) (res_id r) lm) its ts"
    and w': "db w' = create_effect r ts its lm (db w)"
  have "items_of (db w') (res_id r) = ts"
    unfolding w' by (rule created_items_of [OF inv _ ts]) (simp add: r new_reservation_def)
  then have tts: "t \<in> set ts" using t by simp
  then obtain pq where "created_item (db w) (res_id r) lm pq t"
    using created_members [OF ts tts] by blast
  then obtain row where row: "row \<in> set (inventories (db w))" "inv_id row = item_inventory_id t"
    "inv_provider_id row = item_provider_id t" by (auto simp: created_item_def)
  have "all_qty (inv_id row) t \<le> qty_on (inv_id row) ts"
    unfolding qty_on_def
  proof (rule sum_list_member_le [OF _ tts])
    fix x assume "x \<in> set ts"
    then show "0 \<le> all_qty (inv_id row) x"
      using created_members [OF ts] pos by (fastforce simp: all_qty_def created_item_def)
  qed
  then have "qty_requested t \<le> booked its lm (inv_id row)"
    using row(2) by (simp add: created_qty_on [OF ts] all_qty_def)
  moreover have "row_booking (db w) row = 1" using p row by (simp add: row_booking_def booking_def)
  moreover have "qty_reserved row + (1 + row_booking (db w) row) * booked its lm (inv_id row) \<le> qty_available row"
    using create_covered [OF run db_inv_keys [OF inv] cov dist] row(1)
    by (simp add: w' covered_def frame_simps)
  ultimately show ?thesis using row by (intro bexI [of _ row]) (simp_all add: effective_def)
qed

theorem internal_hold_needs_twice_witness:
  "(\<exists>r w'. create granting 0 ''ann'' [(2, 4)] start_world = (Inr r, w')) \<and> 2 * 4 \<le> effective sample_row2"
proof -
  let ?c = "create granting 0 ''ann'' [(2, 4)] start_world"
  let ?t = "hd (reservation_items (db (snd ?c)))"
  have "case fst ?c of Inr r \<Rightarrow> items_of (db (snd ?c)) (res_id r) = [?t] | Inl _ \<Rightarrow> False"
    and t: "item_inventory_id ?t = 2 \<and> qty_requested ?t = 4 \<and> get_provider (db start_world) (item_provider_id ?t) = Some own_stock"
    and cov: "covered (db start_world)" by code_simp+
  then obtain r where r: "?c = (Inr r, snd ?c)" "?t \<in> set (items_of (db (snd ?c)) (res_id r))"
    by (cases ?c) (auto split: sum.splits)
  have "db_inv (db start_world)" by (simp add: start_world_def shop_inv)
  from internal_hold_needs_twice [OF r(1) this cov _ r(2), of own_stock] t
  obtain row where row: "row \<in> set (inventories shop)" "inv_id row = 2" "2 * qty_requested ?t \<le> effective row"
    by (auto simp: start_world_def own_stock_def)
  then have "row = sample_row2" by (auto simp: shop_def sample_row1_def sample_row2_def)
  with row(3) t r(1) show ?thesis by metis
qed

text \<open>C28:
  Creating a reservation and cancelling it puts every row of an external provider back to what
  it was, but leaves on every row of an internal provider the reserved quantity larger by the
  quantity of the reservation's items: the second booking, by the adapter, is never undone.\<close>

theorem create_then_cancel_leaks:
  assumes run: "create e now user its w = (Inr r, w1)" and stop: "cancel e' (res_id r) w1 = (Inr u, w2)"
    and inv: "db_inv (db w)" and pos: "\<forall>pq \<in> set its. 0 < snd pq"
  shows "inventories (db w2) =
    map (\<lambda>x. reserve (row_booking (db w) x * qty_on (inv_id x) (items_of (db w2) (res_id r))) x) (inventories (db w))"
  using run db_inv_keys [OF inv]
proof (rule create_InrD)
  fix lm ts
  assume r: "r = new_reservation user (now + ttl e) now (next_reservation_id (db w))"
    and ts: "list_all2 (created_item (db w) (res_id r) lm) its ts"
    and w1: "db w1 = create_effect r ts its lm (db w)"
  have inv1: "db_inv (db w1)" by (rule create_inv [OF run inv pos])
  have r1: "r \<in> set (reservations (db w1))" "res_status r = Pending"
    by (simp_all add: w1 frame_simps r new_reservation_def)
  have items: "items_of (db w1) (res_id r) = ts"
    unfolding w1 by (rule created_items_of [OF inv _ ts]) (simp add: r new_reservation_def)
  have w2: "db w2 = close_reservation Released unreserve Cancelled r (db w1)"
    using stop db_inv_status [OF inv1]
  proof (cases rule: cancel_cases)
    case (noop r')
    then have "r' = r" using reservation_unique [OF db_inv_keys [OF inv1] noop(1) r1(1)] by simp
    then show ?thesis using noop(3) r1(2) by simp
  next
    case (released r')
    then have "r' = r" using reservation_unique [OF db_inv_keys [OF inv1] released(1) r1(1)] by simp
    then show ?thesis using released(4) by simp
  qed
  have "items_of (db w2) (res_id r) = map (set_provider_status Released) ts"
    unfolding w2 by (simp add: close_reservation_own_items [OF db_inv_keys [OF inv1]] items)
  then show ?thesis
    unfolding w2 close_reservation_released [OF inv1 r1] items
    by (simp add: w1 frame_simps created_qty_on [OF ts] comp_def distrib_right)
qed

theorem create_then_cancel_leaks_witness:
  "map qty_reserved (inventories (db (snd (cancel granting 1
     (snd (create granting 0 ''ann'' [(1, 3), (2, 2)] start_world)))))) = [0, 2]"
proof -
  let ?c = "create granting 0 ''ann'' [(1, 3), (2, 2)] start_world"
  let ?x = "cancel granting 1 (snd ?c)"
  have "case fst ?c of Inr r \<Rightarrow> res_id r = 1 | Inl _ \<Rightarrow> False" and "fst ?x = Inr ()"
    and rows: "map (\<lambda>x. row_booking (db start_world) x * qty_on (inv_id x) (items_of (db (snd ?x)) 1))
      (inventories (db start_world)) = [0, 2]" by code_simp+
  then obtain r where r: "?c = (Inr r, snd ?c)" "cancel granting (res_id r) (snd ?c) = (Inr (), snd ?x)" "res_id r = 1"
    by (cases ?c; cases ?x) (auto split: sum.splits)
  have "db_inv (db start_world)" by (simp add: start_world_def shop_inv)
  from create_then_cancel_leaks [OF r(1,2) this] r(3)
  have "map qty_reserved (inventories (db (snd ?x))) =
      map (\<lambda>x. qty_reserved x + row_booking (db start_world) x * qty_on (inv_id x) (items_of (db (snd ?x)) 1))
        (inventories (db start_world))" by simp
  with rows show ?thesis by (simp add: start_world_def shop_def sample_row1_def sample_row2_def)
qed

end
