(* ===== verification/Closing_Properties.thy ===== *)
theory Closing_Properties
  imports Sample Exact Conversation
begin

section \<open>Properties of confirming, cancelling and expiring\<close>

subsection \<open>confirm\<close>

text \<open>C16:
  A confirmation that returns found the reservation pending and not past its expiry; it
  consumes on every row what the reservation's items ask for, of the available and of the
  reserved quantity, confirms these items and the reservation, and appends one order of the
  reservation's user, which it returns.\<close>

theorem confirm_result:
  assumes run: "confirm e now rid w = (Inr ord, w')" and inv: "db_inv (db w)"
  shows "\<exists>r \<in> set (reservations (db w)). res_id r = rid \<and> res_status r = Pending \<and> now \<le> expires_at r \<and>
      ord = \<lparr>order_id = next_order_id (db w), order_reservation_id = rid, order_user_id = res_user_id r,
        order_status = OrderCreated, order_created_at = now\<rparr> \<and>
      orders (db w') = orders (db w) @ [ord] \<and>
      inventories (db w') = map (\<lambda>x. consume (qty_on (inv_id x) (items_of (db w) rid)) x) (inventories (db w)) \<and>
      items_of (db w') rid = map (set_provider_status ItemConfirmed) (items_of (db w) rid) \<and>
      reservations (db w') = upd_by res_id rid (set_status Confirmed) (reservations (db w))"
  using run
proof (rule confirm_InrD)
  fix r
  let ?c = "close_reservation ItemConfirmed consume Confirmed r (db w)"
  assume r: "r \<in> set (reservations (db w))" "res_id r = rid" "res_status r = Pending" "now \<le> expires_at r"
    and add: "add_order (new_order r now) ?c = (Inr ord, db w')"
  have new: "orders d' = orders d @ [ord] \<and> reservations d' = reservations d \<and> inventories d' = inventories d \<and>
      reservation_items d' = reservation_items d \<and> ord = new_order r now (next_order_id d)"
    if "add_order (new_order r now) d = (Inr ord, d')" for d d'
    using that by (auto simp: add_order_def Let_def split: if_splits)
  have "items_of (db w') rid = items_of ?c rid" using new [OF add] by (simp add: items_of_def)
  then have "items_of (db w') rid = map (set_provider_status ItemConfirmed) (items_of (db w) rid)"
    using close_reservation_own_items [OF db_inv_keys [OF inv], of ItemConfirmed consume Confirmed r] by (simp add: r(2))
  moreover have "inventories (db w') = map (\<lambda>x. consume (qty_on (inv_id x) (items_of (db w) rid)) x) (inventories (db w))"
    using new [OF add] close_reservation_consumed [of Confirmed r "db w"] by (simp add: r(2))
  ultimately show ?thesis using new [OF add] r
    by (intro bexI [of _ r]) (simp_all add: frame_simps new_order_def)
qed

theorem confirm_result_witness:
  "\<exists>ord w'. confirm granting 5 1 held_world = (Inr ord, w') \<and> order_user_id ord = ''ann'' \<and>
     map qty_available (inventories (db w')) = [7, 6] \<and> map qty_reserved (inventories (db w')) = [0, 2]"
proof -
  let ?c = "confirm granting 5 1 held_world"
  have "case fst ?c of Inr x \<Rightarrow> True | Inl _ \<Rightarrow> False" by code_simp
  then obtain ord where c: "?c = (Inr ord, snd ?c)" by (cases ?c) (auto split: sum.splits)
  have all: "list_all (\<lambda>r. res_user_id r = ''ann'') (reservations (db held_world))" by code_simp
  note result = confirm_result [OF c held_inv]
  have "inventories (db (snd ?c)) =
      map (\<lambda>x. consume (qty_on (inv_id x) (items_of (db held_world) 1)) x) (inventories (db held_world))"
    using result by blast
  moreover have "map qty_available (map (\<lambda>x. consume (qty_on (inv_id x) (items_of (db held_world) 1)) x)
      (inventories (db held_world))) = [7, 6]"
    and "map qty_reserved (map (\<lambda>x. consume (qty_on (inv_id x) (items_of (db held_world) 1)) x)
      (inventories (db held_world))) = [0, 2]" by code_simp+
  ultimately have rows: "map qty_available (inventories (db (snd ?c))) = [7, 6]"
    "map qty_reserved (inventories (db (snd ?c))) = [0, 2]" by (simp_all only:)
  have "order_user_id ord = ''ann''" using result all by (auto simp: list_all_iff)
  then show ?thesis by (intro exI [of _ ord] exI [of _ "snd ?c"] conjI c rows)
qed

text \<open>While the invariant holds, a confirmation is never refused because an order exists already:
  neither the check for an existing order nor the UNIQUE column is ever hit, since a
  reservation with an order is no longer pending.\<close>

theorem confirm_no_duplicate:
  assumes "db_inv (db w)"
  shows "fst (confirm e now rid w) \<noteq> Inl (DuplicateOrderError m)
     \<and> fst (confirm e now rid w) \<noteq> Inl (IntegrityError m)"
proof (cases "get_with_items (db w) rid")
  case None
  then show ?thesis by (simp add: confirm_def)
next
  case (Some ri)
  obtain r its where ri: "ri = (r, its)" by (cases ri)
  note r = get_with_itemsD [OF Some [unfolded ri]]
  show ?thesis
  proof (cases "res_status r = Pending \<and> tz_aware e \<and> now \<le> expires_at r")
    case False
    then show ?thesis by (auto simp: confirm_def Some ri before_now_def)
  next
    case True
    have "rid \<notin> order_reservation_id ` set (orders (db w))"
    proof
      assume "rid \<in> order_reservation_id ` set (orders (db w))"
      then obtain x where "x \<in> set (reservations (db w))" "res_status x = Confirmed" "res_id x = rid"
        using db_inv_orders [OF assms] by (auto simp: orders_ok_def)
      then show False using reservation_unique [OF db_inv_keys [OF assms], of x r] r True by simp
    qed
    then have none: "get_by_reservation_id (db w) rid = None"
      by (simp add: get_by_reservation_id_def find_by_None)
    obtain res w1 where run: "confirm_items e its w = (res, w1)" by (cases "confirm_items e its w")
    show ?thesis
    proof (cases res)
      case (Inl x)
      then have "low x" using confirm_items_polite [OF refl, of w e its] run by (simp add: polite_def)
      moreover have "x \<noteq> IntegrityError m"
        by (rule confirm_items_integrity [OF run [unfolded Inl]])
      ultimately show ?thesis using True Inl none run by (auto simp: confirm_def Some ri before_now_def)
    next
      case (Inr u)
      have "orders (db w1) = orders (db w)"
        using confirm_items_db [OF run [unfolded Inr]] by (simp add: frame_simps)
      then have "get_by_reservation_id (upd_reservation (res_id r) (set_status Confirmed) (db w1)) (res_id r) = None"
        using none r(2) by (simp add: get_by_reservation_id_def frame_simps)
      then show ?thesis using True Inr none run
        by (simp add: confirm_def Some ri before_now_def add_order_def Let_def new_order_def)
    qed
  qed
qed

theorem confirm_no_duplicate_witness:
  "\<forall>m. fst (confirm granting 5 1 (snd (confirm granting 5 1 held_world))) \<noteq> Inl (DuplicateOrderError m)"
proof -
  have "db_inv (db (snd (confirm granting 5 1 held_world)))" by code_simp
  from confirm_no_duplicate [OF this] show ?thesis by blast
qed

text \<open>At one clock reading a pending reservation is either ready for the sweep or open for
  confirmation, never both and never neither: a confirmation reports it as expired exactly when the
  sweep's query selects it.\<close>

theorem confirm_or_sweep:
  assumes "db_inv (db w)" and "tz_aware e" and "r \<in> set (reservations (db w))" and "res_status r = Pending"
  shows "past_ttl now r \<longleftrightarrow> fst (confirm e now (res_id r) w) = Inl (ReservationStateError
    (''Cannot confirm reservation '' @ str_int (res_id r) @ '': already expired''))"
proof -
  have g: "get_with_items (db w) (res_id r) = Some (r, items_of (db w) (res_id r))"
    using find_by_distinct [of res_id "reservations (db w)" r] db_inv_keys [OF assms(1)] assms(3)
    by (simp add: get_with_items_def get_reservation_def keys_ok_def)
  show ?thesis
  proof (cases "expires_at r < now")
    case True
    then show ?thesis using assms by (simp add: past_ttl_def confirm_def g before_now_def)
  next
    case False
    have low: "low x" if "confirm_items e ts w = (Inl x, w1)" for ts x w1
      using confirm_items_polite [OF refl, of w e ts] that by (simp add: polite_def)
    have "fst (confirm e now (res_id r) w) \<noteq> Inl (ReservationStateError m)" for m
      using assms False low [of "items_of (db w) (res_id r)"]
      by (auto simp: confirm_def g before_now_def add_order_def Let_def split: prod.splits sum.splits)
    then show ?thesis using False by (simp add: past_ttl_def)
  qed
qed

theorem confirm_or_sweep_witness:
  "\<exists>r \<in> set (reservations (db held_world)). past_ttl 900000001 r \<and> \<not> past_ttl 900000000 r \<and>
     fst (confirm granting 900000001 (res_id r) held_world) = Inl (ReservationStateError
       (''Cannot confirm reservation '' @ str_int (res_id r) @ '': already expired''))"
proof -
  let ?r = "hd (reservations (db held_world))"
  have "?r \<in> set (reservations (db held_world)) \<and> res_status ?r = Pending \<and> past_ttl 900000001 ?r \<and>
      \<not> past_ttl 900000000 ?r \<and> tz_aware granting" by code_simp
  with confirm_or_sweep [OF held_inv, of granting ?r 900000001] show ?thesis by blast
qed

text \<open>With a driver that returns datetimes without an offset no reservation is ever confirmed: the
  comparison with the current UTC time raises TypeError for every pending one.\<close>

theorem confirm_naive_datetimes:
  assumes "\<not> tz_aware e" and "get_with_items (db w) rid = Some (r, its)" and "res_status r = Pending"
  shows "\<exists>m. confirm e now rid w = (Inl (TypeError m), w)"
  using assms by (simp add: confirm_def before_now_def)

theorem confirm_naive_datetimes_witness:
  "\<exists>m. confirm (granting\<lparr>tz_aware := False\<rparr>) 5 1 held_world = (Inl (TypeError m), held_world)"
proof -
  let ?g = "the (get_with_items (db held_world) 1)"
  have "get_with_items (db held_world) 1 \<noteq> None \<and> res_status (fst ?g) = Pending" by code_simp
  then have "get_with_items (db held_world) 1 = Some (fst ?g, snd ?g)" "res_status (fst ?g) = Pending" by auto
  from confirm_naive_datetimes [OF _ this, of "granting\<lparr>tz_aware := False\<rparr>" 5] show ?thesis by simp
qed

subsection \<open>cancel\<close>

text \<open>The reservation of an id, after its status has been set.\<close>

lemma get_with_items_settled:
  assumes "keys_ok d" and "r \<in> set (reservations d)"
    and "reservations d' = upd_by res_id (res_id r) (set_status S) (reservations d)"
  shows "\<exists>its. get_with_items d' (res_id r) = Some (set_status S r, its)"
proof -
  have "find_by res_id (res_id r) (reservations d) = Some r"
    using assms(1,2) by (simp add: keys_ok_def find_by_distinct)
  then show ?thesis
    by (simp add: get_with_items_def get_reservation_def assms(3) find_by_upd_same)
qed

text \<open>C17:
  A cancellation that returns either found the reservation cancelled or expired and did nothing,
  or found it pending: then its items are released, on every row exactly their quantities are
  taken off the reserved quantity (the lower bound of zero never cuts anything off), and the
  reservation is cancelled.\<close>

theorem cancel_result:
  assumes "cancel e rid w = (Inr u, w')" and inv: "db_inv (db w)"
  shows "\<exists>r \<in> set (reservations (db w)). res_id r = rid \<and>
      (res_status r \<in> {Cancelled, Expired} \<and> w' = w \<or>
       res_status r = Pending \<and>
       inventories (db w') = map (\<lambda>x. reserve (- qty_on (inv_id x) (items_of (db w) rid)) x) (inventories (db w)) \<and>
       items_of (db w') rid = map (set_provider_status Released) (items_of (db w) rid) \<and>
       reservations (db w') = upd_by res_id rid (set_status Cancelled) (reservations (db w)) \<and>
       orders (db w') = orders (db w))"
  using assms(1) db_inv_status [OF inv]
proof (cases rule: cancel_cases)
  case (noop r)
  then show ?thesis by blast
next
  case (released r)
  have "inventories (db w') = map (\<lambda>x. reserve (- qty_on (inv_id x) (items_of (db w) rid)) x) (inventories (db w))"
    using close_reservation_released [OF inv released(1,3), of Cancelled] by (simp add: released(2,4))
  moreover have "items_of (db w') rid = map (set_provider_status Released) (items_of (db w) rid)"
    using close_reservation_own_items [OF db_inv_keys [OF inv], of Released unreserve Cancelled r]
    by (simp add: released(2,4))
  ultimately show ?thesis using released by (intro bexI [of _ r]) (simp_all add: frame_simps)
qed

theorem cancel_result_witness:
  "map qty_reserved (inventories (db (snd (cancel silent 1 held_world)))) = [0, 2]"
proof -
  let ?c = "cancel silent 1 held_world"
  have "fst ?c = Inr ()" by code_simp
  then have c: "?c = (Inr (), snd ?c)" by (cases ?c) auto
  have pending: "list_all (\<lambda>r. res_status r = Pending) (reservations (db held_world))" by code_simp
  have "inventories (db (snd ?c)) =
      map (\<lambda>x. reserve (- qty_on (inv_id x) (items_of (db held_world) 1)) x) (inventories (db held_world))"
    using cancel_result [OF c held_inv] pending by (auto simp: list_all_iff)
  moreover have "map qty_reserved (map (\<lambda>x. reserve (- qty_on (inv_id x) (items_of (db held_world) 1)) x)
      (inventories (db held_world))) = [0, 2]" by code_simp
  ultimately show ?thesis by (simp only:)
qed

text \<open>
  A cancellation that has returned can be repeated: the repetition returns as well, changes
  nothing and sends no request.\<close>

theorem cancel_idempotent:
  assumes "cancel e rid w = (Inr u, w')" and inv: "db_inv (db w)"
  shows "cancel e' rid w' = (Inr (), w')"
  using assms(1) db_inv_status [OF inv]
proof (cases rule: cancel_cases)
  case (noop r)
  then have "find_by res_id rid (reservations (db w)) = Some r"
    using db_inv_keys [OF inv] find_by_distinct [of res_id "reservations (db w)" r] by (simp add: keys_ok_def)
  then show ?thesis using noop(3,4) by (auto simp: cancel_def get_with_items_def get_reservation_def)
next
  case (released r)
  obtain its where "get_with_items (db w') (res_id r) = Some (set_status Cancelled r, its)"
    using get_with_items_settled [OF db_inv_keys [OF inv] released(1), of "db w'" Cancelled]
    by (auto simp: released(4) frame_simps)
  then show ?thesis by (simp add: cancel_def released(2))
qed

theorem cancel_idempotent_witness:
  "cancel silent 1 (snd (cancel granting 1 held_world)) = (Inr (), snd (cancel granting 1 held_world))"
proof -
  have "fst (cancel granting 1 held_world) = Inr ()" by code_simp
  then have "cancel granting 1 held_world = (Inr (), snd (cancel granting 1 held_world))"
    by (cases "cancel granting 1 held_world") auto
  from cancel_idempotent [OF this held_inv] show ?thesis .
qed

text \<open>C27:
  A pending reservation can be cancelled whatever the providers answer, and also when they do not
  answer: it is enough that the providers of its held items have a complete configuration.\<close>

theorem cancel_returns:
  assumes "get_with_items (db w) rid = Some (r, its)" and "res_status r = Pending" and "releasable (db w) its"
  shows "\<exists>w'. cancel e rid w = (Inr (), w')"
proof -
  obtain w1 where "release_items e its w = (Inr (), w1)"
    using release_items_returns [OF assms(3)] by blast
  then show ?thesis using assms(1,2) by (simp add: cancel_def release_and_set_def)
qed

theorem cancel_returns_witness:
  "\<forall>e. \<exists>w'. cancel e 1 held_world = (Inr (), w')"
proof -
  let ?g = "the (get_with_items (db held_world) 1)"
  have p: "get_with_items (db held_world) 1 \<noteq> None \<and> res_status (fst ?g) = Pending" by code_simp
  have "list_all (\<lambda>t. get_provider (db held_world) (item_provider_id t) = Some warehouse \<or> held_ref t = None) (snd ?g)"
    by code_simp
  moreover have "build_auth_headers (case auth_config warehouse of None \<Rightarrow> [] | Some ac \<Rightarrow> ac) = Inr [(''K'', ''v'')]"
    and "prov_type warehouse = external" by code_simp+
  ultimately have "releasable (db held_world) (snd ?g)"
    by (auto simp: releasable_def resolvable_def list_all_iff)
  moreover from p have "get_with_items (db held_world) 1 = Some (fst ?g, snd ?g)" and "res_status (fst ?g) = Pending"
    by auto
  ultimately show ?thesis using cancel_returns by blast
qed

text \<open>A reservation is settled once: after a confirmation that returned, a further confirmation and a
  cancellation are both refused as being in the wrong state, without a change.\<close>

theorem settled_once:
  assumes "confirm e now rid w = (Inr ord, w')" and inv: "db_inv (db w)"
  shows "\<exists>m n. confirm e' now' rid w' = (Inl (ReservationStateError m), w')
    \<and> cancel e'' rid w' = (Inl (ReservationStateError n), w')"
  using assms(1)
proof (rule confirm_InrD)
  fix r
  assume r: "r \<in> set (reservations (db w))" "res_id r = rid"
    and add: "add_order (new_order r now) (close_reservation ItemConfirmed consume Confirmed r (db w)) = (Inr ord, db w')"
  have "reservations d' = reservations d" if "add_order (new_order r now) d = (Inr ord, d')" for d d'
    using that by (auto simp: add_order_def Let_def split: if_splits)
  from this [OF add] obtain its where "get_with_items (db w') (res_id r) = Some (set_status Confirmed r, its)"
    using get_with_items_settled [OF db_inv_keys [OF inv] r(1), of "db w'" Confirmed]
    by (auto simp: frame_simps)
  then show ?thesis by (simp add: confirm_def cancel_def r(2))
qed

theorem settled_once_witness:
  "\<exists>m. cancel silent 1 (snd (confirm granting 5 1 held_world)) =
     (Inl (ReservationStateError m), snd (confirm granting 5 1 held_world))"
proof -
  let ?c = "confirm granting 5 1 held_world"
  have "case fst ?c of Inr x \<Rightarrow> True | Inl _ \<Rightarrow> False" by code_simp
  then obtain ord where "?c = (Inr ord, snd ?c)" by (cases ?c) (auto split: sum.splits)
  from settled_once [OF this held_inv] show ?thesis by blast
qed

subsection \<open>The sweep\<close>

text \<open>C24:
  Sweeps make progress whatever the providers answer, if the configuration of every provider that holds
  something is complete: n sweeps at one clock reading deal with the first hundred times n
  expired reservations, in the order of the query, and leave exactly the others; none is left once
  a hundred times n reaches their number.\<close>

theorem sweeps_clear:
  assumes "db_inv (db w)" and "releasable (db w) (reservation_items (db w))"
  shows "filter (past_ttl now) (reservations (db ((run_expiry_sweep e now ^^ n) w))) =
      drop (100 * n) (filter (past_ttl now) (reservations (db w))) \<and>
    (length (filter (past_ttl now) (reservations (db w))) \<le> 100 * n \<longrightarrow>
      (\<forall>r \<in> set (reservations (db ((run_expiry_sweep e now ^^ n) w))). \<not> past_ttl now r))"
proof (intro conjI impI)
  show cleared: "filter (past_ttl now) (reservations (db ((run_expiry_sweep e now ^^ n) w))) =
      drop (100 * n) (filter (past_ttl now) (reservations (db w)))"
    using sweeps_progress [OF assms] by blast
  assume "length (filter (past_ttl now) (reservations (db w))) \<le> 100 * n"
  then have "filter (past_ttl now) (reservations (db ((run_expiry_sweep e now ^^ n) w))) = []"
    unfolding cleared by simp
  then show "\<forall>r \<in> set (reservations (db ((run_expiry_sweep e now ^^ n) w))). \<not> past_ttl now r"
    by (simp add: filter_empty_conv)
qed

theorem sweeps_clear_witness:
  "list_all (\<lambda>r. \<not> past_ttl 900000001 r) (reservations (db ((run_expiry_sweep silent 900000001 ^^ 1) held_world)))"
proof -
  have "list_all (\<lambda>t. get_provider (db held_world) (item_provider_id t) = Some warehouse \<or> held_ref t = None)
      (reservation_items (db held_world))" by code_simp
  moreover have "build_auth_headers (case auth_config warehouse of None \<Rightarrow> [] | Some ac \<Rightarrow> ac) = Inr [(''K'', ''v'')]"
    and "prov_type warehouse = external" by code_simp+
  ultimately have "releasable (db held_world) (reservation_items (db held_world))"
    by (auto simp: releasable_def resolvable_def list_all_iff)
  moreover have "length (filter (past_ttl 900000001) (reservations (db held_world))) \<le> 100 * 1" by code_simp
  ultimately show ?thesis unfolding list_all_iff using sweeps_clear [OF held_inv] by blast
qed

text \<open>C32:
  One expired reservation among those the query returns, with a held item whose provider has an
  incomplete configuration, blocks the whole sweep: every table stays as it was.\<close>

theorem sweep_blocked:
  assumes inv: "db_inv (db w)" and ri: "ri \<in> set (get_expired_pending now (db w) sweep_limit)"
    and t: "t \<in> set (snd ri)" "held_ref t \<noteq> None" and bad: "\<not> resolvable (db w) t"
  shows "inventories (db (run_expiry_sweep e now w)) = inventories (db w) \<and>
    reservations (db (run_expiry_sweep e now w)) = reservations (db w) \<and>
    reservation_items (db (run_expiry_sweep e now w)) = reservation_items (db w) \<and>
    orders (db (run_expiry_sweep e now w)) = orders (db w)"
proof -
  have "t \<in> set (reservation_items (db w))"
    using ri t(1) by (auto simp: get_expired_pending_def items_of_def)
  moreover have "provider_hold_ref t \<noteq> None" using t(2) by (auto simp: held_ref_def split: if_splits)
  ultimately have "booking (get_provider (db w) (item_provider_id t)) = 0"
    using inv by (auto simp: db_inv_def core_def refs_ok_def item_ok_def)
  from expire_all_raise [OF ri t bad this, of e] obtain x w' where
    "expire_all e (get_expired_pending now (db w) sweep_limit) w = (Inl x, w')" by blast
  then show ?thesis by (simp add: run_expiry_sweep_def expire_batch_def frame_simps)
qed

text \<open>The sample shop, after the key has been dropped from the warehouse's configuration.\<close>

definition broken_world :: world where
  "broken_world = on_db (\<lambda>d. d\<lparr>providers := [own_stock, warehouse\<lparr>auth_config := Some [(''type'', ''api_key'')]\<rparr>]\<rparr>) held_world"

theorem sweep_blocked_witness:
  "reservations (db (run_expiry_sweep granting 900000001 broken_world)) = reservations (db broken_world)"
proof -
  let ?ri = "hd (get_expired_pending 900000001 (db broken_world) sweep_limit)"
  have inv: "db_inv (db broken_world)" by code_simp
  have "?ri \<in> set (get_expired_pending 900000001 (db broken_world) sweep_limit)"
    and t: "hd (snd ?ri) \<in> set (snd ?ri)" "held_ref (hd (snd ?ri)) \<noteq> None" by code_simp+
  moreover have "case get_provider (db broken_world) (item_provider_id (hd (snd ?ri))) of None \<Rightarrow> True
      | Some p \<Rightarrow> (case build_auth_headers (case auth_config p of None \<Rightarrow> [] | Some ac \<Rightarrow> ac) of
          Inl _ \<Rightarrow> True | Inr _ \<Rightarrow> False)" by code_simp
  then have "\<not> resolvable (db broken_world) (hd (snd ?ri))" by (auto simp: resolvable_def)
  ultimately show ?thesis using sweep_blocked [OF inv] by blast
qed

end
