(* ===== verification/Provider_Properties.thy ===== *)
theory Provider_Properties
  imports Sample Exact Conversation
begin

section \<open>Properties of the provider adapters, and of create towards them\<close>

subsection \<open>A request that reaches the providers\<close>

text \<open>
  Within one session the second check of \<open>create\<close> sees the rows the first one saw, so a
  request that passes the pre-flight check goes on to the providers.
\<close>

lemma lock_and_recheck_passes:
  assumes "keys_ok d"
    and "\<forall>pq \<in> set its. \<exists>row \<in> set (inventories d). m (fst pq) = Some (inv_id row) \<and> snd pq \<le> effective row"
  shows "\<exists>lm'. lock_and_recheck d its m lm = Inr lm'"
  using assms(2)
proof (induction its arbitrary: lm)
  case Nil
  then show ?case by simp
next
  case (Cons pq its)
  obtain row where row: "row \<in> set (inventories d)" "m (fst pq) = Some (inv_id row)" "snd pq \<le> effective row"
    using Cons.prems by auto
  have "get_inventory d (inv_id row) = Some row"
    using assms(1) row(1) by (simp add: get_inventory_def keys_ok_def find_by_distinct)
  then show ?case using row Cons
    by (cases pq) (simp add: get_by_id_for_update_def)
qed

lemma reserve_all_passes:
  "\<forall>pq \<in> set its. lm (fst pq) \<noteq> None \<Longrightarrow> \<exists>d1. reserve_all its lm d = Inr d1"
proof (induction its arbitrary: d)
  case Nil
  then show ?case by simp
next
  case (Cons pq its)
  then show ?case by (cases pq) (auto split: option.splits)
qed

lemma create_reaches_holds:
  assumes "keys_ok (db w)" and "preflight (db w) its Map.empty = Inr m"
  obtains lm d1 where "locked_ok (db w) its lm" and "d1 = reserve_rows (\<lambda>r. booked its lm (inv_id r)) (db w)"
    and "create e now user its w =
      (let r = new_reservation user (now + ttl e) now (next_reservation_id d1) in
       case hold_items e (res_id r) lm its (w\<lparr>db := insert_reservation r d1\<rparr>) of
         (Inl x, w') \<Rightarrow> (Inl x, w') | (Inr _, w') \<Rightarrow> (Inr r, w'))"
proof -
  have "\<forall>pq \<in> set its. \<exists>row \<in> set (inventories (db w)). m (fst pq) = Some (inv_id row) \<and> snd pq \<le> effective row"
    using preflight_Inr [OF assms(2)] get_best_availableD(1) by blast
  from lock_and_recheck_passes [OF assms(1) this] obtain lm
    where lm: "lock_and_recheck (db w) its m Map.empty = Inr lm" by blast
  have ok: "locked_ok (db w) its lm" by (rule phases_locked [OF assms lm])
  then have "\<forall>pq \<in> set its. lm (fst pq) \<noteq> None" by (force simp: locked_ok_def)
  from reserve_all_passes [OF this] obtain d1 where d1: "reserve_all its lm (db w) = Inr d1" by blast
  show ?thesis
  proof (rule that [OF ok reserve_all_Inr [OF d1]])
    have "res_id (new_reservation user (now + ttl e) now k) = k" for k by (simp add: new_reservation_def)
    then show "create e now user its w =
      (let r = new_reservation user (now + ttl e) now (next_reservation_id d1) in
       case hold_items e (res_id r) lm its (w\<lparr>db := insert_reservation r d1\<rparr>) of
         (Inl x, w') \<Rightarrow> (Inl x, w') | (Inr _, w') \<Rightarrow> (Inr r, w'))"
      by (simp add: create_def assms(2) lm d1 add_reservation_def Let_def insert_reservation_def)
  qed
qed

text \<open>The row belongs to an external provider that can be asked for a hold.\<close>

definition can_hold :: "database \<Rightarrow> inventory \<Rightarrow> bool" where
  "can_hold d row \<longleftrightarrow>
     (case get_provider d (inv_provider_id row) of
        None \<Rightarrow> False
      | Some p \<Rightarrow> prov_type p = external \<and>
          (case external_init p of Inl _ \<Rightarrow> False | Inr a \<Rightarrow> require_capability a ''hold_stock'' = None)) \<and>
     get_product d (inv_product_id row) \<noteq> None"

lemma can_hold_cong:
  "providers d' = providers d \<Longrightarrow> products d' = products d \<Longrightarrow> can_hold d' row = can_hold d row"
  by (simp add: can_hold_def get_provider_def get_product_def)

lemma hold_item_external:
  assumes "lm (fst pq) = Some i" and "get_inventory (db w) i = Some row" and "can_hold (db w) row"
  obtains a s w1 where "require_capability a ''hold_stock'' = None"
    and "db w1 = append_item (new_item rid (fst pq) row (snd pq) (next_item_id (db w))) (db w)"
    and "hold_item e rid lm pq w = settle_hold (fst pq) (next_item_id (db w)) (ext_hold_stock e a s (snd pq) rid w1)"
proof -
  let ?d = "append_item (new_item rid (fst pq) row (snd pq) (next_item_id (db w))) (db w)"
  have "can_hold ?d row" using assms(3) can_hold_cong [of ?d "db w"] by (simp add: frame_simps)
  then obtain p a pr where p: "get_provider ?d (inv_provider_id row) = Some p" "prov_type p = external"
    "external_init p = Inr a" "require_capability a ''hold_stock'' = None" "get_product ?d (inv_product_id row) = Some pr"
    by (auto simp: can_hold_def split: option.splits sum.splits)
  show ?thesis
    by (rule that [OF p(4), of "w\<lparr>db := ?d\<rparr>" "sku pr"])
       (use assms(1,2) p in \<open>simp_all add: hold_item_def add_item_def append_item_def Let_def registry_resolve_def hold_stock_def\<close>)
qed

definition all_can_hold :: "database \<Rightarrow> (int \<times> int) list \<Rightarrow> (int \<rightharpoonup> int) \<Rightarrow> bool" where
  "all_can_hold d its lm \<longleftrightarrow>
     (\<forall>pq \<in> set its. \<exists>i row. lm (fst pq) = Some i \<and> get_inventory d i = Some row \<and> can_hold d row)"

lemma hold_items_timeouts:
  assumes "\<forall>h rq. http e h rq = Timeout" and "all_can_hold (db w) its lm"
    and "\<forall>t \<in> set (reservation_items (db w)). item_id t < next_item_id (db w)"
  shows "\<exists>w' ts. hold_items e rid lm its w = (Inr (), w') \<and>
    reservation_items (db w') = reservation_items (db w) @ ts \<and> (\<forall>t \<in> set ts. provider_status t = ProviderFailed)"
  using assms(2,3)
proof (induction its arbitrary: w)
  case Nil
  then show ?case by simp
next
  case (Cons pq its)
  let ?k = "next_item_id (db w)"
  obtain i row where row: "lm (fst pq) = Some i" "get_inventory (db w) i = Some row" "can_hold (db w) row"
    using Cons.prems(1) by (auto simp: all_can_hold_def)
  obtain a s w1 where cap: "require_capability a ''hold_stock'' = None"
    and w1: "db w1 = append_item (new_item rid (fst pq) row (snd pq) ?k) (db w)"
    and eq: "hold_item e rid lm pq w = settle_hold (fst pq) ?k (ext_hold_stock e a s (snd pq) rid w1)"
    by (rule hold_item_external [where lm = lm and pq = pq and rid = rid and e = e, OF row])
  let ?t = "\<lambda>m. mark_failed m (new_item rid (fst pq) row (snd pq) ?k)"
  obtain m w2 where step: "hold_item e rid lm pq w = (Inr (), w2)"
    and w2: "db w2 = upd_item ?k (mark_failed m) (db w1)"
    using cap assms(1) by (simp add: eq ext_hold_stock_def send_def settle_hold_def)
  have d2: "db w2 = append_item (?t m) (db w)"
    unfolding w2 w1 by (rule append_then_update [OF Cons.prems(2)]) (simp add: new_item_def)
  have t: "provider_status (?t m) = ProviderFailed" "item_id (?t m) = ?k"
    by (simp_all add: mark_failed_def new_item_def)
  have "all_can_hold (db w2) its lm"
    using Cons.prems(1) by (auto simp: all_can_hold_def d2 get_inventory_def frame_simps can_hold_def
        get_provider_def get_product_def)
  moreover have "\<forall>t \<in> set (reservation_items (db w2)). item_id t < next_item_id (db w2)"
    using Cons.prems(2) t(2) by (auto simp: d2 frame_simps)
  ultimately obtain w' ts where "hold_items e rid lm its w2 = (Inr (), w')"
    "reservation_items (db w') = reservation_items (db w2) @ ts" "\<forall>t \<in> set ts. provider_status t = ProviderFailed"
    using Cons.IH by blast
  then show ?case
    using step t(1) by (intro exI [of _ w'] exI [of _ "?t m # ts"]) (simp add: d2 frame_simps)
qed

lemma all_can_hold_start:
  assumes "keys_ok d" and "locked_ok d its lm" and "\<forall>row \<in> set (inventories d). can_hold d row"
  shows "all_can_hold (insert_reservation r (reserve_rows (\<lambda>r. booked its lm (inv_id r)) d)) its lm"
  unfolding all_can_hold_def
proof
  let ?d = "insert_reservation r (reserve_rows (\<lambda>r. booked its lm (inv_id r)) d)"
  fix pq assume "pq \<in> set its"
  then obtain row where row: "row \<in> set (inventories d)" "lm (fst pq) = Some (inv_id row)"
    using assms(2) by (auto simp: locked_ok_def)
  let ?row = "reserve (booked its lm (inv_id row)) row"
  have "?row \<in> set (inventories ?d)" and "distinct (map inv_id (inventories ?d))"
    using row(1) assms(1) by (auto simp: insert_reservation_def frame_simps keys_ok_def comp_def)
  then have "get_inventory ?d (inv_id row) = Some ?row"
    using find_by_distinct [of inv_id "inventories ?d" ?row] by (simp add: get_inventory_def)
  moreover have "can_hold ?d ?row = can_hold d row"
    by (simp add: can_hold_def insert_reservation_def frame_simps get_provider_def get_product_def)
  ultimately show "\<exists>i row. lm (fst pq) = Some i \<and> get_inventory ?d i = Some row \<and> can_hold ?d row"
    using row assms(3) by auto
qed

subsection \<open>create when providers do not answer\<close>

text \<open>
  create is fail-open on timeouts: when no provider answers in time, a request that passes the
  pre-flight check still creates its reservation, with every item marked failed.\<close>

theorem create_survives_timeouts:
  assumes "\<forall>h rq. http e h rq = Timeout" and "db_inv (db w)"
    and "\<forall>row \<in> set (inventories (db w)). can_hold (db w) row"
    and "preflight (db w) its Map.empty = Inr m"
  shows "\<exists>r w' ts. create e now user its w = (Inr r, w') \<and>
    reservation_items (db w') = reservation_items (db w) @ ts \<and> (\<forall>t \<in> set ts. provider_status t = ProviderFailed)"
proof -
  note keys = db_inv_keys [OF assms(2)]
  obtain lm d1 where lm: "locked_ok (db w) its lm" and d1: "d1 = reserve_rows (\<lambda>r. booked its lm (inv_id r)) (db w)"
    and eq: "create e now user its w =
      (let r = new_reservation user (now + ttl e) now (next_reservation_id d1) in
       case hold_items e (res_id r) lm its (w\<lparr>db := insert_reservation r d1\<rparr>) of
         (Inl x, w') \<Rightarrow> (Inl x, w') | (Inr _, w') \<Rightarrow> (Inr r, w'))"
    by (rule create_reaches_holds [OF keys assms(4), of e now user])
  let ?r = "new_reservation user (now + ttl e) now (next_reservation_id d1)"
  let ?w = "w\<lparr>db := insert_reservation ?r d1\<rparr>"
  have "all_can_hold (db ?w) its lm" using all_can_hold_start [OF keys lm assms(3), of ?r] by (simp add: d1)
  moreover have "\<forall>t \<in> set (reservation_items (db ?w)). item_id t < next_item_id (db ?w)"
    using keys by (simp add: d1 insert_reservation_def frame_simps keys_ok_def)
  ultimately obtain w' ts where "hold_items e (res_id ?r) lm its ?w = (Inr (), w')"
    "reservation_items (db w') = reservation_items (db ?w) @ ts" "\<forall>t \<in> set ts. provider_status t = ProviderFailed"
    using hold_items_timeouts [OF assms(1), of ?w its lm "res_id ?r"] by blast
  then show ?thesis
    by (intro exI [of _ ?r] exI [of _ w'] exI [of _ ts])
       (simp add: eq Let_def d1 insert_reservation_def frame_simps)
qed

text \<open>The sample shop with the warehouse's row alone.\<close>

definition depot_world :: world where
  "depot_world = on_db (\<lambda>d. d\<lparr>inventories := [sample_row1]\<rparr>) start_world"

theorem create_survives_timeouts_witness:
  "\<exists>r w' ts. create silent 0 ''ann'' [(1, 3)] depot_world = (Inr r, w') \<and>
    reservation_items (db w') = ts \<and> list_all (\<lambda>t. provider_status t = ProviderFailed) ts"
proof -
  have inv: "db_inv (db depot_world)" by code_simp
  have can: "\<forall>row \<in> set (inventories (db depot_world)). can_hold (db depot_world) row"
    and empty: "reservation_items (db depot_world) = []"
    and "case preflight (db depot_world) [(1, 3)] Map.empty of Inl _ \<Rightarrow> False | Inr _ \<Rightarrow> True" by code_simp+
  then obtain m where m: "preflight (db depot_world) [(1, 3)] Map.empty = Inr m" by (auto split: sum.splits)
  have "\<forall>h rq. http silent h rq = Timeout" by (simp add: silent_def answering_def)
  from create_survives_timeouts [OF this inv can m] empty show ?thesis by (simp add: list_all_iff)
qed

text \<open>C30:
  A provider that cannot be reached at all is not treated like one that times out: any other
  transport error leaves hold_stock as it is, so the same request fails with that error, which no
  handler of the application maps.\<close>

theorem create_fails_unreachable:
  assumes "\<forall>h rq. http e h rq = TransportFailure msg" and "db_inv (db w)"
    and "\<forall>row \<in> set (inventories (db w)). can_hold (db w) row"
    and "preflight (db w) its Map.empty = Inr m" and "its \<noteq> []"
  shows "fst (create e now user its w) = Inl (TransportError msg) \<and>
    exception_reply (TransportError msg) = (unhandled_exception_handler :: payload reply)"
proof -
  note keys = db_inv_keys [OF assms(2)]
  obtain lm d1 where lm: "locked_ok (db w) its lm" and d1: "d1 = reserve_rows (\<lambda>r. booked its lm (inv_id r)) (db w)"
    and eq: "create e now user its w =
      (let r = new_reservation user (now + ttl e) now (next_reservation_id d1) in
       case hold_items e (res_id r) lm its (w\<lparr>db := insert_reservation r d1\<rparr>) of
         (Inl x, w') \<Rightarrow> (Inl x, w') | (Inr _, w') \<Rightarrow> (Inr r, w'))"
    by (rule create_reaches_holds [OF keys assms(4), of e now user])
  let ?r = "new_reservation user (now + ttl e) now (next_reservation_id d1)"
  let ?w = "w\<lparr>db := insert_reservation ?r d1\<rparr>"
  have "all_can_hold (db ?w) its lm" using all_can_hold_start [OF keys lm assms(3), of ?r] by (simp add: d1)
  then obtain pq rest i row where its: "its = pq # rest"
    and row: "lm (fst pq) = Some i" "get_inventory (db ?w) i = Some row" "can_hold (db ?w) row"
    using assms(5) by (cases its) (auto simp: all_can_hold_def)
  obtain a s w1 where "require_capability a ''hold_stock'' = None"
    "hold_item e (res_id ?r) lm pq ?w =
      settle_hold (fst pq) (next_item_id (db ?w)) (ext_hold_stock e a s (snd pq) (res_id ?r) w1)"
    by (rule hold_item_external [where lm = lm and pq = pq and rid = "res_id ?r" and e = e, OF row])
  then have "\<exists>w2. hold_item e (res_id ?r) lm pq ?w = (Inl (TransportError msg), w2)"
    using assms(1) by (simp add: ext_hold_stock_def send_def settle_hold_def)
  then show ?thesis by (auto simp: eq [unfolded its] Let_def its exception_reply_def)
qed

theorem create_fails_unreachable_witness:
  "fst (create (answering (TransportFailure ''refused'')) 0 ''ann'' [(1, 3)] depot_world) =
     Inl (TransportError ''refused'')"
proof -
  have inv: "db_inv (db depot_world)" by code_simp
  have can: "\<forall>row \<in> set (inventories (db depot_world)). can_hold (db depot_world) row"
    and "case preflight (db depot_world) [(1, 3)] Map.empty of Inl _ \<Rightarrow> False | Inr _ \<Rightarrow> True" by code_simp+
  then obtain m where m: "preflight (db depot_world) [(1, 3)] Map.empty = Inr m" by (auto split: sum.splits)
  have "\<forall>h rq. http (answering (TransportFailure ''refused'')) h rq = TransportFailure ''refused''"
    by (simp add: answering_def)
  from create_fails_unreachable [OF this inv can m] show ?thesis by simp
qed

text \<open>C31:
  create sends nothing but POST requests, and nothing but ReservationService.create's own
  exceptions, InsufficientStockError and errors no handler maps leave it: when a later item is
  refused, the rollback restores the tables but no DELETE releases the holds that providers have
  already granted.\<close>

theorem create_only_posts:
  assumes "create e now user its w = (Inl x, w')"
  shows "(\<exists>rs. sent w' = sent w @ rs \<and> (\<forall>rq \<in> set rs. req_method rq = POST)) \<and>
    (low x \<or> (\<exists>m. x = InsufficientStockError m))"
  using create_polite [OF refl, of w e now user its] assms by (auto simp: polite_def refusal_def)

text \<open>A shop with two warehouse rows; the second hold is refused.\<close>

definition two_rows_world :: world where
  "two_rows_world = on_db (\<lambda>d. d\<lparr>inventories := [sample_row1, sample_row2\<lparr>inv_provider_id := 2\<rparr>]\<rparr>) start_world"

definition once_granting :: env where
  "once_granting = granting\<lparr>http := (\<lambda>h r. if h = [] then http granting h r else http refusing h r)\<rparr>"

theorem create_only_posts_witness:
  "(case create once_granting 0 ''ann'' [(1, 3), (2, 2)] two_rows_world of
     (Inl x, w') \<Rightarrow> map req_method (sent w') = [POST, POST] | (Inr r, w') \<Rightarrow> False)"
proof -
  let ?c = "create once_granting 0 ''ann'' [(1, 3), (2, 2)] two_rows_world"
  have "case fst ?c of Inl x \<Rightarrow> True | Inr r \<Rightarrow> False" and n: "length (sent (snd ?c)) = 2"
    and empty: "sent two_rows_world = []" by code_simp+
  then obtain x where x: "?c = (Inl x, snd ?c)" by (cases ?c) (auto split: sum.splits)
  have "\<forall>rq \<in> set (sent (snd ?c)). req_method rq = POST"
    using create_only_posts [OF x] empty by auto
  with n have "map req_method (sent (snd ?c)) = [POST, POST]"
    by (auto simp: length_Suc_conv numeral_2_eq_2)
  then show ?thesis by (subst x) simp
qed

subsection \<open>Capabilities\<close>

text \<open>An external provider that does not declare a capability is never sent the request that needs
  it: hold, release and confirm raise CapabilityNotSupported and leave the world as it is.\<close>

theorem unsupported_sends_nothing:
  assumes "\<forall>c \<in> {''hold_stock'', ''release_hold'', ''confirm_hold''}.
      case map_of (ext_capabilities a) c of None \<Rightarrow> True | Some v \<Rightarrow> \<not> truthy v"
  shows "\<exists>m n k. ext_hold_stock e a s q rid w = (Inl (CapabilityNotSupported m), w) \<and>
    ext_release_hold e a ref w = (Inl (CapabilityNotSupported n), w) \<and>
    ext_confirm_hold e a ref w = (Inl (CapabilityNotSupported k), w)"
  using assms
  by (auto simp: ext_hold_stock_def ext_release_hold_def ext_confirm_hold_def require_capability_def
      split: option.splits)

definition read_only_adapter :: external_adapter where
  "read_only_adapter = \<lparr>ext_name = ''WH'', ext_capabilities = [(''check_stock'', JBool True), (''hold_stock'', JBool False)],
     ext_base_url = ''http://w'', ext_timeout = 5, ext_headers = []\<rparr>"

theorem unsupported_sends_nothing_witness:
  "\<exists>m. ext_hold_stock granting read_only_adapter ''A'' 1 1 start_world = (Inl (CapabilityNotSupported m), start_world)"
proof -
  have "\<forall>c \<in> {''hold_stock'', ''release_hold'', ''confirm_hold''}.
      case map_of (ext_capabilities read_only_adapter) c of None \<Rightarrow> True | Some v \<Rightarrow> \<not> truthy v" by code_simp
  from unsupported_sends_nothing [OF this, of granting "''A''" 1 1 start_world "''H''"] show ?thesis by blast
qed

end
