(* ===== verification/Api_Properties.thy ===== *)
theory Api_Properties
  imports Sample Exact Conversation
begin

section \<open>Properties of the API: validation, replies, reading and synchronising\<close>

subsection \<open>Replies\<close>

text \<open>C19:
  A request that is answered with a failure has changed no table: whatever a service had done
  before it raised is rolled back.\<close>

theorem failure_restores:
  assumes "serve det e now req w = (Failure c m b h, w')"
  shows "inventories (db w') = inventories (db w) \<and> reservations (db w') = reservations (db w) \<and>
    reservation_items (db w') = reservation_items (db w) \<and> orders (db w') = orders (db w)"
proof -
  obtain res w1 where r: "dispatch det e now req w = (res, w1)" by (cases "dispatch det e now req w")
  show ?thesis
  proof (cases res)
    case (Inl x)
    then have "get_db (dispatch det e now req) w = (Inl x, w')"
      using assms r by (auto simp: serve_def get_db_def)
    then show ?thesis using dispatch.raises_restores by metis
  next
    case (Inr rep)
    then have "rep = Failure c m b h" using assms r by (auto simp: serve_def get_db_def)
    then show ?thesis
      using r Inr by (cases req) (auto simp: dispatch_def create_reservation_def get_reservation_route_def
          confirm_reservation_def cancel_reservation_def payment_outcome_def get_order_route_def
          get_availability_route_def sync_provider_def ok_def created_def no_content_def
          dest!: respond_InrD split: if_splits)
  qed
qed

theorem failure_restores_witness:
  "inventories (db (snd (serve no_details refusing 0 order_both start_world))) = inventories shop"
proof -
  let ?s = "serve no_details refusing 0 order_both start_world"
  have "case fst ?s of Failure c m b h \<Rightarrow> c = 409 | _ \<Rightarrow> False" by code_simp
  then obtain c m b h where "?s = (Failure c m b h, snd ?s)" by (cases ?s) (auto split: reply.splits)
  from failure_restores [OF this] show ?thesis by (simp add: start_world_def)
qed

text \<open>Every reply of the reservation, order, inventory and provider routes has one of seven statuses.\<close>

theorem reply_statuses:
  "reply_status (fst (serve det e now req w)) \<in> {200, 201, 204, 404, 409, 422, 500}"
  by (rule serve_status)

text \<open>
  The three reading routes change nothing and send nothing, whatever they answer.\<close>

theorem reads_are_pure:
  "snd (serve det e now (GetReservation rid) w) = w \<and> snd (serve det e now (GetOrder k) w) = w \<and>
   snd (serve det e now (GetAvailability p) w) = w"
  by (auto simp: serve_def get_db_def dispatch_def get_reservation_route_def get_order_route_def
      get_availability_route_def respond_def service_get_with_items_def order_get_by_id_def
      get_availability_def rollback_def split: option.splits)

text \<open>
  A valid payment outcome does what the matching route of the reservation does: a success
  confirms, with the same reply, and a failure cancels, with the same effect.\<close>

theorem payment_outcome_confirms:
  assumes "0 < rid"
  shows "serve det e now (PaymentOutcome rid ''success'') w = serve det e now (ConfirmReservation rid) w \<and>
    snd (serve det e now (PaymentOutcome rid ''failed'') w) = snd (serve det e now (CancelReservation rid) w)"
  using assms
  by (auto simp: serve_def get_db_def dispatch_def valid_payment_outcome_def payment_outcome_def
      confirm_reservation_def cancel_reservation_def respond_def split: prod.splits sum.splits)

theorem payment_outcome_confirms_witness:
  "serve no_details granting 5 (PaymentOutcome 1 ''success'') held_world =
     serve no_details granting 5 (ConfirmReservation 1) held_world"
  using payment_outcome_confirms [of 1] by simp

text \<open>
  A failed payment for a reservation that the sweep has already expired is answered with status
  "cancelled", although the reservation stays expired.\<close>

theorem failed_payment_of_expired:
  "fst (serve no_details granting 1000000001 (PaymentOutcome 1 ''failed'') lapsed_world) = ok (OutcomeData 1 ''cancelled'')
   \<and> map res_status (reservations (db (snd (serve no_details granting 1000000001 (PaymentOutcome 1 ''failed'') lapsed_world)))) = [Expired]"
  by code_simp

subsection \<open>Validation\<close>

text \<open>The validator of distinct products is what keeps a row covered: without it create accepts two
  items of one product that are covered one by one but not together, and reserves more of the
  row than it has.\<close>

theorem validation_needed:
  "\<not> valid_create_request ''ann'' [(1, 6), (1, 6)] \<and> stock_inv sample_stock (db start_world) \<and>
   (case create granting 0 ''ann'' [(1, 6), (1, 6)] start_world of
      (Inr r, w') \<Rightarrow> \<not> covered (db w') | (Inl x, w') \<Rightarrow> False)"
  by code_simp

text \<open>The reply to an invalid request has status 422 and lists every message pydantic reported once,
  under the dotted location without "body", in the order they came, with one entry per field.\<close>

theorem validation_reply_complete:
  "\<exists>es. validation_exception_handler errs = Failure 422 ''Validation Exception'' (FieldErrors es) [] \<and>
     distinct (map fst es) \<and>
     (\<forall>f. (case map_of es f of None \<Rightarrow> [] | Some ms \<Rightarrow> ms) =
        map snd (filter (\<lambda>em. field_name (fst em) = f) errs))"
proof (intro exI conjI)
  show "validation_exception_handler errs = Failure 422 ''Validation Exception'' (FieldErrors (collect_errors [] errs)) []"
    by (simp add: validation_exception_handler_def envelope_def)
  show "distinct (map fst (collect_errors [] errs))" by (rule collect_errors_distinct) simp
  show "\<forall>f. (case map_of (collect_errors [] errs) f of None \<Rightarrow> [] | Some ms \<Rightarrow> ms) =
      map snd (filter (\<lambda>em. field_name (fst em) = f) errs)"
    by (simp add: collect_errors_lookup messages_of_def Let_def)
qed

subsection \<open>Availability\<close>

text \<open>What the availability of a product shows is what create checks first: a request for one
  product passes the pre-flight check exactly when some source shows enough effective stock.\<close>

theorem availability_predicts_preflight:
  "(\<exists>m. preflight (db w) [(p, q)] Map.empty = Inr m) \<longleftrightarrow>
   (\<exists>s \<in> set (case fst (get_availability p w) of Inr xs \<Rightarrow> xs | Inl x \<Rightarrow> []). q \<le> src_effective_available s)"
proof -
  let ?rows = "filter (\<lambda>r. inv_product_id r = p) (inventories (db w))"
  have sources: "(\<exists>s \<in> set (case fst (get_availability p w) of Inr xs \<Rightarrow> xs | Inl x \<Rightarrow> []). q \<le> src_effective_available s) \<longleftrightarrow>
      (\<exists>r \<in> set ?rows. q \<le> effective r)"
    by (simp add: get_availability_def get_all_by_product_def source_of_def effective_def)
  show ?thesis
  proof (cases "get_best_available (db w) p")
    case None
    then have "?rows = []" by (simp add: get_best_available_def)
    with None show ?thesis unfolding sources by simp
  next
    case (Some row)
    note best = get_best_availableD [OF Some]
    have "(\<exists>r \<in> set ?rows. q \<le> effective r) \<longleftrightarrow> q \<le> effective row"
      using best(1,2) best(3) by (auto intro: order_trans)
    then show ?thesis unfolding sources using Some by auto
  qed
qed

subsection \<open>Synchronisation\<close>

text \<open>C40:
  What a synchronisation that returns has done.  The provider exists and is active.  For an internal one
  nothing happens.  An external one has been asked for the SKU of each of its rows that has one, in order; a
  row it has answered with a number now has that number as its available quantity and the time of the
  synchronisation, and every other row (without a SKU, refused with a provider error, or of another
  provider), every other column and every other table are as they were.  Each answer is counted once: a
  number as an update, an error as a line "SKU: text".\<close>

theorem sync_result_correct:
  assumes run: "sync_from_provider e now pid w = (Inr s, w')" and inv: "db_inv (db w)"
  shows "\<exists>p. get_provider (db w) pid = Some p \<and> prov_is_active p \<and> db_inv (db w') \<and>
    (if prov_type p = internal then w' = w \<and> sync_updated s = 0 \<and> sync_errors s = []
     else
       (let todo = filter (\<lambda>r. inv_provider_id r = pid \<and> row_sku (db w) r \<noteq> None) (inventories (db w));
            skus = map (\<lambda>r. the (row_sku (db w) r)) todo;
            (answers, v) = ask_all e p skus w
        in db w' = (db w)\<lparr>inventories :=
               map (\<lambda>r. case map_of (zip (map inv_id todo) answers) (inv_id r) of
                      Some (Inr q) \<Rightarrow> r\<lparr>qty_available := q, last_synced_at := Some now\<rparr>
                    | _ \<Rightarrow> r) (inventories (db w))\<rparr> \<and>
           sent w' = sent v \<and> length answers = length todo \<and>
           sync_updated s = int (length (filter (\<lambda>x. case x of Inr _ \<Rightarrow> True | Inl _ \<Rightarrow> False) answers)) \<and>
           sync_errors s = sync_complaints skus answers \<and>
           sync_updated s + int (length (sync_errors s)) = int (length todo)))"
proof -
  obtain p where p: "get_provider (db w) pid = Some p" "prov_is_active p"
    using run by (auto simp: sync_from_provider_def split: option.splits if_splits)
  have inv': "db_inv (db w')"
    using synced_inv [OF inv sync_synced [OF run]] inv by (simp add: db_inv_def core_def keys_ok_def)
  show ?thesis
  proof (cases "prov_type p = internal")
    case True
    then show ?thesis using run p inv' by (auto simp: sync_from_provider_def)
  next
    case False
    let ?rs = "get_all_by_provider (db w) pid"
    obtain acc where rows: "sync_rows e now p ?rs (0, []) w = (Inr acc, w')"
      and s: "s = \<lparr>sync_updated = fst acc, sync_errors = snd acc, sync_message = []\<rparr>"
      using run p False by (auto simp: sync_from_provider_def split: sum.splits prod.splits)
    obtain as v where ask: "ask_all e p (skus_of (db w) ?rs) w = (as, v)" by (cases "ask_all e p (skus_of (db w) ?rs) w")
    have "distinct (map inv_id ?rs)"
      using db_inv_keys [OF inv] by (simp add: get_all_by_provider_def keys_ok_def distinct_map_filter)
    note exact = sync_rows_exact [OF rows this ask]
    have todo: "rows_to_sync (db w) ?rs = filter (\<lambda>r. inv_provider_id r = pid \<and> row_sku (db w) r \<noteq> None) (inventories (db w))"
      by (simp add: rows_to_sync_def get_all_by_provider_def conj_commute)
    have len: "length as = length (rows_to_sync (db w) ?rs)"
      using length_ask_all [of e p "skus_of (db w) ?rs" w] ask by (simp add: skus_of_def)
    moreover have "good_answers as + int (length (sync_complaints (skus_of (db w) ?rs) as)) = int (length as)"
      using len by (intro answers_count) (simp add: skus_of_def)
    ultimately show ?thesis
      using exact p inv' False ask
      unfolding stocked_def [abs_def] set_stock_def good_answers_def skus_of_def todo by (simp add: s Let_def)
  qed
qed

theorem sync_result_correct_witness:
  "\<exists>s w'. sync_from_provider granting 9 2 held_world = (Inr s, w') \<and> sync_updated s = 1 \<and>
     map qty_available (inventories (db w')) = [7, 8] \<and> map last_synced_at (inventories (db w')) = [Some 9, None]"
proof -
  let ?c = "sync_from_provider granting 9 2 held_world"
  let ?todo = "filter (\<lambda>r. inv_provider_id r = 2 \<and> row_sku (db held_world) r \<noteq> None) (inventories (db held_world))"
  have "case fst ?c of Inr s \<Rightarrow> True | Inl _ \<Rightarrow> False" and inv: "db_inv (db held_world)"
    and p: "get_provider (db held_world) 2 = Some warehouse" "prov_type warehouse \<noteq> internal"
    and todo: "map inv_id ?todo = [1]" "map (\<lambda>r. the (row_sku (db held_world) r)) ?todo = [''A'']"
    and rows: "map (\<lambda>r. (inv_id r, qty_available r, last_synced_at r)) (inventories (db held_world)) = [(1, 10, None), (2, 8, None)]"
    and ans: "fst (ask_all granting warehouse [''A''] held_world) = [Inr 7]" by code_simp+
  then obtain s where s: "?c = (Inr s, snd ?c)" by (cases ?c) (auto split: sum.splits)
  obtain v where ask: "ask_all granting warehouse [''A''] held_world = ([Inr 7], v)" using ans by (metis prod.collapse)
  from sync_result_correct [OF s inv] have "inventories (db (snd ?c)) = map (\<lambda>r. case [1 \<mapsto> Inr 7] (inv_id r) of
        Some (Inr q) \<Rightarrow> r\<lparr>qty_available := q, last_synced_at := Some 9\<rparr> | _ \<Rightarrow> r) (inventories (db held_world)) \<and>
      sync_updated s = 1"
    using p todo ask by (auto simp: Let_def)
  then show ?thesis using s rows by (auto simp: map_eq_Cons_conv intro!: exI [of _ s] exI [of _ "snd ?c"])
qed

end
