(* ===== verification/Users.thy ===== *)
theory Users
  imports Python_Int
begin

section \<open>Users (models/user.py, user_repository.py, user_service.py, schemas/user.py)\<close>

text \<open>
  The users table with its repository, the service and the validation of the requests.
  The table is a state of its own: no operation of the reservation side reads it.
  What is not part of the repository is the record \<open>platform\<close>: bcrypt, the JWT library, the
  e-mail validator and the collation of the database, by which it compares text.
  Lemmas: every operation keeps ids, e-mails and user names unique.
\<close>

type_synonym claims = "(string \<times> json) list"

text \<open>
  \<open>hashpw salt password\<close> and \<open>checkpw password hash\<close> are bcrypt's (both may raise),
  \<open>jwt_decode key algorithms now token\<close> is None when the library raises \<open>JWTError\<close>,
  \<open>valid_email\<close> returns the normalised address, and two texts are equal for the database
  when \<open>collate\<close> maps them to the same key.
\<close>

record platform =
  hashpw :: "string \<Rightarrow> string \<Rightarrow> exn + string"
  checkpw :: "string \<Rightarrow> string \<Rightarrow> exn + bool"
  jwt_encode :: "string \<Rightarrow> string \<Rightarrow> claims \<Rightarrow> string"
  jwt_decode :: "string \<Rightarrow> string list \<Rightarrow> int \<Rightarrow> string \<Rightarrow> claims option"
  valid_email :: "string \<Rightarrow> string option"
  collate :: "string \<Rightarrow> string"

subsection \<open>The table\<close>

record user =
  usr_id :: int
  email :: string
  username :: string
  full_name :: string
  hashed_password :: string
  usr_is_active :: bool
  usr_created_at :: int
  usr_updated_at :: int

record accounts =
  users :: "user list"
  next_user_id :: int

subsection \<open>UserRepository and the base repository\<close>

definition user_get_by_id :: "accounts \<Rightarrow> int \<Rightarrow> user option" where
  "user_get_by_id a k = find_by usr_id k (users a)"

definition upd_user :: "int \<Rightarrow> (user \<Rightarrow> user) \<Rightarrow> accounts \<Rightarrow> accounts" where
  "upd_user k f a = a\<lparr>users := upd_by usr_id k f (users a)\<rparr>"

definition user_get_all :: "accounts \<Rightarrow> user list" where
  "user_get_all a = users a"

definition get_by_email :: "platform \<Rightarrow> string \<Rightarrow> accounts \<Rightarrow> user option" where
  "get_by_email p e a = find (\<lambda>u. collate p (email u) = collate p e) (users a)"

definition get_by_username :: "platform \<Rightarrow> string \<Rightarrow> accounts \<Rightarrow> user option" where
  "get_by_username p n a = find (\<lambda>u. collate p (username u) = collate p n) (users a)"

definition email_exists :: "platform \<Rightarrow> string \<Rightarrow> accounts \<Rightarrow> bool" where
  "email_exists p e a \<longleftrightarrow> map_option usr_id (get_by_email p e a) \<noteq> None"

definition username_exists :: "platform \<Rightarrow> string \<Rightarrow> accounts \<Rightarrow> bool" where
  "username_exists p n a \<longleftrightarrow> map_option usr_id (get_by_username p n a) \<noteq> None"

text \<open>
  \<open>BaseRepository.create\<close> on the table of \<open>models/user.py\<close>: an INSERT, whose key is drawn from the counter,
  which moves even when one of the UNIQUE indexes of e-mail and user name refuses the row.
\<close>

definition user_create ::
    "platform \<Rightarrow> (int \<Rightarrow> user) \<Rightarrow> accounts \<Rightarrow> (exn + user) \<times> accounts" where
  "user_create p mk a =
     (let u = mk (next_user_id a); a' = a\<lparr>next_user_id := next_user_id a + 1\<rparr> in
      if email_exists p (email u) a \<or> username_exists p (username u) a
      then (Inl (IntegrityError ''users''), a')
      else (Inr u, a'\<lparr>users := users a @ [u]\<rparr>))"

definition user_delete :: "user \<Rightarrow> accounts \<Rightarrow> accounts" where
  "user_delete u a = a\<lparr>users := filter (\<lambda>x. usr_id x \<noteq> usr_id u) (users a)\<rparr>"

interpretation users: row_store user_get_by_id upd_user usr_id
  by unfold_locales
     (auto simp: user_get_by_id_def upd_user_def find_by_upd_same find_by_upd_other dest: find_by_SomeD(2))

subsection \<open>The base service, for users\<close>

definition user_service_get_by_id :: "int \<Rightarrow> accounts \<Rightarrow> exn + user" where
  "user_service_get_by_id k a =
     (case user_get_by_id a k of
        None \<Rightarrow> Inl (NotFoundError (''User with id '' @ str_int k @ '' not found.''))
      | Some u \<Rightarrow> Inr u)"

definition user_service_delete :: "int \<Rightarrow> accounts \<Rightarrow> (exn + unit) \<times> accounts" where
  "user_service_delete k a =
     (case user_service_get_by_id k a of
        Inl x \<Rightarrow> (Inl x, a)
      | Inr u \<Rightarrow> (Inr (), user_delete u a))"

text \<open>
  Flushing a changed row: an UPDATE only when a column has another value, which then also
  sets \<open>updated_at\<close>; an UPDATE that matches no row is an error.
\<close>

definition flush_refresh :: "int \<Rightarrow> user \<Rightarrow> accounts \<Rightarrow> (exn + user) \<times> accounts" where
  "flush_refresh now u a =
     (case user_get_by_id a (usr_id u) of
        None \<Rightarrow> (Inl (StaleDataError ''users''), a)
      | Some old \<Rightarrow>
          if u = old then (Inr u, a)
          else (let u' = u\<lparr>usr_updated_at := now\<rparr> in (Inr u', upd_user (usr_id u) (\<lambda>_. u') a)))"

subsection \<open>Passwords (core/security.py)\<close>

definition get_password_hash :: "platform \<Rightarrow> string \<Rightarrow> string \<Rightarrow> exn + string" where
  "get_password_hash p salt password = hashpw p salt password"

definition verify_password :: "platform \<Rightarrow> string \<Rightarrow> string \<Rightarrow> exn + bool" where
  "verify_password p plain hash = checkpw p plain hash"

subsection \<open>UserService\<close>

definition service_get_by_email :: "platform \<Rightarrow> string \<Rightarrow> accounts \<Rightarrow> exn + user" where
  "service_get_by_email p e a =
     (case get_by_email p e a of
        None \<Rightarrow> Inl (NotFoundError ''User not found.'')
      | Some u \<Rightarrow> Inr u)"

definition new_user :: "string \<Rightarrow> string \<Rightarrow> string \<Rightarrow> string \<Rightarrow> int \<Rightarrow> int \<Rightarrow> user" where
  "new_user e name full hash now k =
     \<lparr>usr_id = k, email = e, username = name, full_name = full, hashed_password = hash,
      usr_is_active = True, usr_created_at = now, usr_updated_at = now\<rparr>"

definition register ::
    "platform \<Rightarrow> string \<Rightarrow> int \<Rightarrow> string \<Rightarrow> string \<Rightarrow> string \<Rightarrow> string \<Rightarrow> accounts \<Rightarrow> (exn + user) \<times> accounts" where
  "register p salt now e name full password a =
     (if email_exists p e a then (Inl (ConflictError ''A user with this email already exists.''), a)
      else if username_exists p name a
      then (Inl (ConflictError ''A user with this username already exists.''), a)
      else (case get_password_hash p salt password of
              Inl x \<Rightarrow> (Inl x, a)
            | Inr hash \<Rightarrow> user_create p (new_user e name full hash now) a))"

definition authenticate :: "platform \<Rightarrow> string \<Rightarrow> string \<Rightarrow> accounts \<Rightarrow> exn + user" where
  "authenticate p e password a =
     (case get_by_email p e a of
        None \<Rightarrow> Inl (AuthenticationError ''Invalid email or password.'')
      | Some u \<Rightarrow>
          (case verify_password p password (hashed_password u) of
             Inl x \<Rightarrow> Inl x
           | Inr good \<Rightarrow>
               if \<not> good then Inl (AuthenticationError ''Invalid email or password.'')
               else if \<not> usr_is_active u then Inl (InactiveAccountError ''Account is inactive.'')
               else Inr u))"

definition update_profile ::
    "platform \<Rightarrow> string \<Rightarrow> int \<Rightarrow> user \<Rightarrow> string option \<Rightarrow> string option \<Rightarrow> accounts \<Rightarrow> (exn + user) \<times> accounts" where
  "update_profile p salt now u full password a =
     (let u1 = (case full of None \<Rightarrow> u | Some n \<Rightarrow> u\<lparr>full_name := n\<rparr>) in
      case password of
        None \<Rightarrow> flush_refresh now u1 a
      | Some pw \<Rightarrow>
          (case get_password_hash p salt pw of
             Inl x \<Rightarrow> (Inl x, a)
           | Inr hash \<Rightarrow> flush_refresh now (u1\<lparr>hashed_password := hash\<rparr>) a))"

definition toggle_active :: "int \<Rightarrow> int \<Rightarrow> accounts \<Rightarrow> (exn + user) \<times> accounts" where
  "toggle_active now k a =
     (case user_service_get_by_id k a of
        Inl x \<Rightarrow> (Inl x, a)
      | Inr u \<Rightarrow> flush_refresh now (u\<lparr>usr_is_active := \<not> usr_is_active u\<rparr>) a)"

subsection \<open>Validation of the requests\<close>

definition char_between :: "nat \<Rightarrow> nat \<Rightarrow> char \<Rightarrow> bool" where
  "char_between lo hi c \<longleftrightarrow> lo \<le> of_char c \<and> of_char c \<le> hi"

definition is_upper :: "char \<Rightarrow> bool" where
  "is_upper c = char_between 65 90 c"

definition is_lower :: "char \<Rightarrow> bool" where
  "is_lower c = char_between 97 122 c"

definition word_char :: "char \<Rightarrow> bool" where
  "word_char c \<longleftrightarrow> is_upper c \<or> is_lower c \<or> is_digit c \<or> c = CHR ''_''"

definition lower_char :: "char \<Rightarrow> char" where
  "lower_char c = (if is_upper c then char_of (of_char c + (32 :: nat)) else c)"

definition bounded :: "nat \<Rightarrow> nat \<Rightarrow> string \<Rightarrow> bool" where
  "bounded lo hi s \<longleftrightarrow> lo \<le> length s \<and> length s \<le> hi"

definition password_strength :: "string \<Rightarrow> exn + string" where
  "password_strength v =
     (if \<not> list_ex is_upper v
      then Inl (ValueError ''Password must contain at least one uppercase letter.'')
      else if \<not> list_ex is_digit v
      then Inl (ValueError ''Password must contain at least one digit.'')
      else Inr v)"

text \<open>
  \<open>^[a-zA-Z0-9_]+$\<close>: in Python the dollar sign also matches before a newline at the end.
\<close>

definition username_matches :: "string \<Rightarrow> bool" where
  "username_matches v =
     (let body = (if v \<noteq> [] \<and> last v = CHR 0x0A then butlast v else v) in
      body \<noteq> [] \<and> list_all word_char body)"

definition username_format :: "string \<Rightarrow> exn + string" where
  "username_format v =
     (if \<not> username_matches v
      then Inl (ValueError ''Username may only contain letters, digits, and underscores.'')
      else Inr (List.map lower_char v))"

record signup =
  su_email :: string
  su_username :: string
  su_full_name :: string
  su_password :: string

definition valid_signup :: "platform \<Rightarrow> signup \<Rightarrow> signup option" where
  "valid_signup p b =
     (case valid_email p (su_email b) of
        None \<Rightarrow> None
      | Some e \<Rightarrow>
          if bounded 3 100 (su_username b) \<and> bounded 2 255 (su_full_name b) \<and> bounded 8 128 (su_password b)
          then (case (username_format (su_username b), password_strength (su_password b)) of
                  (Inr n, Inr pw) \<Rightarrow> Some (b\<lparr>su_email := e, su_username := n, su_password := pw\<rparr>)
                | _ \<Rightarrow> None)
          else None)"

definition valid_login :: "platform \<Rightarrow> string \<Rightarrow> string \<Rightarrow> string option" where
  "valid_login p e password = (if 1 \<le> length password then valid_email p e else None)"

definition valid_update :: "string option \<Rightarrow> string option \<Rightarrow> bool" where
  "valid_update full password \<longleftrightarrow>
     (case full of None \<Rightarrow> True | Some n \<Rightarrow> bounded 2 255 n) \<and>
     (case password of
        None \<Rightarrow> True
      | Some pw \<Rightarrow> bounded 8 128 pw \<and> (case password_strength pw of Inr _ \<Rightarrow> True | Inl _ \<Rightarrow> False))"

subsection \<open>The invariant of the table\<close>

definition accounts_ok :: "platform \<Rightarrow> accounts \<Rightarrow> bool" where
  "accounts_ok p a \<longleftrightarrow>
     distinct (map usr_id (users a)) \<and> (\<forall>u \<in> set (users a). 1 \<le> usr_id u \<and> usr_id u < next_user_id a) \<and>
     1 \<le> next_user_id a \<and>
     distinct (map (\<lambda>u. collate p (email u)) (users a)) \<and>
     distinct (map (\<lambda>u. collate p (username u)) (users a))"

lemma email_exists_iff: "email_exists p e a \<longleftrightarrow> collate p e \<in> (\<lambda>u. collate p (email u)) ` set (users a)"
  by (force simp: email_exists_def get_by_email_def find_None_iff)

lemma username_exists_iff:
  "username_exists p n a \<longleftrightarrow> collate p n \<in> (\<lambda>u. collate p (username u)) ` set (users a)"
  by (force simp: username_exists_def get_by_username_def find_None_iff)

lemma user_create_ok:
  assumes "user_create p mk a = (r, a')" and "accounts_ok p a" and "\<And>k. usr_id (mk k) = k"
  shows "accounts_ok p a'"
  using assms
  by (fastforce simp: user_create_def accounts_ok_def Let_def email_exists_iff username_exists_iff split: if_splits)

lemma upd_user_ok:
  assumes "accounts_ok p a"
    and "\<And>u. u \<in> set (users a) \<Longrightarrow> usr_id u = k \<Longrightarrow>
      usr_id (f u) = k \<and> email (f u) = email u \<and> username (f u) = username u"
  shows "accounts_ok p (upd_user k f a)"
proof -
  let ?g = "\<lambda>u. if usr_id u = k then f u else u"
  have same: "\<forall>u \<in> set (users a). usr_id (?g u) = usr_id u \<and> email (?g u) = email u \<and> username (?g u) = username u"
    using assms(2) by simp
  then have "map usr_id (users (upd_user k f a)) = map usr_id (users a)"
    and "map (\<lambda>u. collate p (email u)) (users (upd_user k f a)) = map (\<lambda>u. collate p (email u)) (users a)"
    and "map (\<lambda>u. collate p (username u)) (users (upd_user k f a)) = map (\<lambda>u. collate p (username u)) (users a)"
    by (simp_all add: upd_user_def upd_by_def)
  moreover have "next_user_id (upd_user k f a) = next_user_id a" by (simp add: upd_user_def)
  moreover have "usr_id ` set (users (upd_user k f a)) = usr_id ` set (users a)"
    using calculation(1) by (metis list.set_map)
  ultimately show ?thesis
    using assms(1) unfolding accounts_ok_def by (metis (no_types, lifting) image_iff)
qed

lemma flush_refresh_ok:
  assumes "flush_refresh now u a = (r, a')" and "accounts_ok p a"
    and "user_get_by_id a (usr_id u) = Some old" and "email u = email old" and "username u = username old"
  shows "accounts_ok p a'"
proof -
  have "accounts_ok p (upd_user (usr_id u) (\<lambda>_. u\<lparr>usr_updated_at := now\<rparr>) a)"
  proof (rule upd_user_ok [OF assms(2)])
    fix x assume "x \<in> set (users a)" "usr_id x = usr_id u"
    moreover have "old \<in> set (users a)" "usr_id old = usr_id u"
      using assms(3) by (auto simp: user_get_by_id_def dest: find_by_SomeD)
    ultimately have "x = old"
      using assms(2) by (auto simp: accounts_ok_def distinct_map inj_on_def)
    then show "usr_id (u\<lparr>usr_updated_at := now\<rparr>) = usr_id u \<and>
        email (u\<lparr>usr_updated_at := now\<rparr>) = email x \<and> username (u\<lparr>usr_updated_at := now\<rparr>) = username x"
      using assms(4,5) by simp
  qed
  then show ?thesis using assms(1-3) by (auto simp: flush_refresh_def Let_def split: if_splits)
qed

lemma user_service_get_by_id_Inr:
  "user_service_get_by_id k a = Inr u \<longleftrightarrow> user_get_by_id a k = Some u"
  by (auto simp: user_service_get_by_id_def split: option.splits)

lemma register_ok:
  "register p salt now e name full pw a = (r, a') \<Longrightarrow> accounts_ok p a \<Longrightarrow> accounts_ok p a'"
  using user_create_ok [of p "new_user e name full _ now" a r a']
  by (auto simp: register_def new_user_def split: if_splits sum.splits)

lemma update_profile_ok:
  assumes "update_profile p salt now u full pw a = (r, a')" and "accounts_ok p a"
    and "user_get_by_id a (usr_id u) = Some u"
  shows "accounts_ok p a'"
proof -
  let ?u = "case full of None \<Rightarrow> u | Some n \<Rightarrow> u\<lparr>full_name := n\<rparr>"
  have u: "usr_id ?u = usr_id u" "email ?u = email u" "username ?u = username u"
    by (auto split: option.splits)
  show ?thesis
    using assms u flush_refresh_ok [of now ?u a r a' p u] flush_refresh_ok [of now "?u\<lparr>hashed_password := _\<rparr>" a r a' p u]
    by (auto simp: update_profile_def Let_def split: option.splits sum.splits)
qed

lemma toggle_active_ok:
  assumes "toggle_active now k a = (r, a')" and "accounts_ok p a"
  shows "accounts_ok p a'"
proof (cases "user_get_by_id a k")
  case None
  then show ?thesis using assms by (simp add: toggle_active_def user_service_get_by_id_def)
next
  case (Some u)
  then have "usr_id u = k" by (rule users.look_key)
  with assms Some show ?thesis
    using flush_refresh_ok [of now "u\<lparr>usr_is_active := \<not> usr_is_active u\<rparr>" a r a' p u]
    by (simp add: toggle_active_def user_service_get_by_id_def)
qed

lemma user_service_delete_ok:
  "user_service_delete k a = (r, a') \<Longrightarrow> accounts_ok p a \<Longrightarrow> accounts_ok p a'"
  by (auto simp: user_service_delete_def user_delete_def accounts_ok_def distinct_map_filter split: sum.splits)

subsection \<open>What register and authenticate return\<close>

lemma register_InrD:
  assumes "register p salt now e name full pw a = (Inr u, a')"
  obtains hash where "hashpw p salt pw = Inr hash" and "u = new_user e name full hash now (next_user_id a)"
    and "a' = \<lparr>users = users a @ [u], next_user_id = next_user_id a + 1\<rparr>"
    and "\<not> email_exists p e a" and "\<not> username_exists p name a"
  using assms
  by (cases a) (auto simp: register_def get_password_hash_def user_create_def Let_def new_user_def split: if_splits sum.splits)

lemma get_by_email_unique:
  assumes "accounts_ok p a" and "u \<in> set (users a)" and "collate p (email u) = collate p e"
  shows "get_by_email p e a = Some u"
proof -
  have "get_by_email p e a \<noteq> None" using assms(2,3) by (auto simp: get_by_email_def find_None_iff)
  then obtain x where x: "get_by_email p e a = Some x" by blast
  then have "x \<in> set (users a)" "collate p (email x) = collate p e"
    by (auto simp: get_by_email_def find_Some_iff)
  then have "x = u" using assms by (auto simp: accounts_ok_def distinct_map inj_on_def)
  with x show ?thesis by simp
qed

lemma authenticate_Inr:
  assumes "authenticate p e pw a = Inr u"
  shows "u \<in> set (users a)" and "collate p (email u) = collate p e"
    and "checkpw p pw (hashed_password u) = Inr True" and "usr_is_active u"
  using assms
  by (auto simp: authenticate_def verify_password_def get_by_email_def find_Some_iff
      split: option.splits sum.splits if_splits)

lemma valid_signup_fields:
  assumes "valid_signup p b = Some b'"
  shows "valid_email p (su_email b) = Some (su_email b')" and "su_password b' = su_password b"
    and "su_username b' = map lower_char (su_username b)" and "8 \<le> length (su_password b)"
  using assms
  by (auto simp: valid_signup_def username_format_def password_strength_def bounded_def
      split: option.splits if_splits sum.splits)

subsection \<open>The type of a stored user\<close>

text \<open>What the validators promise of a row: the lengths of the columns, a lower-case user name.\<close>

definition stored_username :: "string \<Rightarrow> bool" where
  "stored_username v =
     (let body = (if v \<noteq> [] \<and> last v = CHR 0x0A then butlast v else v) in
      body \<noteq> [] \<and> list_all (\<lambda>c. word_char c \<and> \<not> is_upper c) body)"

definition well_typed :: "platform \<Rightarrow> user \<Rightarrow> bool" where
  "well_typed p u \<longleftrightarrow>
     bounded 3 100 (username u) \<and> stored_username (username u) \<and> bounded 2 255 (full_name u) \<and>
     (\<exists>e. valid_email p e = Some (email u))"

lemma of_char_lower_char: "is_upper c \<Longrightarrow> (of_char (lower_char c) :: nat) = of_char c + 32"
  by (simp add: lower_char_def is_upper_def char_between_def)

lemma lower_word_char:
  assumes "word_char c"
  shows "word_char (lower_char c) \<and> \<not> is_upper (lower_char c)"
proof (cases "is_upper c")
  case True
  then show ?thesis
    using of_char_lower_char [OF True] by (auto simp: word_char_def is_lower_def is_upper_def char_between_def)
next
  case False
  then show ?thesis using assms by (simp add: lower_char_def)
qed

lemma newline_not_word: "\<not> word_char (CHR 0x0A)"
  by (simp add: word_char_def is_upper_def is_lower_def is_digit_def char_between_def)

lemma lower_newline: "lower_char c = CHR 0x0A \<longleftrightarrow> c = CHR 0x0A"
proof
  assume c: "lower_char c = CHR 0x0A"
  then have "\<not> is_upper c" using of_char_lower_char [of c] by auto
  with c show "c = CHR 0x0A" by (simp add: lower_char_def)
qed (simp add: lower_char_def is_upper_def char_between_def)

lemma username_format_Inr:
  assumes "username_format v = Inr n"
  shows "length n = length v" and "stored_username n"
proof -
  have n: "n = map lower_char v" and v: "username_matches v"
    using assms by (auto simp: username_format_def split: if_splits)
  show "length n = length v" by (simp add: n)
  show "stored_username n"
    using v lower_word_char
    by (auto simp: n stored_username_def username_matches_def Let_def last_map lower_newline map_butlast [symmetric]
        list_all_iff split: if_splits)
qed

lemma valid_signup_well_typed:
  assumes "valid_signup p b = Some b'"
  shows "well_typed p (new_user (su_email b') (su_username b') (su_full_name b') hash now k)"
  using assms username_format_Inr
  by (fastforce simp: valid_signup_def well_typed_def new_user_def bounded_def
      split: option.splits if_splits sum.splits)

lemma stored_username_shape:
  assumes "stored_username v"
  shows "\<exists>body. (v = body \<or> v = body @ [CHR 0x0A]) \<and> body \<noteq> [] \<and>
    list_all (\<lambda>c. is_lower c \<or> is_digit c \<or> c = CHR ''_'') body"
proof -
  let ?body = "if v \<noteq> [] \<and> last v = CHR 0x0A then butlast v else v"
  have "?body \<noteq> [] \<and> list_all (\<lambda>c. is_lower c \<or> is_digit c \<or> c = CHR ''_'') ?body"
    using assms by (auto simp: stored_username_def Let_def list_all_iff word_char_def)
  moreover have "v = ?body \<or> v = ?body @ [CHR 0x0A]" by (metis append_butlast_last_id)
  ultimately show ?thesis by blast
qed

text \<open>The newline that the pattern lets through: every accepted name is accepted with a newline behind it.\<close>

lemma newline_names_pass:
  assumes "list_all word_char v" and "v \<noteq> []"
  shows "username_format (v @ [CHR 0x0A]) = Inr (map lower_char v @ [CHR 0x0A])"
  using assms lower_newline [of "CHR 0x0A"] by (simp add: username_format_def username_matches_def)

end
