(* ===== verification/Tokens.thy ===== *)
theory Tokens
  imports Users Settings
begin

section \<open>Tokens (core/security.py)\<close>

text \<open>
  Access and refresh tokens are claims that the JWT library signs and reads; the clock is in
  microseconds, the library writes \<open>exp\<close> in whole seconds.  The hypothesis \<open>jwt_sound\<close> is what
  the library documents: a token it has issued is read back until it expires, and not after.
\<close>

definition expiry_seconds :: "int \<Rightarrow> int" where
  "expiry_seconds t = t div 1000000"

text \<open>\<open>{..., **extra}\<close>: later keys replace the value of earlier ones in place.\<close>

fun set_claim :: "string \<Rightarrow> json \<Rightarrow> claims \<Rightarrow> claims" where
  "set_claim k v [] = [(k, v)]"
| "set_claim k v ((k', v') # cs) = (if k' = k then (k, v) # cs else (k', v') # set_claim k v cs)"

fun add_claims :: "claims \<Rightarrow> claims \<Rightarrow> claims" where
  "add_claims cs [] = cs"
| "add_claims cs ((k, v) # extra) = add_claims (set_claim k v cs) extra"

definition token_claims :: "string \<Rightarrow> int \<Rightarrow> string \<Rightarrow> claims" where
  "token_claims sub exp kind =
     [(''sub'', JStr sub), (''exp'', JInt (expiry_seconds exp)), (''type'', JStr kind)]"

definition create_access_token :: "settings \<Rightarrow> platform \<Rightarrow> int \<Rightarrow> string \<Rightarrow> claims \<Rightarrow> string" where
  "create_access_token s p now subject extra =
     (let expire = now + ACCESS_TOKEN_EXPIRE_MINUTES s * 60 * 1000000 in
      jwt_encode p (SECRET_KEY s) (ALGORITHM s)
        (add_claims (token_claims subject expire ''access'') extra))"

definition create_refresh_token :: "settings \<Rightarrow> platform \<Rightarrow> int \<Rightarrow> string \<Rightarrow> string" where
  "create_refresh_token s p now subject =
     (let expire = now + REFRESH_TOKEN_EXPIRE_DAYS s * 86400 * 1000000 in
      jwt_encode p (SECRET_KEY s) (ALGORITHM s) (token_claims subject expire ''refresh''))"

definition decode_token :: "settings \<Rightarrow> platform \<Rightarrow> int \<Rightarrow> string \<Rightarrow> claims option" where
  "decode_token s p now token = jwt_decode p (SECRET_KEY s) [ALGORITHM s] now token"

subsection \<open>What the JWT library promises\<close>

definition jwt_sound :: "settings \<Rightarrow> platform \<Rightarrow> bool" where
  "jwt_sound s p \<longleftrightarrow>
     (\<forall>sub kind e now. kind \<in> {''access'', ''refresh''} \<longrightarrow>
        jwt_decode p (SECRET_KEY s) [ALGORITHM s] now
          (jwt_encode p (SECRET_KEY s) (ALGORITHM s) (token_claims sub e kind)) =
        (if expiry_seconds e < expiry_seconds now then None else Some (token_claims sub e kind)))"

lemma decode_access:
  assumes "jwt_sound s p"
  shows "decode_token s p later (create_access_token s p now sub []) =
    (if expiry_seconds (now + ACCESS_TOKEN_EXPIRE_MINUTES s * 60 * 1000000) < expiry_seconds later then None
     else Some (token_claims sub (now + ACCESS_TOKEN_EXPIRE_MINUTES s * 60 * 1000000) ''access''))"
  using assms by (simp add: jwt_sound_def decode_token_def create_access_token_def)

lemma decode_refresh:
  assumes "jwt_sound s p"
  shows "decode_token s p later (create_refresh_token s p now sub) =
    (if expiry_seconds (now + REFRESH_TOKEN_EXPIRE_DAYS s * 86400 * 1000000) < expiry_seconds later then None
     else Some (token_claims sub (now + REFRESH_TOKEN_EXPIRE_DAYS s * 86400 * 1000000) ''refresh''))"
  using assms by (simp add: jwt_sound_def decode_token_def create_refresh_token_def)

lemma token_claims_lookup [simp]:
  "map_of (token_claims sub e kind) ''sub'' = Some (JStr sub)"
  "map_of (token_claims sub e kind) ''exp'' = Some (JInt (expiry_seconds e))"
  "map_of (token_claims sub e kind) ''type'' = Some (JStr kind)"
  by (simp_all add: token_claims_def)

end
