(* ===== verification/Rate_Limit.thy ===== *)
theory Rate_Limit
  imports Models
begin

section \<open>The rate limiter (app/core/rate_limit.py)\<close>

text \<open>
  One limiter is a dependency of one route: it keeps, per client and path, the times of the
  calls it let through.  The monotonic clock is read once per call and counted in
  nanoseconds.  Lemmas: the pruned lists answer like a log that forgets nothing, no window ever
  contains more admissions than \<open>times\<close>, and waiting for \<open>Retry-After\<close> is enough.
\<close>

definition ticks :: int where
  "ticks = 1000000000"

record rate_limiter =
  rl_times :: int
  rl_seconds :: int
  rl_hits :: "string \<rightharpoonup> int list"

definition new_limiter :: "int \<Rightarrow> int \<Rightarrow> rate_limiter" where
  "new_limiter n s = \<lparr>rl_times = n, rl_seconds = s, rl_hits = Map.empty\<rparr>"

definition limiter_key :: "string option \<Rightarrow> string \<Rightarrow> string" where
  "limiter_key client path = (case client of None \<Rightarrow> ''unknown'' | Some host \<Rightarrow> host) @ '':'' @ path"

text \<open>Reading a \<open>defaultdict(list)\<close> creates the entry.\<close>

definition touch :: "string \<Rightarrow> rate_limiter \<Rightarrow> rate_limiter" where
  "touch key l =
     (case rl_hits l key of None \<Rightarrow> l\<lparr>rl_hits := (rl_hits l)(key \<mapsto> [])\<rparr> | Some _ \<Rightarrow> l)"

definition recent_hits :: "rate_limiter \<Rightarrow> string \<Rightarrow> int \<Rightarrow> int list" where
  "recent_hits l key now =
     filter (\<lambda>t. t > now - rl_seconds l * ticks)
       (case rl_hits l key of None \<Rightarrow> [] | Some ts \<Rightarrow> ts)"

text \<open>Python's \<open>int\<close> of a number of seconds truncates towards zero.\<close>

definition whole_seconds :: "int \<Rightarrow> int" where
  "whole_seconds n = (if n < 0 then - ((- n) div ticks) else n div ticks)"

definition too_many :: "int \<Rightarrow> exn" where
  "too_many retry_after =
     HTTPException 429 ''Too many requests. Please try again later.''
       [(''Retry-After'', str_int retry_after)]"

definition limiter_call ::
    "bool \<Rightarrow> string option \<Rightarrow> string \<Rightarrow> int \<Rightarrow> rate_limiter \<Rightarrow> (exn + unit) \<times> rate_limiter" where
  "limiter_call enabled client path now l =
     (if \<not> enabled then (Inr (), l)
      else
        let key = limiter_key client path; hits = recent_hits l key now; l' = touch key l in
        if int (length hits) \<ge> rl_times l then
          (case hits of
             [] \<Rightarrow> (Inl (IndexError ''list index out of range''), l')
           | h # _ \<Rightarrow> (Inl (too_many (whole_seconds (rl_seconds l * ticks - (now - h)) + 1)), l'))
        else (Inr (), l'\<lparr>rl_hits := (rl_hits l')(key \<mapsto> hits @ [now])\<rparr>))"

type_synonym call = "string option \<times> string \<times> int"

fun limiter_run :: "call list \<Rightarrow> rate_limiter \<Rightarrow> (exn + unit) list \<times> rate_limiter" where
  "limiter_run [] l = ([], l)"
| "limiter_run ((c, p, now) # cs) l =
     (case limiter_call True c p now l of
        (r, l') \<Rightarrow> (case limiter_run cs l' of (rs, l'') \<Rightarrow> (r # rs, l'')))"

definition call_time :: "call \<Rightarrow> int" where
  "call_time c = snd (snd c)"

definition call_key :: "call \<Rightarrow> string" where
  "call_key c = limiter_key (fst c) (fst (snd c))"

text \<open>A clock that does not run backwards.\<close>

fun monotonic :: "int \<Rightarrow> call list \<Rightarrow> bool" where
  "monotonic t [] = True"
| "monotonic t (c # cs) = (t \<le> call_time c \<and> monotonic (call_time c) cs)"

subsection \<open>The reference: a log that forgets nothing\<close>

definition admits :: "int \<Rightarrow> int \<Rightarrow> int list \<Rightarrow> int \<Rightarrow> bool" where
  "admits n window log now \<longleftrightarrow> int (length (filter (\<lambda>t. t > now - window) log)) < n"

definition log_next :: "int \<Rightarrow> int \<Rightarrow> call \<Rightarrow> (string \<Rightarrow> int list) \<Rightarrow> string \<Rightarrow> int list" where
  "log_next n window c log =
     (if admits n window (log (call_key c)) (call_time c)
      then log(call_key c := log (call_key c) @ [call_time c]) else log)"

fun log_run :: "int \<Rightarrow> int \<Rightarrow> call list \<Rightarrow> (string \<Rightarrow> int list) \<Rightarrow> bool list \<times> (string \<Rightarrow> int list)" where
  "log_run n window [] log = ([], log)"
| "log_run n window (c # cs) log =
     (case log_run n window cs (log_next n window c log) of
        (oks, log') \<Rightarrow> (admits n window (log (call_key c)) (call_time c) # oks, log'))"

lemma log_run_Cons:
  "fst (log_run n window (c # cs) log) =
     admits n window (log (call_key c)) (call_time c) # fst (log_run n window cs (log_next n window c log))"
  "snd (log_run n window (c # cs) log) = snd (log_run n window cs (log_next n window c log))"
  by (simp_all add: split_beta)

lemma limiter_run_Cons:
  "fst (limiter_run ((c, p, now) # cs) l) =
     fst (limiter_call True c p now l) # fst (limiter_run cs (snd (limiter_call True c p now l)))"
  "snd (limiter_run ((c, p, now) # cs) l) = snd (limiter_run cs (snd (limiter_call True c p now l)))"
  by (simp_all add: split_beta)

text \<open>From \<open>t0\<close> on, the limiter and the log agree on the calls of every window.\<close>

definition follows :: "int \<Rightarrow> rate_limiter \<Rightarrow> (string \<Rightarrow> int list) \<Rightarrow> bool" where
  "follows t0 l log \<longleftrightarrow>
     (\<forall>key now. t0 \<le> now \<longrightarrow>
        recent_hits l key now = filter (\<lambda>t. t > now - rl_seconds l * ticks) (log key))"

lemma touch_simps [simp]:
  "rl_times (touch key l) = rl_times l" "rl_seconds (touch key l) = rl_seconds l"
  "recent_hits (touch key l) key' now = recent_hits l key' now"
  by (auto simp: touch_def recent_hits_def split: option.splits)

lemma recent_hits_insert:
  "recent_hits (l\<lparr>rl_hits := h(key \<mapsto> ts)\<rparr>) key' now =
     (if key' = key then filter (\<lambda>t. t > now - rl_seconds l * ticks) ts
      else recent_hits (l\<lparr>rl_hits := h\<rparr>) key' now)"
  by (simp add: recent_hits_def)

lemma follows_new: "follows t0 (new_limiter n s) (\<lambda>_. [])"
  by (simp add: follows_def new_limiter_def recent_hits_def)

lemma limiter_call_frame [simp]:
  "rl_times (snd (limiter_call b c p now l)) = rl_times l"
  "rl_seconds (snd (limiter_call b c p now l)) = rl_seconds l"
  by (auto simp: limiter_call_def Let_def split: list.splits)

lemma limiter_call_admits:
  "fst (limiter_call True c p now l) = Inr () \<longleftrightarrow>
     int (length (recent_hits l (limiter_key c p) now)) < rl_times l"
  by (auto simp: limiter_call_def Let_def split: list.splits)

lemma limiter_call_state:
  "snd (limiter_call True c p now l) =
     (let l' = touch (limiter_key c p) l in
      if fst (limiter_call True c p now l) = Inr ()
      then l'\<lparr>rl_hits := (rl_hits l')(limiter_key c p \<mapsto> recent_hits l (limiter_key c p) now @ [now])\<rparr>
      else l')"
  by (auto simp: limiter_call_def Let_def split: list.splits)

lemma follows_later: "follows t0 l log \<Longrightarrow> t0 \<le> t1 \<Longrightarrow> follows t1 l log"
  by (auto simp: follows_def)

lemma follows_call:
  assumes "follows t0 l log" and "t0 \<le> now"
  shows "fst (limiter_call True c p now l) = Inr () \<longleftrightarrow>
      admits (rl_times l) (rl_seconds l * ticks) (log (limiter_key c p)) now"
    and "follows now (snd (limiter_call True c p now l))
      (log_next (rl_times l) (rl_seconds l * ticks) (c, p, now) log)"
proof -
  have now: "recent_hits l key now = filter (\<lambda>t. t > now - rl_seconds l * ticks) (log key)" for key
    using assms by (simp add: follows_def)
  show ok: "fst (limiter_call True c p now l) = Inr () \<longleftrightarrow>
      admits (rl_times l) (rl_seconds l * ticks) (log (limiter_key c p)) now"
    by (simp add: limiter_call_admits now admits_def)
  have "filter (\<lambda>t. t > later - w) (filter (\<lambda>t. t > now - w) ts) = filter (\<lambda>t. t > later - w) ts"
    if "now \<le> later" for later w :: int and ts
    using that by (auto simp: filter_filter intro!: filter_cong)
  with assms show "follows now (snd (limiter_call True c p now l))
      (log_next (rl_times l) (rl_seconds l * ticks) (c, p, now) log)"
    by (auto simp: limiter_call_state ok follows_def Let_def recent_hits_insert now
        log_next_def call_key_def call_time_def)
qed

lemma limiter_run_frame [simp]:
  "rl_times (snd (limiter_run cs l)) = rl_times l" "rl_seconds (snd (limiter_run cs l)) = rl_seconds l"
  by (induction cs arbitrary: l) (auto split: prod.splits, (metis limiter_call_frame snd_conv)+)

text \<open>The pruned lists refine the log, call by call.\<close>

lemma limiter_follows:
  assumes "follows t0 l log" and "monotonic t0 cs"
  shows "map (\<lambda>r. r = Inr ()) (fst (limiter_run cs l)) =
    fst (log_run (rl_times l) (rl_seconds l * ticks) cs log)"
  using assms
proof (induction cs arbitrary: t0 l log)
  case Nil
  then show ?case by simp
next
  case (Cons c cs)
  obtain h p now where c: "c = (h, p, now)" by (cases c)
  have now: "t0 \<le> now" "monotonic now cs" using Cons.prems(2) by (simp_all add: c call_time_def)
  note step = follows_call [OF Cons.prems(1) now(1), of h p]
  note ih = Cons.IH [OF step(2) now(2)]
  show ?case
    unfolding c limiter_run_Cons log_run_Cons list.map
    using step(1) ih by (simp add: call_key_def call_time_def)
qed

subsection \<open>No window contains more than \<open>times\<close> admissions\<close>

definition within :: "int \<Rightarrow> int \<Rightarrow> int list \<Rightarrow> nat" where
  "within window t ts = length (filter (\<lambda>s. t - window < s \<and> s \<le> t) ts)"

definition bounded_log :: "int \<Rightarrow> int \<Rightarrow> int \<Rightarrow> int list \<Rightarrow> bool" where
  "bounded_log n window t0 ts \<longleftrightarrow>
     (\<forall>s \<in> set ts. s \<le> t0) \<and> (\<forall>t. int (within window t ts) \<le> max 0 n)"

lemma bounded_log_later: "bounded_log n w t0 ts \<Longrightarrow> t0 \<le> t1 \<Longrightarrow> bounded_log n w t1 ts"
  by (force simp: bounded_log_def)

lemma bounded_log_admit:
  assumes "bounded_log n w t0 ts" and "t0 \<le> now" and "admits n w ts now"
  shows "bounded_log n w now (ts @ [now])"
proof -
  have old: "\<forall>s \<in> set ts. s \<le> now" using assms(1,2) by (force simp: bounded_log_def)
  have "int (within w t (ts @ [now])) \<le> max 0 n" for t
  proof (cases "t - w < now \<and> now \<le> t")
    case True
    then have "filter (\<lambda>s. t - w < s \<and> s \<le> t) ts = filter (\<lambda>s. t - w < s) (filter (\<lambda>s. now - w < s) ts)"
      using old by (auto simp: filter_filter intro!: filter_cong)
    then have "length (filter (\<lambda>s. t - w < s \<and> s \<le> t) ts) \<le> length (filter (\<lambda>s. now - w < s) ts)"
      by (simp only: length_filter_le)
    then show ?thesis using assms(3) True by (simp add: within_def admits_def)
  next
    case False
    then show ?thesis using assms(1) by (auto simp: within_def bounded_log_def)
  qed
  with old show ?thesis by (auto simp: bounded_log_def)
qed

lemma log_run_bounded:
  assumes "\<forall>key. bounded_log n w t0 (log key)" and "monotonic t0 cs"
  shows "\<exists>t1. \<forall>key. bounded_log n w t1 (snd (log_run n w cs log) key)"
  using assms
proof (induction cs arbitrary: t0 log)
  case Nil
  then show ?case by auto
next
  case (Cons c cs)
  have t: "t0 \<le> call_time c" "monotonic (call_time c) cs" using Cons.prems(2) by simp_all
  have "\<forall>key. bounded_log n w (call_time c) (log_next n w c log key)"
    using Cons.prems(1) t(1) by (auto simp: log_next_def intro: bounded_log_later bounded_log_admit)
  from Cons.IH [OF this t(2)] show ?case unfolding log_run_Cons .
qed

text \<open>The times at which the calls of a key were let through.\<close>

fun admitted :: "string \<Rightarrow> call list \<Rightarrow> rate_limiter \<Rightarrow> int list" where
  "admitted key [] l = []"
| "admitted key ((c, p, now) # cs) l =
     (case limiter_call True c p now l of
        (r, l') \<Rightarrow> (if r = Inr () \<and> limiter_key c p = key then [now] else []) @ admitted key cs l')"

lemma admitted_log:
  assumes "follows t0 l log" and "monotonic t0 cs"
  shows "log key @ admitted key cs l = snd (log_run (rl_times l) (rl_seconds l * ticks) cs log) key"
  using assms
proof (induction cs arbitrary: t0 l log)
  case Nil
  then show ?case by simp
next
  case (Cons c cs)
  obtain h p now where c: "c = (h, p, now)" by (cases c)
  have now: "t0 \<le> now" "monotonic now cs" using Cons.prems(2) by (simp_all add: c call_time_def)
  note step = follows_call [OF Cons.prems(1) now(1), of h p]
  note ih = Cons.IH [OF step(2) now(2), unfolded limiter_call_frame]
  show ?case
    unfolding c log_run_Cons ih [symmetric]
    using step(1) by (simp add: call_key_def call_time_def log_next_def split_beta)
qed

subsection \<open>What a refused client is told\<close>

definition limiter_ok :: "int \<Rightarrow> rate_limiter \<Rightarrow> bool" where
  "limiter_ok t0 l \<longleftrightarrow>
     (\<forall>key ts. rl_hits l key = Some ts \<longrightarrow> int (length ts) \<le> max 0 (rl_times l) \<and> (\<forall>t \<in> set ts. t \<le> t0))"

lemma limiter_ok_new: "limiter_ok t0 (new_limiter n s)"
  by (simp add: limiter_ok_def new_limiter_def)

lemma limiter_ok_later: "limiter_ok t0 l \<Longrightarrow> t0 \<le> t1 \<Longrightarrow> limiter_ok t1 l"
  by (force simp: limiter_ok_def)

lemma recent_hits_old: "limiter_ok t0 l \<Longrightarrow> t \<in> set (recent_hits l key now) \<Longrightarrow> t \<le> t0"
  by (cases "rl_hits l key") (auto simp: limiter_ok_def recent_hits_def)

lemma recent_hits_length: "limiter_ok t0 l \<Longrightarrow> int (length (recent_hits l key now)) \<le> max 0 (rl_times l)"
proof (cases "rl_hits l key")
  case (Some ts)
  assume "limiter_ok t0 l"
  then have "int (length ts) \<le> max 0 (rl_times l)" using Some by (simp add: limiter_ok_def)
  moreover have "length (recent_hits l key now) \<le> length ts" by (simp add: recent_hits_def Some)
  ultimately show ?thesis by linarith
qed (simp add: recent_hits_def)

lemma limiter_ok_touch: "limiter_ok t0 l \<Longrightarrow> limiter_ok t0 (touch key l)"
  by (auto simp: limiter_ok_def touch_def split: option.splits)

lemma limiter_ok_call:
  assumes "limiter_ok t0 l" and "t0 \<le> now"
  shows "limiter_ok now (snd (limiter_call True c p now l))"
proof -
  have l: "limiter_ok now (touch (limiter_key c p) l)"
    by (rule limiter_ok_touch [OF limiter_ok_later [OF assms]])
  show ?thesis
  proof (cases "fst (limiter_call True c p now l) = Inr ()")
    case True
    then have "int (length (recent_hits l (limiter_key c p) now @ [now])) \<le> max 0 (rl_times l)"
      by (simp add: limiter_call_admits)
    moreover have "\<forall>t \<in> set (recent_hits l (limiter_key c p) now @ [now]). t \<le> now"
      using recent_hits_old [OF assms(1)] assms(2) by fastforce
    moreover have "limiter_ok now (l\<lparr>rl_hits := (rl_hits l)(key \<mapsto> ts)\<rparr>)"
      if "limiter_ok now l" "int (length ts) \<le> max 0 (rl_times l)" "\<forall>t \<in> set ts. t \<le> now" for l key ts
      using that by (simp add: limiter_ok_def)
    ultimately show ?thesis using l True by (simp only: limiter_call_state Let_def if_True touch_simps simp_thms)
  next
    case False
    then show ?thesis using l by (simp add: limiter_call_state Let_def)
  qed
qed

lemma limiter_ok_run:
  assumes "limiter_ok t0 l" and "monotonic t0 (cs @ [c])"
  shows "limiter_ok (call_time c) (snd (limiter_run cs l))"
  using assms
proof (induction cs arbitrary: t0 l)
  case Nil
  then show ?case by (auto intro: limiter_ok_later)
next
  case (Cons x cs)
  obtain h p now where x: "x = (h, p, now)" by (cases x)
  have now: "t0 \<le> now" "monotonic now (cs @ [c])" using Cons.prems(2) by (simp_all add: x call_time_def)
  from Cons.IH [OF limiter_ok_call [OF Cons.prems(1) now(1)] now(2)] show ?case
    unfolding x limiter_run_Cons .
qed

lemma limiter_refusal:
  assumes ok: "limiter_ok now l" and run: "limiter_call True c p now l = (Inl x, l')" and pos: "0 < rl_times l"
  shows "\<exists>n. x = too_many n \<and> 1 \<le> n \<and> n \<le> rl_seconds l + 1 \<and>
    (\<forall>later. now + n * ticks \<le> later \<longrightarrow> fst (limiter_call True c p later l') = Inr ())"
proof -
  let ?w = "rl_seconds l * ticks"
  let ?hits = "recent_hits l (limiter_key c p) now"
  obtain h hs where hits: "?hits = h # hs"
    and x: "x = too_many (whole_seconds (?w - (now - h)) + 1)" and l': "l' = touch (limiter_key c p) l"
    using run pos by (auto simp: limiter_call_def Let_def split: if_splits list.splits)
  have "h \<in> set ?hits" by (simp add: hits)
  then have "h > now - ?w" and "h \<le> now"
    using recent_hits_old [OF ok] by (auto simp: recent_hits_def)
  let ?x = "?w - (now - h)"
  have n: "whole_seconds ?x = ?x div ticks" and x0: "0 < ?x" "?x \<le> ?w"
    using \<open>h > now - ?w\<close> \<open>h \<le> now\<close> by (simp_all add: whole_seconds_def)
  have "fst (limiter_call True c p later l') = Inr ()" if later: "now + (?x div ticks + 1) * ticks \<le> later" for later
  proof -
    have "?x < (?x div ticks + 1) * ticks" by (simp add: ticks_def)
    then have gone: "\<not> h > later - ?w" and "now \<le> later" using later x0 by simp_all
    then have "recent_hits l (limiter_key c p) later = filter (\<lambda>t. t > later - ?w) ?hits"
      by (auto simp: recent_hits_def intro!: filter_cong)
    then have "length (recent_hits l (limiter_key c p) later) \<le> length hs" using gone hits by simp
    moreover have "int (length ?hits) \<le> rl_times l" using recent_hits_length [OF ok, of "limiter_key c p" now] pos by simp
    ultimately show ?thesis by (simp add: limiter_call_admits l' hits)
  qed
  moreover have "0 \<le> ?x div ticks" and "?x div ticks \<le> rl_seconds l"
    using x0 by (simp_all add: ticks_def)
  ultimately show ?thesis by (intro exI [of _ "?x div ticks + 1"]) (simp add: x n)
qed

end
