(* ===== verification/Auth_Api.thy ===== *)
theory Auth_Api
  imports Tokens Rate_Limit Http
begin

section \<open>Authentication: core/dependencies.py and the auth router\<close>

text \<open>
  The dependency that turns a bearer token into a user, the six routes of
  \<open>auth_router.py\<close>, and the request cycle: the limiter of the route first, then the session of
  \<open>get_db\<close>, the user, the body, and the service.  Lemmas: every route keeps the invariant
  of the users table, and what a reply with tokens or a user proves about the caller.
\<close>

datatype auth_request =
    Signup signup
  | Login string string
  | Refresh string
  | Logout "string option"
  | GetProfile "string option"
  | UpdateProfile "string option" "string option" "string option"

text \<open>
  The optional text of the last three is the credential of the bearer scheme;
  \<open>UpdateProfile\<close> also carries the new name and the new password.
\<close>

record user_response =
  ur_id :: int
  ur_email :: string
  ur_username :: string
  ur_full_name :: string
  ur_is_active :: bool
  ur_created_at :: int
  ur_updated_at :: int

definition user_response_of :: "user \<Rightarrow> user_response" where
  "user_response_of u =
     \<lparr>ur_id = usr_id u, ur_email = email u, ur_username = username u, ur_full_name = full_name u,
      ur_is_active = usr_is_active u, ur_created_at = usr_created_at u, ur_updated_at = usr_updated_at u\<rparr>"

record token_response =
  access_token :: string
  refresh_token :: string
  token_type :: string

datatype auth_payload = UserData user_response | TokenData token_response

subsection \<open>The current user\<close>

definition claim :: "claims \<Rightarrow> string \<Rightarrow> json" where
  "claim c k = (case map_of c k of None \<Rightarrow> JNull | Some v \<Rightarrow> v)"

definition bearer_header :: "(string \<times> string) list" where
  "bearer_header = [(''WWW-Authenticate'', ''Bearer'')]"

definition get_current_user ::
    "settings \<Rightarrow> platform \<Rightarrow> int \<Rightarrow> string option \<Rightarrow> accounts \<Rightarrow> exn + user" where
  "get_current_user s p now credentials a =
     (case credentials of
        None \<Rightarrow> Inl (HTTPException 401 ''Not authenticated.'' bearer_header)
      | Some token \<Rightarrow>
          (case decode_token s p now token of
             None \<Rightarrow> Inl (HTTPException 401 ''Could not validate credentials.'' bearer_header)
           | Some payload \<Rightarrow>
               let sub = claim payload ''sub''; kind = claim payload ''type'' in
               if sub = JNull \<or> kind \<noteq> JStr ''access''
               then Inl (HTTPException 401 ''Invalid token.'' bearer_header)
               else (case py_int sub of
                       Inl x \<Rightarrow> Inl x
                     | Inr k \<Rightarrow>
                         (case user_get_by_id a k of
                            None \<Rightarrow> Inl (HTTPException 401 ''User not found.'' bearer_header)
                          | Some u \<Rightarrow>
                              if \<not> usr_is_active u
                              then Inl (HTTPException 403 ''Account is inactive.'' [])
                              else Inr u))))"

definition get_current_user_optional ::
    "settings \<Rightarrow> platform \<Rightarrow> int \<Rightarrow> string option \<Rightarrow> accounts \<Rightarrow> exn + user option" where
  "get_current_user_optional s p now credentials a =
     (case credentials of
        None \<Rightarrow> Inr None
      | Some token \<Rightarrow>
          (case get_current_user s p now credentials a of
             Inr u \<Rightarrow> Inr (Some u)
           | Inl (HTTPException _ _ _) \<Rightarrow> Inr None
           | Inl x \<Rightarrow> Inl x))"

subsection \<open>The routes\<close>

definition token_pair :: "settings \<Rightarrow> platform \<Rightarrow> int \<Rightarrow> user \<Rightarrow> token_response" where
  "token_pair s p now u =
     \<lparr>access_token = create_access_token s p now (str_int (usr_id u)) [],
      refresh_token = create_refresh_token s p now (str_int (usr_id u)), token_type = ''bearer''\<rparr>"

type_synonym auth_result = "(exn + auth_payload reply) \<times> accounts"
type_synonym auth_details = "auth_request \<Rightarrow> (string list \<times> string) list"

definition signup_route ::
    "auth_details \<Rightarrow> platform \<Rightarrow> string \<Rightarrow> int \<Rightarrow> signup \<Rightarrow> accounts \<Rightarrow> auth_result" where
  "signup_route det p salt now b a =
     (case valid_signup p b of
        None \<Rightarrow> (Inl (RequestValidationError (det (Signup b))), a)
      | Some b' \<Rightarrow>
          (case register p salt now (su_email b') (su_username b') (su_full_name b') (su_password b') a of
             (Inl x, a') \<Rightarrow> (Inl x, a')
           | (Inr u, a') \<Rightarrow> (Inr (created (UserData (user_response_of u))), a')))"

definition login_route ::
    "auth_details \<Rightarrow> settings \<Rightarrow> platform \<Rightarrow> int \<Rightarrow> string \<Rightarrow> string \<Rightarrow> accounts \<Rightarrow> auth_result" where
  "login_route det s p now e password a =
     (case valid_login p e password of
        None \<Rightarrow> (Inl (RequestValidationError (det (Login e password))), a)
      | Some e' \<Rightarrow>
          (case authenticate p e' password a of
             Inl x \<Rightarrow> (Inl x, a)
           | Inr u \<Rightarrow> (Inr (ok (TokenData (token_pair s p now u))), a)))"

definition refresh_route ::
    "settings \<Rightarrow> platform \<Rightarrow> int \<Rightarrow> string \<Rightarrow> accounts \<Rightarrow> auth_result" where
  "refresh_route s p now token a =
     (case decode_token s p now token of
        None \<Rightarrow> (Inl (HTTPException 401 ''Invalid refresh token.'' []), a)
      | Some payload \<Rightarrow>
          let sub = claim payload ''sub''; kind = claim payload ''type'' in
          if sub = JNull \<or> kind \<noteq> JStr ''refresh''
          then (Inl (HTTPException 401 ''Invalid refresh token.'' []), a)
          else (case py_int sub of
                  Inl x \<Rightarrow> (Inl x, a)
                | Inr k \<Rightarrow>
                    (case user_service_get_by_id k a of
                       Inl x \<Rightarrow> (Inl x, a)
                     | Inr u \<Rightarrow>
                         if \<not> usr_is_active u then (Inl (HTTPException 403 ''Account is inactive.'' []), a)
                         else (Inr (ok (TokenData (token_pair s p now u))), a))))"

definition logout_route ::
    "settings \<Rightarrow> platform \<Rightarrow> int \<Rightarrow> string option \<Rightarrow> accounts \<Rightarrow> auth_result" where
  "logout_route s p now credentials a =
     (case get_current_user s p now credentials a of
        Inl x \<Rightarrow> (Inl x, a)
      | Inr u \<Rightarrow> (Inr no_content, a))"

definition get_profile_route ::
    "settings \<Rightarrow> platform \<Rightarrow> int \<Rightarrow> string option \<Rightarrow> accounts \<Rightarrow> auth_result" where
  "get_profile_route s p now credentials a =
     (case get_current_user s p now credentials a of
        Inl x \<Rightarrow> (Inl x, a)
      | Inr u \<Rightarrow> (Inr (ok (UserData (user_response_of u))), a))"

definition update_profile_route ::
    "auth_details \<Rightarrow> settings \<Rightarrow> platform \<Rightarrow> string \<Rightarrow> int \<Rightarrow> string option \<Rightarrow> string option \<Rightarrow>
       string option \<Rightarrow> accounts \<Rightarrow> auth_result" where
  "update_profile_route det s p salt now credentials full password a =
     (case get_current_user s p now credentials a of
        Inl x \<Rightarrow> (Inl x, a)
      | Inr u \<Rightarrow>
          if \<not> valid_update full password
          then (Inl (RequestValidationError (det (UpdateProfile credentials full password))), a)
          else (case update_profile p salt now u full password a of
                  (Inl x, a') \<Rightarrow> (Inl x, a')
                | (Inr u', a') \<Rightarrow> (Inr (ok (UserData (user_response_of u'))), a')))"

fun auth_route ::
    "auth_details \<Rightarrow> settings \<Rightarrow> platform \<Rightarrow> string \<Rightarrow> int \<Rightarrow> auth_request \<Rightarrow> accounts \<Rightarrow> auth_result" where
  "auth_route det s p salt now (Signup b) a = signup_route det p salt now b a"
| "auth_route det s p salt now (Login e pw) a = login_route det s p now e pw a"
| "auth_route det s p salt now (Refresh t) a = refresh_route s p now t a"
| "auth_route det s p salt now (Logout c) a = logout_route s p now c a"
| "auth_route det s p salt now (GetProfile c) a = get_profile_route s p now c a"
| "auth_route det s p salt now (UpdateProfile c full pw) a = update_profile_route det s p salt now c full pw a"

subsection \<open>The request cycle\<close>

text \<open>\<open>get_db\<close> on the users table: a request that raises is rolled back, its counter is not.\<close>

definition auth_session :: "(accounts \<Rightarrow> (exn + 'a) \<times> accounts) \<Rightarrow> accounts \<Rightarrow> (exn + 'a) \<times> accounts" where
  "auth_session request a =
     (case request a of
        (Inr x, a') \<Rightarrow> (Inr x, a')
      | (Inl x, a') \<Rightarrow> (Inl x, a\<lparr>next_user_id := next_user_id a'\<rparr>))"

record auth_state =
  accts :: accounts
  signup_limiter :: rate_limiter
  login_limiter :: rate_limiter

definition auth_start :: "accounts \<Rightarrow> auth_state" where
  "auth_start a = \<lparr>accts = a, signup_limiter = new_limiter 5 60, login_limiter = new_limiter 10 60\<rparr>"

record caller =
  client_host :: "string option"
  wall_clock :: int
  mono_clock :: int
  fresh_salt :: string

definition throttle :: "settings \<Rightarrow> caller \<Rightarrow> auth_request \<Rightarrow> auth_state \<Rightarrow> (exn + unit) \<times> auth_state" where
  "throttle s c req st =
     (case req of
        Signup _ \<Rightarrow>
          (case limiter_call (RATE_LIMIT_ENABLED s) (client_host c) ''/api/v1/auth/signup'' (mono_clock c)
                  (signup_limiter st) of
             (r, l) \<Rightarrow> (r, st\<lparr>signup_limiter := l\<rparr>))
      | Login _ _ \<Rightarrow>
          (case limiter_call (RATE_LIMIT_ENABLED s) (client_host c) ''/api/v1/auth/login'' (mono_clock c)
                  (login_limiter st) of
             (r, l) \<Rightarrow> (r, st\<lparr>login_limiter := l\<rparr>))
      | _ \<Rightarrow> (Inr (), st))"

definition serve_auth ::
    "auth_details \<Rightarrow> settings \<Rightarrow> platform \<Rightarrow> caller \<Rightarrow> auth_request \<Rightarrow> auth_state \<Rightarrow>
       auth_payload reply \<times> auth_state" where
  "serve_auth det s p c req st =
     (case throttle s c req st of
        (Inl x, st') \<Rightarrow> (exception_reply x, st')
      | (Inr u, st') \<Rightarrow>
          (case auth_session (auth_route det s p (fresh_salt c) (wall_clock c) req) (accts st') of
             (Inr rep, a) \<Rightarrow> (rep, st'\<lparr>accts := a\<rparr>)
           | (Inl x, a) \<Rightarrow> (exception_reply x, st'\<lparr>accts := a\<rparr>)))"

inductive auth_reachable ::
    "auth_details \<Rightarrow> settings \<Rightarrow> platform \<Rightarrow> auth_state \<Rightarrow> (caller \<times> auth_request) list \<Rightarrow> auth_state \<Rightarrow> bool"
  for det s p st0 where
  auth_begin: "auth_reachable det s p st0 [] st0"
| auth_serve: "auth_reachable det s p st0 tr st \<Longrightarrow> serve_auth det s p c req st = (rep, st') \<Longrightarrow>
    auth_reachable det s p st0 (tr @ [(c, req)]) st'"

lemmas auth_route_defs = signup_route_def login_route_def refresh_route_def logout_route_def
  get_profile_route_def update_profile_route_def

subsection \<open>What the routes keep\<close>

text \<open>
  The contract of a request on the users table: an invariant that returning operations keep
  and that does not mind a counter that has moved on survives every request.
\<close>

locale account_transaction =
  fixes route :: "accounts \<Rightarrow> (exn + 'a) \<times> accounts"
    and I :: "accounts \<Rightarrow> bool"
  assumes returns: "I a \<Longrightarrow> route a = (Inr x, a') \<Longrightarrow> I a'"
    and counter: "next_user_id a \<le> next_user_id (snd (route a))"
    and grow: "I a \<Longrightarrow> next_user_id a \<le> n \<Longrightarrow> I (a\<lparr>next_user_id := n\<rparr>)"
begin

lemma committed: "I a \<Longrightarrow> I (snd (auth_session route a))"
  using counter [of a] grow by (auto simp: auth_session_def returns split: prod.splits sum.splits)

lemma counter_grows: "next_user_id a \<le> next_user_id (snd (auth_session route a))"
  using counter [of a] by (auto simp: auth_session_def split: prod.splits sum.splits)

lemma raises_restores: "auth_session route a = (Inl x, a') \<Longrightarrow> users a' = users a"
  by (auto simp: auth_session_def split: prod.splits sum.splits)

end

lemma get_current_user_Inr:
  assumes "get_current_user s p now c a = Inr u"
  obtains token payload where "c = Some token" and "decode_token s p now token = Some payload"
    and "claim payload ''type'' = JStr ''access''" and "py_int (claim payload ''sub'') = Inr (usr_id u)"
    and "user_get_by_id a (usr_id u) = Some u" and "u \<in> set (users a)" and "usr_is_active u"
  using assms
  by (auto simp: get_current_user_def Let_def user_get_by_id_def
      split: option.splits if_splits sum.splits dest: find_by_SomeD)

lemma flush_refresh_counter [simp]: "next_user_id (snd (flush_refresh now u a)) = next_user_id a"
  by (auto simp: flush_refresh_def Let_def upd_user_def split: option.splits)

lemma update_profile_counter [simp]: "next_user_id (snd (update_profile p salt now u full pw a)) = next_user_id a"
  by (auto simp: update_profile_def Let_def split: option.splits sum.splits)

lemma register_counter: "next_user_id a \<le> next_user_id (snd (register p salt now e name full pw a))"
  by (auto simp: register_def user_create_def Let_def split: sum.splits)

text \<open>What a route that returns has done to the table: nothing, a new user or a new profile.\<close>

lemma auth_route_cases:
  assumes "auth_route det s p salt now req a = (Inr rep, a')"
  obtains (same) "a' = a"
    | (registered) b b' u where "req = Signup b" and "valid_signup p b = Some b'"
        and "register p salt now (su_email b') (su_username b') (su_full_name b') (su_password b') a = (Inr u, a')"
        and "rep = created (UserData (user_response_of u))"
    | (updated) c full pw u u' where "req = UpdateProfile c full pw" and "get_current_user s p now c a = Inr u"
        and "valid_update full pw" and "update_profile p salt now u full pw a = (Inr u', a')"
        and "rep = ok (UserData (user_response_of u'))"
  using assms
  by (cases req) (auto simp: auth_route_defs Let_def split: option.splits sum.splits prod.splits if_splits)

lemma auth_route_counter: "next_user_id a \<le> next_user_id (snd (auth_route det s p salt now req a))"
proof (cases req)
  case (Signup b)
  have "snd (auth_route det s p salt now req a) = a \<or>
      (\<exists>e n f pw. snd (auth_route det s p salt now req a) = snd (register p salt now e n f pw a))"
    by (auto simp: Signup signup_route_def split: option.splits prod.splits sum.splits) (metis snd_conv)+
  then show ?thesis using register_counter by fastforce
next
  case (UpdateProfile c full pw)
  have "snd (auth_route det s p salt now req a) = a \<or>
      (\<exists>u. snd (auth_route det s p salt now req a) = snd (update_profile p salt now u full pw a))"
    by (auto simp: UpdateProfile update_profile_route_def split: prod.splits sum.splits) (metis snd_conv)+
  then show ?thesis by fastforce
qed (auto simp: auth_route_defs Let_def split: option.splits sum.splits)

interpretation auth_unique: account_transaction "auth_route det s p salt now req" "accounts_ok p"
  for det s p salt now req
proof
  fix a x a'
  assume inv: "accounts_ok p a" and run: "auth_route det s p salt now req a = (Inr x, a')"
  from run show "accounts_ok p a'"
  proof (cases rule: auth_route_cases)
    case (registered b b' u)
    then show ?thesis using register_ok inv by blast
  next
    case (updated c full pw u u')
    have "user_get_by_id a (usr_id u) = Some u" using updated(2) by (rule get_current_user_Inr)
    with updated(4) inv show ?thesis by (rule update_profile_ok)
  qed (simp add: inv)
qed (auto simp: auth_route_counter accounts_ok_def)

subsection \<open>The rows stay well typed\<close>

definition all_well_typed :: "platform \<Rightarrow> accounts \<Rightarrow> bool" where
  "all_well_typed p a \<longleftrightarrow> (\<forall>u \<in> set (users a). well_typed p u)"

lemma well_typed_update [simp]:
  "well_typed p (u\<lparr>hashed_password := h\<rparr>) = well_typed p u"
  "well_typed p (u\<lparr>usr_updated_at := t\<rparr>) = well_typed p u"
  by (simp_all add: well_typed_def)

lemma flush_refresh_well_typed:
  "flush_refresh now u a = (r, a') \<Longrightarrow> all_well_typed p a \<Longrightarrow> well_typed p u \<Longrightarrow> all_well_typed p a'"
  by (auto simp: flush_refresh_def Let_def all_well_typed_def upd_user_def set_upd_by split: option.splits if_splits)

interpretation auth_typed: account_transaction "auth_route det s p salt now req" "all_well_typed p"
  for det s p salt now req
proof
  fix a x a'
  assume inv: "all_well_typed p a" and run: "auth_route det s p salt now req a = (Inr x, a')"
  from run show "all_well_typed p a'"
  proof (cases rule: auth_route_cases)
    case (registered b b' u)
    then obtain hash where "u = new_user (su_email b') (su_username b') (su_full_name b') hash now (next_user_id a)"
      and "a' = \<lparr>users = users a @ [u], next_user_id = next_user_id a + 1\<rparr>"
      by (blast elim: register_InrD)
    then show ?thesis using inv valid_signup_well_typed [OF registered(2)] by (auto simp: all_well_typed_def)
  next
    case (updated c full pw u u')
    have "u \<in> set (users a)" using updated(2) by (rule get_current_user_Inr)
    then have "well_typed p u" using inv by (simp add: all_well_typed_def)
    then have "well_typed p (case full of None \<Rightarrow> u | Some n \<Rightarrow> u\<lparr>full_name := n\<rparr>)"
      using updated(3) by (auto simp: well_typed_def valid_update_def split: option.splits)
    then show ?thesis
      using updated(4) flush_refresh_well_typed [OF _ inv]
      by (auto simp: update_profile_def Let_def split: option.splits sum.splits)
  qed (simp add: inv)
qed (auto simp: auth_route_counter all_well_typed_def)

subsection \<open>Requests and runs\<close>

lemma throttle_accts [simp]: "accts (snd (throttle s c req st)) = accts st"
  by (auto simp: throttle_def split: auth_request.splits prod.splits)

lemma serve_auth_accts:
  "accts (snd (serve_auth det s p c req st)) = accts st \<or>
   accts (snd (serve_auth det s p c req st)) =
     snd (auth_session (auth_route det s p (fresh_salt c) (wall_clock c) req) (accts st))"
proof (cases "throttle s c req st")
  case (Pair r st')
  then have "accts st' = accts st" using throttle_accts [of s c req st] by simp
  then show ?thesis by (auto simp: serve_auth_def Pair split: prod.splits sum.splits)
qed

text \<open>How tokens are issued.\<close>

lemma reply_inject [simp]:
  "ok x = ok y \<longleftrightarrow> x = y" "created x \<noteq> ok y" "no_content \<noteq> ok y"
  by (simp_all add: ok_def created_def no_content_def)

lemma login_route_Inr:
  assumes "login_route det s p now e pw a = (Inr rep, a')"
  shows "\<exists>e' u. valid_login p e pw = Some e' \<and> authenticate p e' pw a = Inr u \<and>
    rep = ok (TokenData (token_pair s p now u)) \<and> a' = a"
  using assms by (simp add: login_route_def split: option.splits sum.splits)

lemma refresh_route_Inr:
  assumes "refresh_route s p now token a = (Inr rep, a')"
  shows "\<exists>payload u. decode_token s p now token = Some payload \<and> claim payload ''type'' = JStr ''refresh'' \<and>
    py_int (claim payload ''sub'') = Inr (usr_id u) \<and> user_get_by_id a (usr_id u) = Some u \<and> usr_is_active u \<and>
    rep = ok (TokenData (token_pair s p now u)) \<and> a' = a"
  using assms
  by (auto simp: refresh_route_def Let_def user_service_get_by_id_Inr split: option.splits sum.splits if_splits)
     (auto dest: users.look_key)

text \<open>What a sign-up that was answered with success has stored.\<close>

lemma signup_created:
  assumes "serve_auth det s p c (Signup b) st = (Success 201 m (UserData r), st')"
  obtains b' u hash where "valid_signup p b = Some b'"
    and "hashpw p (fresh_salt c) (su_password b') = Inr hash"
    and "u = new_user (su_email b') (su_username b') (su_full_name b') hash (wall_clock c) (next_user_id (accts st))"
    and "accts st' = \<lparr>users = users (accts st) @ [u], next_user_id = next_user_id (accts st) + 1\<rparr>"
    and "r = user_response_of u"
proof (cases "throttle s c (Signup b) st")
  case (Pair x st1)
  then have same: "accts st1 = accts st" using throttle_accts [of s c "Signup b" st] by simp
  have failure: "exception_reply e \<noteq> Success 201 m (UserData r)" for e
    by (cases e) (simp_all add: exception_reply_def app_error_handler_def http_exception_handler_def
        validation_exception_handler_def unhandled_exception_handler_def envelope_def Let_def)
  obtain b' u where b': "valid_signup p b = Some b'" and r: "r = user_response_of u"
    and reg: "register p (fresh_salt c) (wall_clock c) (su_email b') (su_username b') (su_full_name b')
      (su_password b') (accts st) = (Inr u, accts st')"
    using assms failure
    by (auto simp: serve_auth_def Pair same auth_session_def signup_route_def created_def
        split: sum.splits prod.splits option.splits)
  from reg show ?thesis
    by (rule register_InrD) (use b' r that in \<open>simp add: get_password_hash_def\<close>)
qed

lemma serve_auth_returns:
  assumes "fst (throttle s c req st) = Inr ()"
    and "auth_route det s p (fresh_salt c) (wall_clock c) req (accts st) = (Inr rep, a)"
  obtains st' where "serve_auth det s p c req st = (rep, st')" and "accts st' = a"
proof (cases "throttle s c req st")
  case (Pair x st1)
  then have "accts st1 = accts st" using throttle_accts [of s c req st] by simp
  with assms Pair that show ?thesis by (simp add: serve_auth_def auth_session_def)
qed

lemma auth_reachable_ok:
  "auth_reachable det s p st0 tr st \<Longrightarrow> accounts_ok p (accts st0) \<Longrightarrow> accounts_ok p (accts st)"
proof (induction rule: auth_reachable.induct)
  case (auth_serve tr st c req rep st')
  then show ?case
    using serve_auth_accts [of det s p c req st]
      auth_unique.committed [of p "accts st" det s "fresh_salt c" "wall_clock c" req] by auto
qed simp

lemma auth_reachable_typed:
  "auth_reachable det s p st0 tr st \<Longrightarrow> all_well_typed p (accts st0) \<Longrightarrow> all_well_typed p (accts st)"
proof (induction rule: auth_reachable.induct)
  case (auth_serve tr st c req rep st')
  then show ?case
    using serve_auth_accts [of det s p c req st]
      auth_typed.committed [of p "accts st" det s "fresh_salt c" "wall_clock c" req] by auto
qed simp

end
