(* ===== verification/Auth_Sample.thy ===== *)
theory Auth_Sample
  imports Auth_Api
begin

section \<open>A concrete platform and concrete callers\<close>

text \<open>
  Stand-ins for the libraries that satisfy what the hypotheses say of them (they are not
  secure, only lawful), one user who signs up, and the states of her first requests.
\<close>

definition dec_int :: "string \<Rightarrow> int" where
  "dec_int s = (case sign_of s of (sg, body) \<Rightarrow> sg * the (digits_value 0 False body))"

fun sample_encode :: "claims \<Rightarrow> string" where
  "sample_encode [(_, JStr sub), (_, JInt e), (_, JStr kind)] =
     (if kind = ''access'' then CHR ''a'' else CHR ''r'') # str_int e @ CHR ''.'' # sub"
| "sample_encode _ = []"

fun sample_decode :: "int \<Rightarrow> string \<Rightarrow> claims option" where
  "sample_decode now [] = None"
| "sample_decode now (k # rest) =
     (let e = dec_int (takeWhile (\<lambda>c. c \<noteq> CHR ''.'') rest);
          sub = tl (dropWhile (\<lambda>c. c \<noteq> CHR ''.'') rest) in
      if e < expiry_seconds now then None
      else Some [(''sub'', JStr sub), (''exp'', JInt e),
        (''type'', JStr (if k = CHR ''a'' then ''access'' else ''refresh''))])"

definition sample_platform :: platform where
  "sample_platform =
     \<lparr>hashpw = (\<lambda>salt pw. Inr (CHR ''h'' # pw)), checkpw = (\<lambda>pw h. Inr (h = CHR ''h'' # pw)),
      jwt_encode = (\<lambda>key alg. sample_encode), jwt_decode = (\<lambda>key algs. sample_decode),
      valid_email = (\<lambda>e. if e = [] then None else Some e), collate = map lower_char\<rparr>"

lemma dec_int_str_int [simp]: "dec_int (str_int n) = n"
proof -
  have "sign_of (CHR ''-'' # s) = (-1, s)" for s by (simp add: sign_of_def)
  then show ?thesis by (simp add: dec_int_def str_int_def str_nat_value)
qed

lemma str_int_no_dot: "c \<in> set (str_int n) \<Longrightarrow> c \<noteq> CHR ''.''"
  using str_nat_digits [of "nat n"] str_nat_digits [of "nat (- n)"]
  by (auto simp: str_int_def is_digit_def split: if_splits)

lemma sample_jwt: "jwt_sound s sample_platform"
proof -
  have "takeWhile (\<lambda>c. c \<noteq> CHR ''.'') (str_int e @ CHR ''.'' # sub) = str_int e"
    and "dropWhile (\<lambda>c. c \<noteq> CHR ''.'') (str_int e @ CHR ''.'' # sub) = CHR ''.'' # sub" for e sub
    using str_int_no_dot by (subst takeWhile_append2 dropWhile_append2; force)+
  then show ?thesis by (auto simp: jwt_sound_def sample_platform_def token_claims_def)
qed

definition bcrypt_sound :: "platform \<Rightarrow> bool" where
  "bcrypt_sound p \<longleftrightarrow>
     (\<forall>salt password hash. hashpw p salt password = Inr hash \<longrightarrow> checkpw p password hash = Inr True)"

lemma sample_bcrypt: "bcrypt_sound sample_platform"
  by (auto simp: bcrypt_sound_def sample_platform_def)

definition no_auth_details :: auth_details where
  "no_auth_details = (\<lambda>_. [])"

definition ada :: signup where
  "ada = \<lparr>su_email = ''ada@x.org'', su_username = ''Ada_1'', su_full_name = ''Ada L'', su_password = ''Secret123''\<rparr>"

definition at_second :: "int \<Rightarrow> caller" where
  "at_second t = \<lparr>client_host = Some ''10.0.0.1'', wall_clock = t * 1000000, mono_clock = t * ticks, fresh_salt = ''s''\<rparr>"

definition auth_empty :: auth_state where
  "auth_empty = auth_start \<lparr>users = [], next_user_id = 1\<rparr>"

abbreviation "sample_serve \<equiv> serve_auth no_auth_details default_settings sample_platform"

definition ada_state :: auth_state where
  "ada_state = snd (sample_serve (at_second 100) (Signup ada) auth_empty)"

lemma auth_empty_ok:
  "accounts_ok p (accts auth_empty)" "all_well_typed p (accts auth_empty)" "next_user_id (accts auth_empty) = 1"
  by (simp_all add: auth_empty_def auth_start_def accounts_ok_def all_well_typed_def)

lemma ada_reachable:
  "auth_reachable no_auth_details default_settings sample_platform auth_empty [(at_second 100, Signup ada)] ada_state"
  using auth_reachable.auth_serve [OF auth_reachable.auth_begin surjective_pairing] by (simp add: ada_state_def)

end
