(* ===== verification/Auth_Properties.thy ===== *)
theory Auth_Properties
  imports Auth_Sample
begin

section \<open>Properties of users, authentication and tokens\<close>

lemma conflict_status: "reply_status (exception_reply (ConflictError t)) = 409"
  by (simp add: exception_reply_def app_error_handler_def envelope_def)

text \<open>C21:
  What a valid sign-up is answered in any state that authentication requests lead to, if the limiter lets it
  through and bcrypt hashes the password: 409 with the text about the address if a stored user has that address,
  as the database compares text; 409 with the text about the user name if one has that name; 201 otherwise,
  with one row added.  So ids, addresses and user names stay unique without the UNIQUE indexes ever refusing a
  row, which no handler would map.\<close>

theorem signups_keep_unique:
  assumes "auth_reachable det s p st0 tr st" and "accounts_ok p (accts st0)" and "valid_signup p b = Some b'"
    and "fst (throttle s c (Signup b) st) = Inr ()" and "hashpw p (fresh_salt c) (su_password b') = Inr hash"
    and "serve_auth det s p c (Signup b) st = (rep, st')"
  shows "distinct (map usr_id (users (accts st'))) \<and>
    distinct (map (\<lambda>u. collate p (email u)) (users (accts st'))) \<and>
    distinct (map (\<lambda>u. collate p (username u)) (users (accts st'))) \<and>
    (if list_ex (\<lambda>u. collate p (email u) = collate p (su_email b')) (users (accts st))
     then reply_status rep = 409 \<and> rep = exception_reply (ConflictError ''A user with this email already exists.'') \<and>
       users (accts st') = users (accts st)
     else if list_ex (\<lambda>u. collate p (username u) = collate p (su_username b')) (users (accts st))
     then reply_status rep = 409 \<and> rep = exception_reply (ConflictError ''A user with this username already exists.'') \<and>
       users (accts st') = users (accts st)
     else (let u = new_user (su_email b') (su_username b') (su_full_name b') hash (wall_clock c) (next_user_id (accts st)) in
       reply_status rep = 201 \<and> rep = created (UserData (user_response_of u)) \<and>
       users (accts st') = users (accts st) @ [u]))"
proof -
  have "auth_reachable det s p st0 (tr @ [(c, Signup b)]) st'" using assms(1,6) by (rule auth_serve)
  from auth_reachable_ok [OF this assms(2)] have unique: "accounts_ok p (accts st')" .
  obtain st1 where st1: "throttle s c (Signup b) st = (Inr (), st1)" "accts st1 = accts st"
    using assms(4) throttle_accts [of s c "Signup b" st] by (metis prod.collapse)
  have route: "auth_route det s p salt now (Signup b) = signup_route det p salt now b" for salt now by (rule ext) simp
  have served: "(rep, st') = (case auth_session (signup_route det p (fresh_salt c) (wall_clock c) b) (accts st) of
      (Inr r, a) \<Rightarrow> (r, st1\<lparr>accts := a\<rparr>) | (Inl x, a) \<Rightarrow> (exception_reply x, st1\<lparr>accts := a\<rparr>))"
    using assms(6) [symmetric] st1 by (simp add: serve_auth_def route)
  have taken: "email_exists p e a \<longleftrightarrow> list_ex (\<lambda>u. collate p (email u) = collate p e) (users a)"
    "username_exists p e a \<longleftrightarrow> list_ex (\<lambda>u. collate p (username u) = collate p e) (users a)" for e a
    by (auto simp: email_exists_iff username_exists_iff list_ex_iff image_iff eq_commute)
  show ?thesis
    using served unique assms(3,5)
    by (auto simp: auth_session_def signup_route_def register_def get_password_hash_def user_create_def taken conflict_status
        accounts_ok_def new_user_def created_def Let_def split: if_splits)
qed

theorem signups_keep_unique_witness:
  "let again = fst (sample_serve (at_second 101) (Signup (ada\<lparr>su_email := ''b@x.org''\<rparr>)) ada_state);
       other = snd (sample_serve (at_second 101) (Signup (ada\<lparr>su_username := ''Bob''\<rparr>)) ada_state) in
   reply_status again = 409 \<and> map username (users (accts other)) = [''ada_1'']"
proof -
  let ?b = "ada\<lparr>su_email := ''b@x.org''\<rparr>" and ?c = "ada\<lparr>su_username := ''Bob''\<rparr>"
  let ?v = "\<lambda>b. the (valid_signup sample_platform b)" and ?ok = "\<lambda>b. valid_signup sample_platform b \<noteq> None \<and>
      fst (throttle default_settings (at_second 101) (Signup b) ada_state) = Inr ()"
  have ok: "?ok ?b" "?ok ?c"
    and same: "\<not> list_ex (\<lambda>u. collate sample_platform (email u) = collate sample_platform (su_email (?v ?b))) (users (accts ada_state))"
      "list_ex (\<lambda>u. collate sample_platform (username u) = collate sample_platform (su_username (?v ?b))) (users (accts ada_state))"
      "list_ex (\<lambda>u. collate sample_platform (email u) = collate sample_platform (su_email (?v ?c))) (users (accts ada_state))"
    and names: "map username (users (accts ada_state)) = [''ada_1'']" by code_simp+
  have hash: "hashpw sample_platform (fresh_salt (at_second 101)) pw = Inr (CHR ''h'' # pw)" for pw
    by (simp add: sample_platform_def)
  note signup = signups_keep_unique [OF ada_reachable auth_empty_ok(1) _ _ hash surjective_pairing]
  have "valid_signup sample_platform ?b = Some (?v ?b)" "valid_signup sample_platform ?c = Some (?v ?c)" using ok by auto
  from signup [OF this(1)] signup [OF this(2)] show ?thesis
    using ok same names by (simp add: Let_def conflict_status)
qed

text \<open>C33:
  In every run of authentication requests a stored user name has 3 to 100 characters and consists of lower-case
  letters, digits and underscores, but that one newline may end it.  The full name has 2 to 255 characters and
  the address is one the e-mail validator returns.  The newline is real: every name of letters, digits and
  underscores passes the validator with a newline behind it, which the text of the validator does not
  promise.\<close>

theorem accounts_well_typed:
  assumes "auth_reachable det s p st0 tr st" and "all_well_typed p (accts st0)" and "u \<in> set (users (accts st))"
  shows "bounded 3 100 (username u) \<and> bounded 2 255 (full_name u) \<and> (\<exists>e. valid_email p e = Some (email u)) \<and>
    (\<exists>body. (username u = body \<or> username u = body @ [CHR 0x0A]) \<and> body \<noteq> [] \<and>
       list_all (\<lambda>c. is_lower c \<or> is_digit c \<or> c = CHR ''_'') body) \<and>
    (\<forall>v. v \<noteq> [] \<and> list_all word_char v \<longrightarrow>
       username_format (v @ [CHR 0x0A]) = Inr (map lower_char v @ [CHR 0x0A]))"
  using auth_reachable_typed [OF assms(1,2)] assms(3) stored_username_shape newline_names_pass
  by (simp add: all_well_typed_def well_typed_def)

theorem accounts_well_typed_witness:
  "\<exists>u. users (accts ada_state) = [u] \<and> bounded 3 100 (username u) \<and> bounded 2 255 (full_name u)"
proof -
  have "length (users (accts ada_state)) = 1" by code_simp
  then obtain u where u: "users (accts ada_state) = [u]" by (auto simp: length_Suc_conv)
  then have "u \<in> set (users (accts ada_state))" by simp
  from accounts_well_typed [OF ada_reachable auth_empty_ok(2) this] u show ?thesis by blast
qed

text \<open>C20:
  The round trip of an account: after a sign-up that was answered with 201, a login with the same
  address and password returns tokens and changes no user, and until the access token expires
  the profile read with it is exactly the user the sign-up returned; the user has a new id and
  the user name in lower case.  bcrypt and the JWT library do what they document.\<close>

theorem signup_login_profile:
  assumes jwt: "jwt_sound s p" and bcrypt: "bcrypt_sound p" and ok: "accounts_ok p (accts st0)"
    and int_column: "next_user_id (accts st0) \<le> 2147483647"
    and signup: "serve_auth det s p c1 (Signup b) st0 = (Success 201 m (UserData r), st1)"
    and calm: "fst (throttle s c2 (Login (su_email b) (su_password b)) st1) = Inr ()"
  shows "ur_id r \<notin> usr_id ` set (users (accts st0)) \<and> ur_username r = map lower_char (su_username b) \<and>
    (\<exists>tokens st2. serve_auth det s p c2 (Login (su_email b) (su_password b)) st1 = (ok (TokenData tokens), st2) \<and>
       accts st2 = accts st1 \<and>
       (\<forall>c3. expiry_seconds (wall_clock c3) \<le>
            expiry_seconds (wall_clock c2 + ACCESS_TOKEN_EXPIRE_MINUTES s * 60 * 1000000) \<longrightarrow>
          serve_auth det s p c3 (GetProfile (Some (access_token tokens))) st2 = (ok (UserData r), st2)))"
proof -
  obtain b' u hash where b': "valid_signup p b = Some b'"
    and hash: "hashpw p (fresh_salt c1) (su_password b') = Inr hash"
    and u: "u = new_user (su_email b') (su_username b') (su_full_name b') hash (wall_clock c1) (next_user_id (accts st0))"
    and st1: "accts st1 = \<lparr>users = users (accts st0) @ [u], next_user_id = next_user_id (accts st0) + 1\<rparr>"
    and r: "r = user_response_of u"
    using signup by (rule signup_created)
  note fields = valid_signup_fields [OF b']
  have ok1: "accounts_ok p (accts st1)"
    using serve_auth_accts [of det s p c1 "Signup b" st0]
      auth_unique.committed [OF ok, of det s "fresh_salt c1" "wall_clock c1" "Signup b"] ok signup by auto
  have u_in: "u \<in> set (users (accts st1))" by (simp add: st1)
  have id: "usr_id u = next_user_id (accts st0)" and fresh: "usr_id u \<notin> usr_id ` set (users (accts st0))"
    using ok by (auto simp: u new_user_def accounts_ok_def)
  have "get_by_email p (su_email b') (accts st1) = Some u"
    by (rule get_by_email_unique [OF ok1 u_in]) (simp add: u new_user_def)
  then have "authenticate p (su_email b') (su_password b') (accts st1) = Inr u"
    using bcrypt hash by (simp add: authenticate_def verify_password_def bcrypt_sound_def u new_user_def)
  then have login: "auth_route det s p salt now (Login (su_email b) (su_password b)) (accts st1) =
      (Inr (ok (TokenData (token_pair s p now u))), accts st1)" for salt now
    using fields by (simp add: login_route_def valid_login_def)
  have "user_get_by_id (accts st1) (usr_id u) = Some u"
    using ok1 u_in by (simp add: accounts_ok_def user_get_by_id_def find_by_distinct)
  moreover have "py_int (JStr (str_int (usr_id u))) = Inr (usr_id u)"
    using ok int_column by (simp add: id accounts_ok_def int_of_column)
  ultimately have me: "get_current_user s p t (Some (access_token (token_pair s p now u))) (accts st1) = Inr u"
    if "expiry_seconds t \<le> expiry_seconds (now + ACCESS_TOKEN_EXPIRE_MINUTES s * 60 * 1000000)" for t now
    using that by (simp add: get_current_user_def token_pair_def decode_access [OF jwt] claim_def Let_def)
      (simp add: u new_user_def)
  obtain st2 where st2: "serve_auth det s p c2 (Login (su_email b) (su_password b)) st1 =
      (ok (TokenData (token_pair s p (wall_clock c2) u)), st2)" "accts st2 = accts st1"
    using serve_auth_returns [OF calm] login by metis
  have "serve_auth det s p c3 (GetProfile (Some (access_token (token_pair s p (wall_clock c2) u)))) st2 =
      (ok (UserData r), st2)"
    if "expiry_seconds (wall_clock c3) \<le>
        expiry_seconds (wall_clock c2 + ACCESS_TOKEN_EXPIRE_MINUTES s * 60 * 1000000)" for c3
    using me [OF that] by (simp add: serve_auth_def throttle_def auth_session_def get_profile_route_def st2(2) r)
  with st2 fresh fields show ?thesis
    by (intro conjI exI [of _ "token_pair s p (wall_clock c2) u"] exI [of _ st2])
       (auto simp: r u user_response_of_def new_user_def)
qed

theorem signup_login_profile_witness:
  "\<exists>r tokens st2. sample_serve (at_second 101) (Login ''ada@x.org'' ''Secret123'') ada_state = (ok (TokenData tokens), st2) \<and>
     sample_serve (at_second 102) (GetProfile (Some (access_token tokens))) st2 = (ok (UserData r), st2) \<and>
     ur_username r = ''ada_1''"
proof -
  let ?s = "sample_serve (at_second 100) (Signup ada) auth_empty"
  have "case fst ?s of Success c m d \<Rightarrow> (c = 201 \<and> (case d of UserData r \<Rightarrow> True | _ \<Rightarrow> False)) | _ \<Rightarrow> False"
    and calm: "fst (throttle default_settings (at_second 101) (Login (su_email ada) (su_password ada)) ada_state) = Inr ()"
    and name: "map lower_char (su_username ada) = ''ada_1''"
    and clock: "expiry_seconds (wall_clock (at_second 102)) \<le> expiry_seconds (wall_clock (at_second 101) +
      ACCESS_TOKEN_EXPIRE_MINUTES default_settings * 60 * 1000000)" by code_simp+
  then obtain m r where "?s = (Success 201 m (UserData r), ada_state)"
    by (cases "fst ?s") (auto simp: ada_state_def prod_eq_iff split: auth_payload.splits)
  from signup_login_profile [OF sample_jwt sample_bcrypt auth_empty_ok(1) _ this calm] clock name
  show ?thesis by (force simp: auth_empty_ok(3) ada_def)
qed

text \<open>C23:
  A refresh token is never accepted as a bearer credential and an access token is never accepted
  by the refresh route: both are answered with 401, expired or not, for every user.\<close>

theorem tokens_not_interchangeable:
  assumes "jwt_sound s p"
  shows "(\<exists>d. get_current_user s p later (Some (create_refresh_token s p now sub)) a =
      Inl (HTTPException 401 d bearer_header)) \<and>
    refresh_route s p later (create_access_token s p now sub []) a =
      (Inl (HTTPException 401 ''Invalid refresh token.'' []), a)"
  by (simp add: get_current_user_def refresh_route_def decode_access [OF assms] decode_refresh [OF assms]
      claim_def Let_def)

theorem tokens_not_interchangeable_witness:
  "refresh_route default_settings sample_platform 5 (create_access_token default_settings sample_platform 0 ''1'' [])
     (accts ada_state) = (Inl (HTTPException 401 ''Invalid refresh token.'' []), accts ada_state)"
  using tokens_not_interchangeable [OF sample_jwt] by blast

text \<open>C22:
  Whoever is answered with tokens has shown who he is: they are made for an active user of the
  table whose password has just been checked, or whose id an accepted refresh token carries;
  and issuing tokens changes nothing.\<close>

theorem tokens_are_earned:
  assumes "auth_route det s p salt now req a = (Inr (ok (TokenData t)), a')"
  shows "a' = a \<and> (\<exists>u \<in> set (users a). usr_is_active u \<and> t = token_pair s p now u \<and>
    ((\<exists>e pw e'. req = Login e pw \<and> valid_email p e = Some e' \<and> collate p (email u) = collate p e' \<and>
        checkpw p pw (hashed_password u) = Inr True) \<or>
     (\<exists>token payload. req = Refresh token \<and> decode_token s p now token = Some payload \<and>
        claim payload ''type'' = JStr ''refresh'' \<and> py_int (claim payload ''sub'') = Inr (usr_id u))))"
proof (cases req)
  case (Login e pw)
  with assms have "login_route det s p now e pw a = (Inr (ok (TokenData t)), a')" by simp
  from login_route_Inr [OF this] obtain e' u where e': "valid_login p e pw = Some e'"
    and u: "authenticate p e' pw a = Inr u" and res: "t = token_pair s p now u" "a' = a" by auto
  have "valid_email p e = Some e'" using e' by (simp add: valid_login_def split: if_splits)
  with Login res authenticate_Inr [OF u] show ?thesis by blast
next
  case (Refresh token)
  with assms have "refresh_route s p now token a = (Inr (ok (TokenData t)), a')" by simp
  from refresh_route_Inr [OF this] obtain payload u where tok: "decode_token s p now token = Some payload"
      "claim payload ''type'' = JStr ''refresh''" "py_int (claim payload ''sub'') = Inr (usr_id u)"
    and u: "user_get_by_id a (usr_id u) = Some u" "usr_is_active u" "t = token_pair s p now u" "a' = a" by auto
  have "u \<in> set (users a)" using u(1) unfolding user_get_by_id_def by (rule find_by_SomeD)
  with Refresh tok u show ?thesis by blast
next
  case (Signup b)
  with assms show ?thesis
    by (simp add: signup_route_def split: option.splits sum.splits prod.splits)
next
  case (Logout c)
  with assms show ?thesis by (simp add: logout_route_def split: sum.splits)
next
  case (GetProfile c)
  with assms show ?thesis by (simp add: get_profile_route_def split: sum.splits)
next
  case (UpdateProfile c full pw)
  with assms show ?thesis by (simp add: update_profile_route_def split: sum.splits if_splits prod.splits)
qed

theorem tokens_are_earned_witness:
  "\<exists>t. fst (auth_route no_auth_details default_settings sample_platform [] 0 (Login ''ada@x.org'' ''Secret123'')
       (accts ada_state)) = Inr (ok (TokenData t)) \<and>
     t = token_pair default_settings sample_platform 0 (hd (users (accts ada_state)))"
proof -
  let ?a = "accts ada_state" and ?r = "auth_route no_auth_details default_settings sample_platform [] 0
    (Login ''ada@x.org'' ''Secret123'') (accts ada_state)"
  have "case authenticate sample_platform ''ada@x.org'' ''Secret123'' ?a of Inr u \<Rightarrow> True | Inl _ \<Rightarrow> False"
    and valid: "valid_login sample_platform ''ada@x.org'' ''Secret123'' = Some ''ada@x.org''"
    and "length (users ?a) = 1" by code_simp+
  then obtain u0 u where "authenticate sample_platform ''ada@x.org'' ''Secret123'' ?a = Inr u0" and u: "users ?a = [u]"
    by (auto simp: length_Suc_conv split: sum.splits)
  then have run: "?r = (Inr (ok (TokenData (token_pair default_settings sample_platform 0 u0))), ?a)"
    by (simp add: login_route_def valid)
  from tokens_are_earned [OF run] u
  have "token_pair default_settings sample_platform 0 u0 = token_pair default_settings sample_platform 0 u" by auto
  then show ?thesis unfolding run fst_conv by (simp add: u)
qed

end
