(* ===== verification/Pagination.thy ===== *)
theory Pagination
  imports Models
begin

section \<open>Pages of a query (app/db/pagination.py)\<close>

text \<open>
  A query is the list of rows it returns, in the order the database returns them; the order
  is the same for every page.  Lemmas: the pages of a query are its consecutive blocks, and the
  meta data of a page agree with them.
\<close>

record pagination_params =
  pg_page :: int
  pg_page_size :: int

text \<open>The constraints of the two query parameters, and their defaults.\<close>

definition valid_pagination :: "pagination_params \<Rightarrow> bool" where
  "valid_pagination p \<longleftrightarrow> 1 \<le> pg_page p \<and> 1 \<le> pg_page_size p \<and> pg_page_size p \<le> 100"

definition default_pagination :: pagination_params where
  "default_pagination = \<lparr>pg_page = 1, pg_page_size = 20\<rparr>"

definition pg_offset :: "pagination_params \<Rightarrow> int" where
  "pg_offset p = (pg_page p - 1) * pg_page_size p"

definition pg_limit :: "pagination_params \<Rightarrow> int" where
  "pg_limit p = pg_page_size p"

record page_meta =
  meta_page :: int
  meta_page_size :: int
  meta_total :: int
  meta_total_pages :: int
  meta_has_next :: bool
  meta_has_prev :: bool

record 'a page =
  page_items :: "'a list"
  page_meta :: page_meta

definition total_pages :: "int \<Rightarrow> pagination_params \<Rightarrow> int" where
  "total_pages n p = max 1 (- ((- n) div pg_page_size p))"

definition page_create :: "'a list \<Rightarrow> int \<Rightarrow> pagination_params \<Rightarrow> 'a page" where
  "page_create xs n p =
     \<lparr>page_items = xs,
      page_meta = \<lparr>meta_page = pg_page p, meta_page_size = pg_page_size p, meta_total = n,
        meta_total_pages = total_pages n p,
        meta_has_next = (pg_page p < total_pages n p), meta_has_prev = (pg_page p > 1)\<rparr>\<rparr>"

text \<open>\<open>OFFSET\<close> and \<open>LIMIT\<close> of the query, and its \<open>COUNT\<close>.\<close>

definition paginate :: "'a list \<Rightarrow> pagination_params \<Rightarrow> 'a list \<times> int" where
  "paginate rows p = (take (nat (pg_limit p)) (drop (nat (pg_offset p)) rows), int (length rows))"

subsection \<open>Pages are blocks\<close>

definition block :: "nat \<Rightarrow> 'a list \<Rightarrow> nat \<Rightarrow> 'a list" where
  "block s xs k = take s (drop (k * s) xs)"

lemma concat_blocks: "concat (map (block s xs) [0..<n]) = take (n * s) xs"
proof (induction n)
  case 0
  then show ?case by simp
next
  case (Suc n)
  have "take (Suc n * s) xs = take (n * s) xs @ take s (drop (n * s) xs)"
    using take_add [of "n * s" s xs] by (simp add: add.commute)
  with Suc show ?case by (simp add: block_def)
qed

lemma page_block:
  assumes "1 \<le> k" and "1 \<le> s"
  shows "fst (paginate rows \<lparr>pg_page = k, pg_page_size = s\<rparr>) = block (nat s) rows (nat (k - 1))"
  using assms by (simp add: paginate_def pg_limit_def pg_offset_def block_def nat_mult_distrib)

lemma upto_nat: "map (\<lambda>k. f (nat (k - 1))) [1..int n] = map f [0..<n]"
proof (induction n)
  case 0
  then show ?case by simp
next
  case (Suc n)
  have "[1..int (Suc n)] = [1..int n] @ [int (Suc n)]"
    using upto_rec2 [of 1 "int (Suc n)"] by simp
  then show ?case using Suc by simp
qed

lemma total_pages_enough:
  assumes "1 \<le> pg_page_size p" and "0 \<le> n"
  shows "n \<le> total_pages n p * pg_page_size p"
    and "pg_page p < total_pages n p \<Longrightarrow> 1 \<le> pg_page p \<Longrightarrow> pg_page p * pg_page_size p < n"
    and "total_pages n p \<le> pg_page p \<Longrightarrow> n \<le> pg_page p * pg_page_size p"
proof -
  let ?s = "pg_page_size p" and ?c = "- ((- n) div pg_page_size p)"
  have up: "n \<le> ?c * ?s" and low: "?c * ?s < n + ?s"
    using assms(1) mult_div_mod_eq [of ?s "- n"] pos_mod_sign [of ?s "- n"] pos_mod_bound [of ?s "- n"]
    by (simp_all only: mult.commute [of _ ?s] mult_minus_right) linarith+
  have "?c * ?s \<le> total_pages n p * ?s"
    using assms(1) by (intro mult_right_mono) (auto simp: total_pages_def)
  with up show all: "n \<le> total_pages n p * ?s" by linarith
  show "pg_page p * ?s < n" if "pg_page p < total_pages n p" "1 \<le> pg_page p"
  proof -
    have "pg_page p \<le> ?c - 1" using that by (auto simp: total_pages_def)
    then have "pg_page p * ?s \<le> (?c - 1) * ?s" using assms(1) by (intro mult_right_mono) auto
    with low show ?thesis by (simp add: algebra_simps)
  qed
  show "n \<le> pg_page p * ?s" if "total_pages n p \<le> pg_page p"
    using mult_right_mono [OF that, of ?s] assms(1) all by linarith
qed

end
