(* ===== verification/Support_Properties.thy ===== *)
theory Support_Properties
  imports Rate_Limit Pagination
begin

section \<open>Properties of the rate limiter and of pagination\<close>

definition some_calls :: "call list" where
  "some_calls = map (\<lambda>t. (Some ''h'', ''/p'', t * ticks)) [0, 1, 2, 61]"

text \<open>C25:
  The limiter, which forgets the calls that have left the window and stores nothing for a refused
  one, lets through exactly the calls that a log of all admissions would let through: for every
  sequence of calls of all clients and paths at a clock that does not run backwards.\<close>

theorem limiter_refines_log:
  assumes "monotonic t0 cs"
  shows "map (\<lambda>r. r = Inr ()) (fst (limiter_run cs (new_limiter n s))) =
    fst (log_run n (s * ticks) cs (\<lambda>_. []))"
  using limiter_follows [OF follows_new assms] by (simp add: new_limiter_def)

theorem limiter_refines_log_witness:
  "map (\<lambda>r. r = Inr ()) (fst (limiter_run some_calls (new_limiter 2 60))) = [True, True, False, True]"
proof -
  have "monotonic 0 some_calls" by (simp add: some_calls_def call_time_def ticks_def)
  moreover have "fst (log_run 2 (60 * ticks) some_calls (\<lambda>_. [])) = [True, True, False, True]" by code_simp
  ultimately show ?thesis using limiter_refines_log by metis
qed

text \<open>No window of \<open>seconds\<close> ever contains more than \<open>times\<close> admitted calls of one client on one path,
  wherever the window ends.\<close>

theorem limiter_window_bound:
  assumes "monotonic t0 cs"
  shows "int (within (s * ticks) t (admitted key cs (new_limiter n s))) \<le> max 0 n"
proof -
  have log: "admitted key cs (new_limiter n s) = snd (log_run n (s * ticks) cs (\<lambda>_. [])) key"
    using admitted_log [OF follows_new assms, of key n s] by (simp add: new_limiter_def)
  have "bounded_log n (s * ticks) t0 []" by (simp add: bounded_log_def within_def)
  then obtain t1 where "\<forall>key. bounded_log n (s * ticks) t1 (snd (log_run n (s * ticks) cs (\<lambda>_. [])) key)"
    using log_run_bounded [OF _ assms, of n "s * ticks" "\<lambda>_. []"] by blast
  then show ?thesis by (simp add: bounded_log_def log)
qed

theorem limiter_window_bound_witness:
  "int (within (60 * ticks) (60 * ticks) (admitted ''h:/p'' some_calls (new_limiter 2 60))) \<le> 2 \<and>
   admitted ''h:/p'' some_calls (new_limiter 2 60) = [0, ticks, 61 * ticks]"
proof -
  have "monotonic 0 some_calls" by (simp add: some_calls_def call_time_def ticks_def)
  moreover have "admitted ''h:/p'' some_calls (new_limiter 2 60) = [0, ticks, 61 * ticks]" by code_simp
  ultimately show ?thesis using limiter_window_bound [of 0 some_calls 60 "60 * ticks" "''h:/p''" 2] by simp
qed

text \<open>A refused call is answered with 429 and a Retry-After between 1 and one more than the length of
  the window, and the same client is let through when that time has passed without another call.\<close>

theorem retry_after_is_enough:
  assumes "monotonic t0 (cs @ [(c, path, now)])" and "0 < n"
    and "limiter_call True c path now (snd (limiter_run cs (new_limiter n s))) = (Inl x, l)"
  shows "\<exists>r. x = HTTPException 429 ''Too many requests. Please try again later.'' [(''Retry-After'', str_int r)] \<and>
    1 \<le> r \<and> r \<le> s + 1 \<and>
    (\<forall>later. now + r * ticks \<le> later \<longrightarrow> fst (limiter_call True c path later l) = Inr ())"
proof -
  have "limiter_ok now (snd (limiter_run cs (new_limiter n s)))"
    using limiter_ok_run [OF limiter_ok_new assms(1)] by (simp add: call_time_def)
  from limiter_refusal [OF this assms(3)] assms(2) show ?thesis
    by (simp add: too_many_def new_limiter_def)
qed

theorem retry_after_is_enough_witness:
  "\<exists>x l. limiter_call True (Some ''h'') ''/p'' (2 * ticks) (snd (limiter_run (take 2 some_calls) (new_limiter 2 60))) =
     (Inl x, l) \<and> fst (limiter_call True (Some ''h'') ''/p'' (63 * ticks) l) = Inr ()"
proof -
  let ?c = "limiter_call True (Some ''h'') ''/p'' (2 * ticks) (snd (limiter_run (take 2 some_calls) (new_limiter 2 60)))"
  have "case fst ?c of Inl x \<Rightarrow> True | Inr _ \<Rightarrow> False" by code_simp
  then obtain x where c: "?c = (Inl x, snd ?c)" by (cases ?c) (auto split: sum.splits)
  have "monotonic 0 (take 2 some_calls @ [(Some ''h'', ''/p'', 2 * ticks)])"
    by (simp add: some_calls_def call_time_def ticks_def)
  from retry_after_is_enough [OF this _ c] obtain r where "r \<le> 61"
    and wait: "\<forall>later. 2 * ticks + r * ticks \<le> later \<longrightarrow> fst (limiter_call True (Some ''h'') ''/p'' later (snd ?c)) = Inr ()"
    by auto
  then have "fst (limiter_call True (Some ''h'') ''/p'' (63 * ticks) (snd ?c)) = Inr ()" by (simp add: ticks_def)
  with c show ?thesis by (intro exI [of _ x] exI [of _ "snd ?c"] conjI)
qed

text \<open>
  The pages 1 to \<open>total_pages\<close> of a query put together are all its rows, each once and in order;
  no page is longer than the page size; and a page announces a next one exactly when the next page
  has rows.\<close>

theorem pages_partition:
  assumes "1 \<le> per"
  shows "concat (map (\<lambda>k. fst (paginate rows \<lparr>pg_page = k, pg_page_size = per\<rparr>))
      [1..total_pages (int (length rows)) \<lparr>pg_page = 1, pg_page_size = per\<rparr>]) = rows \<and>
    (\<forall>k. 1 \<le> k \<longrightarrow>
      (let page = \<lparr>pg_page = k, pg_page_size = per\<rparr>; (xs, n) = paginate rows page in
       int (length xs) \<le> per \<and>
       (meta_has_next (page_meta (page_create xs n page)) \<longleftrightarrow>
          fst (paginate rows \<lparr>pg_page = k + 1, pg_page_size = per\<rparr>) \<noteq> [])))"
proof -
  let ?p = "\<lambda>k. \<lparr>pg_page = k, pg_page_size = per\<rparr>" and ?n = "int (length rows)"
  let ?t = "max 1 (- ((- ?n) div per))"
  have t1: "1 \<le> ?t" and same: "total_pages ?n (?p k) = ?t" for k by (simp_all add: total_pages_def)
  have "?n \<le> ?t * per" using total_pages_enough(1) [of "?p 1" ?n] assms by (simp add: same)
  moreover have "int (nat ?t * nat per) = ?t * per"
    using t1 assms by (simp only: of_nat_mult) (simp only: int_nat_eq, simp)
  ultimately have "int (length rows) \<le> int (nat ?t * nat per)" by linarith
  then have long: "length rows \<le> nat ?t * nat per" by (simp only: of_nat_le_iff)
  have "map (\<lambda>k. fst (paginate rows (?p k))) [1..total_pages ?n (?p 1)] = map (\<lambda>k. block (nat per) rows (nat (k - 1))) [1..int (nat ?t)]"
    using assms t1 by (simp add: page_block same)
  also have "\<dots> = map (block (nat per) rows) [0..<nat ?t]" by (rule upto_nat)
  finally have "concat (map (\<lambda>k. fst (paginate rows (?p k))) [1..total_pages ?n (?p 1)]) = rows"
    using long by (simp add: concat_blocks same)
  moreover have "int (length (fst (paginate rows (?p k)))) \<le> per" for k
    using assms by (simp add: paginate_def pg_limit_def)
  moreover have "k < ?t \<longleftrightarrow> fst (paginate rows (?p (k + 1))) \<noteq> []" if k: "1 \<le> k" for k
  proof -
    have "fst (paginate rows (?p (k + 1))) \<noteq> [] \<longleftrightarrow> k * per < ?n"
      using assms k by (simp add: paginate_def pg_limit_def pg_offset_def not_le [symmetric] le_nat_iff)
    also have "\<dots> \<longleftrightarrow> k < ?t"
    proof
      assume "k < ?t"
      then show "k * per < ?n" using total_pages_enough(2) [of "?p k" ?n] assms k by (simp add: same)
    next
      assume more: "k * per < ?n"
      show "k < ?t"
      proof (rule ccontr)
        assume "\<not> k < ?t"
        then have "?t \<le> k" by linarith
        then show False using total_pages_enough(3) [of "?p k" ?n] assms more by (simp add: same)
      qed
    qed
    finally show ?thesis by simp
  qed
  ultimately show ?thesis
    by (simp add: Let_def split_beta page_create_def paginate_def same)
qed

theorem pages_partition_witness:
  "concat (map (\<lambda>k. fst (paginate ''abcde'' \<lparr>pg_page = k, pg_page_size = 2\<rparr>)) [1, 2, 3]) = ''abcde''"
proof -
  have "[1..total_pages (int (length ''abcde'')) \<lparr>pg_page = 1, pg_page_size = 2\<rparr>] = [1, 2, 3]" by code_simp
  with pages_partition [of 2 "''abcde''"] show ?thesis by simp
qed

end
