(* ===== verification/Console.thy ===== *)
theory Console
  imports Models
begin

section \<open>The management command line (manage.py, seed.py, commands/base.py, seeders/base.py)\<close>

text \<open>
  A command or seeder has a name, a description and a handler that changes the state \<open>'s\<close> or raises;
  it runs in a transaction of its own.  What the program prints is a list of lines, and it ends with an
  exit status or an exception.  The registered commands, their schedule and the seeders are
  arguments; \<open>croniter\<close> is the library's test whether an expression is due now, None when it is not
  installed.  The arrow, the check mark and the dash of the output are \<open>Arrow\<close>,
  \<open>SeedersComplete\<close> and two hyphens.  Lemmas: what the schedule does when nothing raises \<open>ImportError\<close>, and that such an
  exception of a command is taken for a missing library.
\<close>

record 's command =
  cmd_name :: string
  cmd_description :: string
  cmd_handle :: "'s \<Rightarrow> exn + 's"

datatype line =
    Line string
  | Arrow string
  | SeedersComplete

datatype ending = Exit int | Raised exn

type_synonym 's outcome = "line list \<times> ending \<times> 's"

text \<open>\<open>BaseCommand.run\<close> and \<open>BaseSeeder.execute\<close>: commit, or roll back and raise.\<close>

definition in_transaction :: "('s \<Rightarrow> exn + 's) \<Rightarrow> 's \<Rightarrow> exn option \<times> 's" where
  "in_transaction f s = (case f s of Inl x \<Rightarrow> (Some x, s) | Inr s' \<Rightarrow> (None, s'))"

definition find_named :: "string \<Rightarrow> 's command list \<Rightarrow> 's command option" where
  "find_named n cs = find (\<lambda>c. cmd_name c = n) cs"

definition pad :: "nat \<Rightarrow> string \<Rightarrow> string" where
  "pad n t = t @ replicate (n - length t) (CHR '' '')"

text \<open>\<open>cmd_list\<close> and \<open>seed_list\<close>.\<close>

definition listing :: "'s command list \<Rightarrow> line list" where
  "listing cs =
     [Line (pad 30 ''Name'' @ '' Description''), Line (replicate 60 (CHR ''-''))] @
     map (\<lambda>c. Line (pad 30 (cmd_name c) @ '' '' @ cmd_description c)) cs"

definition ended :: "exn option \<Rightarrow> ending" where
  "ended x = (case x of None \<Rightarrow> Exit 0 | Some x \<Rightarrow> Raised x)"

definition cmd_run :: "'s command list \<Rightarrow> string \<Rightarrow> 's \<Rightarrow> 's outcome" where
  "cmd_run cs n s =
     (case find_named n cs of
        None \<Rightarrow>
          ([Line (''Command '' @ [CHR 0x27] @ n @ [CHR 0x27] @
             '' not found. Run `python manage.py list` to see available commands.'')], Exit 1, s)
      | Some c \<Rightarrow> (case in_transaction (cmd_handle c) s of (x, s') \<Rightarrow> ([], ended x, s')))"

subsection \<open>schedule:run\<close>

fun run_due :: "(string \<Rightarrow> bool) \<Rightarrow> (string \<times> 's command) list \<Rightarrow> int \<Rightarrow> 's \<Rightarrow> line list \<times> int \<times> exn option \<times> 's" where
  "run_due due [] runs s = ([], runs, None, s)"
| "run_due due ((cron, c) # es) runs s =
     (if due cron then
        (case in_transaction (cmd_handle c) s of
           (Some x, s') \<Rightarrow> ([Arrow (''Running '' @ cmd_name c)], runs, Some x, s')
         | (None, s') \<Rightarrow>
             (case run_due due es (runs + 1) s' of (ls, n, x, s'') \<Rightarrow> (Arrow (''Running '' @ cmd_name c) # ls, n, x, s'')))
      else run_due due es runs s)"

fun run_every :: "'s command list \<Rightarrow> 's \<Rightarrow> exn option \<times> 's" where
  "run_every [] s = (None, s)"
| "run_every (c # cs) s =
     (case in_transaction (cmd_handle c) s of (Some x, s') \<Rightarrow> (Some x, s') | (None, s') \<Rightarrow> run_every cs s')"

definition no_croniter :: "line list" where
  "no_croniter =
     [Line ''croniter not installed -- running all scheduled commands unconditionally.'',
      Line ''To enable cron expressions: pip install croniter'']"

definition unconditionally :: "line list \<Rightarrow> (string \<times> 's command) list \<Rightarrow> 's \<Rightarrow> 's outcome" where
  "unconditionally ls es s = (case run_every (map snd es) s of (x, s') \<Rightarrow> (ls @ no_croniter, ended x, s'))"

definition cmd_schedule_run :: "(string \<Rightarrow> bool) option \<Rightarrow> (string \<times> 's command) list \<Rightarrow> 's \<Rightarrow> 's outcome" where
  "cmd_schedule_run croniter es s =
     (if es = [] then ([Line ''No commands registered in SCHEDULE (app/commands/kernel.py).''], Exit 0, s)
      else case croniter of
        None \<Rightarrow> unconditionally [] es s
      | Some due \<Rightarrow>
          (case run_due due es 0 s of
             (ls, n, Some x, s') \<Rightarrow>
               (case x of ImportError m \<Rightarrow> unconditionally ls es s' | _ \<Rightarrow> (ls, Raised x, s'))
           | (ls, n, None, s') \<Rightarrow>
               (ls @ (if n = 0 then [Line ''No commands due right now.''] else []), Exit 0, s')))"

subsection \<open>Seeders and the arguments\<close>

text \<open>\<open>run_all\<close> of seed.py: every seeder in one transaction.\<close>

fun seed_each :: "'s command list \<Rightarrow> 's \<Rightarrow> line list \<times> (exn + 's)" where
  "seed_each [] s = ([], Inr s)"
| "seed_each (c # cs) s =
     (case cmd_handle c s of
        Inl x \<Rightarrow> ([Arrow (cmd_description c @ ''...'')], Inl x)
      | Inr s' \<Rightarrow> (case seed_each cs s' of (ls, r) \<Rightarrow> (Arrow (cmd_description c @ ''...'') # ls, r)))"

definition run_all :: "'s command list \<Rightarrow> 's \<Rightarrow> 's outcome" where
  "run_all cs s =
     (case seed_each cs s of
        (ls, Inl x) \<Rightarrow> (ls, Raised x, s)
      | (ls, Inr s') \<Rightarrow> (ls @ [SeedersComplete], Exit 0, s'))"

definition seed_run :: "'s command list \<Rightarrow> string option \<Rightarrow> 's \<Rightarrow> 's outcome" where
  "seed_run cs name s =
     (case name of
        None \<Rightarrow> run_all cs s
      | Some n \<Rightarrow>
          if n = [] then run_all cs s
          else (case find_named n cs of
                  None \<Rightarrow>
                    ([Line (''Seeder '' @ [CHR 0x27] @ n @ [CHR 0x27] @
                       '' not found. Run `python manage.py seed:list` to see available seeders.'')], Exit 1, s)
                | Some c \<Rightarrow> (case in_transaction (cmd_handle c) s of (x, s') \<Rightarrow> ([], ended x, s'))))"

definition usage :: "line list" where
  "usage = map Line
     [''Usage:'', ''  python manage.py list'', ''  python manage.py run <command-name>'',
      ''  python manage.py schedule:run'', ''  python manage.py seed:list'', ''  python manage.py seed:run'',
      ''  python manage.py seed:run <seeder-name>'']"

definition console_main ::
    "'s command list \<Rightarrow> (string \<times> 's command) list \<Rightarrow> (string \<Rightarrow> bool) option \<Rightarrow> 's command list \<Rightarrow> string list \<Rightarrow> 's \<Rightarrow> 's outcome" where
  "console_main commands schedule croniter seeders args s =
     (if args = [] \<or> hd args = ''list'' then (listing commands, Exit 0, s)
      else if hd args = ''schedule:run'' then cmd_schedule_run croniter schedule s
      else if hd args = ''run'' \<and> length args = 2 then cmd_run commands (args ! 1) s
      else if hd args = ''seed:list'' then (listing seeders, Exit 0, s)
      else if hd args = ''seed:run'' \<and> length args = 1 then seed_run seeders None s
      else if hd args = ''seed:run'' \<and> length args = 2 then seed_run seeders (Some (args ! 1)) s
      else (usage, Exit 1, s))"

subsection \<open>What the schedule does\<close>

lemma run_due_every:
  "run_due due es n s = (ls, n', x, s') \<Longrightarrow> run_every (map snd (filter (\<lambda>e. due (fst e)) es)) s = (x, s')"
  by (induction due es n s arbitrary: ls n' rule: run_due.induct)
     (auto split: if_splits prod.splits option.splits)

lemma run_due_count:
  "run_due due es n s = (ls, n', None, s') \<Longrightarrow>
     n' = n + int (length (filter (\<lambda>e. due (fst e)) es)) \<and>
     ls = map (\<lambda>e. Arrow (''Running '' @ cmd_name (snd e))) (filter (\<lambda>e. due (fst e)) es)"
  by (induction due es n s arbitrary: ls n' s' rule: run_due.induct)
     (fastforce split: if_splits prod.splits option.splits)+

text \<open>The due commands run once each, in the order of the schedule, up to the first that raises.\<close>

lemma schedule_runs_due:
  assumes "cmd_schedule_run (Some due) es s = (ls, en, s')"
    and "\<And>m. fst (run_every (map snd (filter (\<lambda>e. due (fst e)) es)) s) \<noteq> Some (ImportError m)"
  shows "(en, s') = (case run_every (map snd (filter (\<lambda>e. due (fst e)) es)) s of (x, t) \<Rightarrow> (ended x, t))"
proof (cases "es = []")
  case True
  then show ?thesis using assms(1) by (auto simp: cmd_schedule_run_def ended_def)
next
  case False
  obtain ls' n x t where run: "run_due due es 0 s = (ls', n, x, t)" by (cases "run_due due es 0 s") auto
  note every = run_due_every [OF run]
  show ?thesis
  proof (cases x)
    case None
    then show ?thesis using assms(1) run every False by (auto simp: cmd_schedule_run_def ended_def)
  next
    case (Some y)
    have "y \<noteq> ImportError m" for m using assms(2) [of m] every Some by simp
    then show ?thesis using assms(1) run every False Some
      by (cases y) (auto simp: cmd_schedule_run_def ended_def)
  qed
qed

text \<open>
  A command that raises \<open>ImportError\<close> is taken for a missing croniter: commands that have already run, run
  again, and commands that are not due run too.
\<close>

lemma import_error_reruns:
  assumes "due p" and "cmd_handle c s = Inr s1" and "due q" and "cmd_handle d s1 = Inl (ImportError m)"
  shows "cmd_schedule_run (Some due) [(p, c), (q, d)] s =
    (case run_every [c, d] s1 of
       (x, s2) \<Rightarrow> ([Arrow (''Running '' @ cmd_name c), Arrow (''Running '' @ cmd_name d)] @ no_croniter, ended x, s2))"
  using assms by (simp add: cmd_schedule_run_def unconditionally_def in_transaction_def)

end
