(* ===== verification/Seeding.thy ===== *)
theory Seeding
  imports Exact Console
begin

section \<open>Seeders and management commands (app/seeders, seed.py, manage.py)\<close>

text \<open>
  The inventory seeder looks every provider, product and inventory row up and inserts it when
  it is missing; \<open>seed.py\<close> and \<open>manage.py\<close> (\<^theory_text>\<open>Console\<close>) run it in a transaction of their own.
  The database compares names and SKUs by \<open>collate\<close>.  The state adds to the database the counters
  of the three tables only the seeder inserts into.
  Lemmas: seeding twice is seeding once, and it only adds rows.
\<close>

record catalogue =
  cat_db :: database
  next_provider_id :: int
  next_product_id :: int
  next_inventory_id :: int

text \<open>The shape of the three helpers: SELECT, and INSERT when nothing is found.\<close>

definition get_or_create :: "('r \<Rightarrow> bool) \<Rightarrow> (int \<Rightarrow> 'r) \<Rightarrow> int \<Rightarrow> 'r list \<Rightarrow> 'r \<times> int \<times> 'r list" where
  "get_or_create P mk n rs =
     (case find P rs of
        Some r \<Rightarrow> (r, n, rs)
      | None \<Rightarrow> (mk n, n + 1, rs @ [mk n]))"

definition get_or_create_provider ::
    "(string \<Rightarrow> string) \<Rightarrow> string \<Rightarrow> (int \<Rightarrow> provider) \<Rightarrow> catalogue \<Rightarrow> provider \<times> catalogue" where
  "get_or_create_provider collate name mk c =
     (case get_or_create (\<lambda>p. collate (prov_name p) = collate name) mk (next_provider_id c)
             (providers (cat_db c)) of
        (p, n, ps) \<Rightarrow> (p, c\<lparr>cat_db := (cat_db c)\<lparr>providers := ps\<rparr>, next_provider_id := n\<rparr>))"

definition get_or_create_product ::
    "(string \<Rightarrow> string) \<Rightarrow> string \<Rightarrow> string \<Rightarrow> catalogue \<Rightarrow> product \<times> catalogue" where
  "get_or_create_product collate name sk c =
     (case get_or_create (\<lambda>p. collate (sku p) = collate sk)
             (\<lambda>k. \<lparr>prod_id = k, prod_name = name, sku = sk\<rparr>) (next_product_id c) (products (cat_db c)) of
        (p, n, ps) \<Rightarrow> (p, c\<lparr>cat_db := (cat_db c)\<lparr>products := ps\<rparr>, next_product_id := n\<rparr>))"

definition get_or_create_inventory :: "int \<Rightarrow> int \<Rightarrow> int \<Rightarrow> catalogue \<Rightarrow> inventory \<times> catalogue" where
  "get_or_create_inventory product_id provider_id qty c =
     (case get_or_create (\<lambda>r. inv_product_id r = product_id \<and> inv_provider_id r = provider_id)
             (\<lambda>k. \<lparr>inv_id = k, inv_product_id = product_id, inv_provider_id = provider_id, qty_available = qty,
                   qty_reserved = 0, last_synced_at = None\<rparr>)
             (next_inventory_id c) (inventories (cat_db c)) of
        (r, n, rs) \<Rightarrow> (r, c\<lparr>cat_db := (cat_db c)\<lparr>inventories := rs\<rparr>, next_inventory_id := n\<rparr>))"

definition seed_capabilities :: "(string \<times> json) list" where
  "seed_capabilities =
     [(''check_stock'', JBool True), (''hold_stock'', JBool True),
      (''release_hold'', JBool True), (''confirm_hold'', JBool True)]"

definition seed_internal :: "int \<Rightarrow> provider" where
  "seed_internal k =
     \<lparr>prov_id = k, prov_name = ''InternalStock'', prov_type = internal, capabilities = seed_capabilities,
      auth_config = None, base_url = None, timeout_seconds = 5, prov_is_active = True\<rparr>"

definition seed_external :: "int \<Rightarrow> provider" where
  "seed_external k =
     \<lparr>prov_id = k, prov_name = ''WarehouseProvider'', prov_type = external, capabilities = seed_capabilities,
      auth_config = Some [(''type'', ''api_key''), (''header'', ''X-Warehouse-Key''),
        (''value'', ''dev-key-change-in-production'')],
      base_url = Some ''http://warehouse-api.example.com'', timeout_seconds = 5, prov_is_active = True\<rparr>"

definition inventory_seeder :: "(string \<Rightarrow> string) \<Rightarrow> catalogue \<Rightarrow> catalogue" where
  "inventory_seeder collate c0 =
     (case get_or_create_provider collate ''InternalStock'' seed_internal c0 of (int_prov, c1) \<Rightarrow>
      case get_or_create_provider collate ''WarehouseProvider'' seed_external c1 of (ext_prov, c2) \<Rightarrow>
      case get_or_create_product collate ''Sony WH-1000XM5 Headphones'' ''SONY-WH-XM5-BLK'' c2 of (sony, c3) \<Rightarrow>
      case get_or_create_product collate ''Anker USB-C Hub 7-in-1'' ''ANKR-HUB-7C'' c3 of (anker, c4) \<Rightarrow>
      case get_or_create_inventory (prod_id sony) (prov_id ext_prov) 12 c4 of (_, c5) \<Rightarrow>
      case get_or_create_inventory (prod_id anker) (prov_id int_prov) 340 c5 of (_, c6) \<Rightarrow> c6)"

subsection \<open>The registered seeders and commands, and manage.py\<close>

definition seeders :: "(string \<Rightarrow> string) \<Rightarrow> catalogue command list" where
  "seeders collate =
     [\<lparr>cmd_name = ''inventory'', cmd_description = ''Seed inventory providers, products, and stock levels'',
       cmd_handle = (\<lambda>c. Inr (inventory_seeder collate c))\<rparr>]"

definition commands :: "catalogue command list" where
  "commands = []"

definition schedule :: "(string \<times> catalogue command) list" where
  "schedule = []"

definition run_all_seeders :: "(string \<Rightarrow> string) \<Rightarrow> catalogue \<Rightarrow> catalogue" where
  "run_all_seeders collate c = snd (snd (run_all (seeders collate) c))"

definition manage_main :: "(string \<Rightarrow> string) \<Rightarrow> (string \<Rightarrow> bool) option \<Rightarrow> string list \<Rightarrow> catalogue \<Rightarrow> catalogue outcome" where
  "manage_main collate croniter args c = console_main commands schedule croniter (seeders collate) args c"

subsection \<open>Looking up and inserting\<close>

lemma find_append: "find P (xs @ ys) = (case find P xs of None \<Rightarrow> find P ys | Some r \<Rightarrow> Some r)"
  by (induction xs) auto

lemma get_or_create_found: "find P rs = Some r \<Longrightarrow> get_or_create P mk n rs = (r, n, rs)"
  by (simp add: get_or_create_def)

lemma get_or_create_finds:
  "get_or_create P mk n rs = (r, n', rs') \<Longrightarrow> P (mk n) \<Longrightarrow> find P rs' = Some r"
  by (auto simp: get_or_create_def find_append split: option.splits)

text \<open>One table after another in the course of seeding: rows are added, keys stay fresh.\<close>

definition extends :: "('r \<Rightarrow> int) \<Rightarrow> int \<Rightarrow> 'r list \<Rightarrow> int \<Rightarrow> 'r list \<Rightarrow> bool" where
  "extends key n rs n' rs' \<longleftrightarrow>
     (\<exists>new. rs' = rs @ new \<and> map key new = [n..n' - 1] \<and> n \<le> n')"

lemma extends_refl [simp]: "extends key n rs n rs"
  by (simp add: extends_def)

lemma extends_trans:
  assumes "extends key n rs n1 rs1" and "extends key n1 rs1 n2 rs2"
  shows "extends key n rs n2 rs2"
proof -
  obtain xs ys where xs: "rs1 = rs @ xs" "map key xs = [n..n1 - 1]" "n \<le> n1"
    and ys: "rs2 = rs1 @ ys" "map key ys = [n1..n2 - 1]" "n1 \<le> n2"
    using assms unfolding extends_def by blast
  have "[n..n2 - 1] = [n..n1 - 1] @ [n1..n2 - 1]"
    using xs(3) ys(3) upto_split1 [of n n1 "n2 - 1"] upto_split2 [of n "n1 - 1" "n2 - 1"]
    by (cases "n1 \<le> n2 - 1") auto
  with xs ys show ?thesis unfolding extends_def by (intro exI [of _ "xs @ ys"]) simp
qed

lemma get_or_create_extends:
  "get_or_create P mk n rs = (r, n', rs') \<Longrightarrow> (\<And>k. key (mk k) = k) \<Longrightarrow> extends key n rs n' rs'"
  by (auto simp: get_or_create_def extends_def split: option.splits)

lemma extends_find: "extends key n rs n' rs' \<Longrightarrow> find P rs = Some r \<Longrightarrow> find P rs' = Some r"
  by (auto simp: extends_def find_append)

lemma extends_distinct:
  assumes "extends key n rs n' rs'" and "distinct (map key rs)" and "\<forall>r \<in> set rs. key r < n"
  shows "distinct (map key rs')" and "\<forall>r \<in> set rs'. key r < n'"
proof -
  obtain new where new: "rs' = rs @ new" "map key new = [n..n' - 1]" "n \<le> n'"
    using assms(1) unfolding extends_def by blast
  have keys: "key r \<in> {n..n' - 1}" if "r \<in> set new" for r
    using arg_cong [OF new(2), of set] that by auto
  show "\<forall>r \<in> set rs'. key r < n'" using keys assms(3) new(1,3) by fastforce
  have "distinct (map key new)" by (simp add: new(2))
  moreover have "key ` set rs \<inter> key ` set new = {}" using keys assms(3) by fastforce
  ultimately show "distinct (map key rs')" using assms(2) by (simp add: new(1))
qed

subsection \<open>The run of the inventory seeder\<close>

abbreviation "named collate name \<equiv> (\<lambda>p. collate (prov_name p) = collate name)"
abbreviation "with_sku collate sk \<equiv> (\<lambda>p. collate (sku p) = collate sk)"
abbreviation "stocked k j \<equiv> (\<lambda>r. inv_product_id r = k \<and> inv_provider_id r = j)"

text \<open>What the tables contain after seeding: the rows of before, and all that is looked up.\<close>

definition seeded :: "(string \<Rightarrow> string) \<Rightarrow> catalogue \<Rightarrow> provider \<Rightarrow> provider \<Rightarrow> product \<Rightarrow> product \<Rightarrow> bool" where
  "seeded collate c ip ep so an \<longleftrightarrow>
     find (named collate ''InternalStock'') (providers (cat_db c)) = Some ip \<and>
     find (named collate ''WarehouseProvider'') (providers (cat_db c)) = Some ep \<and>
     find (with_sku collate ''SONY-WH-XM5-BLK'') (products (cat_db c)) = Some so \<and>
     find (with_sku collate ''ANKR-HUB-7C'') (products (cat_db c)) = Some an \<and>
     find (stocked (prod_id so) (prov_id ep)) (inventories (cat_db c)) \<noteq> None \<and>
     find (stocked (prod_id an) (prov_id ip)) (inventories (cat_db c)) \<noteq> None"

definition other_tables ::
    "database \<Rightarrow> reservation list \<times> reservation_item list \<times> order_row list \<times> int \<times> int \<times> int" where
  "other_tables d =
     (reservations d, reservation_items d, orders d, next_reservation_id d, next_item_id d, next_order_id d)"

definition grown :: "catalogue \<Rightarrow> catalogue \<Rightarrow> bool" where
  "grown c c' \<longleftrightarrow>
     other_tables (cat_db c') = other_tables (cat_db c) \<and>
     extends prov_id (next_provider_id c) (providers (cat_db c)) (next_provider_id c') (providers (cat_db c')) \<and>
     extends prod_id (next_product_id c) (products (cat_db c)) (next_product_id c') (products (cat_db c')) \<and>
     extends inv_id (next_inventory_id c) (inventories (cat_db c)) (next_inventory_id c') (inventories (cat_db c')) \<and>
     (\<forall>r \<in> set (inventories (cat_db c')) - set (inventories (cat_db c)).
        qty_reserved r = 0 \<and> 0 \<le> qty_available r \<and> inv_provider_id r \<in> prov_id ` set (providers (cat_db c')))"

lemma grown_refl [simp]: "grown c c"
  by (simp add: grown_def)

lemma extends_subset: "extends key n rs n' rs' \<Longrightarrow> set rs \<subseteq> set rs'"
  by (auto simp: extends_def)

lemma grown_trans:
  assumes "grown a b" and "grown b c"
  shows "grown a c"
proof -
  have "prov_id ` set (providers (cat_db b)) \<subseteq> prov_id ` set (providers (cat_db c))"
    using assms(2) unfolding grown_def by (blast dest: extends_subset)
  then show ?thesis
    using assms unfolding grown_def by (auto intro: extends_trans) (metis DiffI subsetD)
qed

lemma provider_step:
  assumes "get_or_create_provider collate name mk c = (p, c')"
    and "\<And>k. prov_id (mk k) = k" and "\<And>k. prov_name (mk k) = name"
  shows "grown c c'" and "find (named collate name) (providers (cat_db c')) = Some p"
  using assms get_or_create_finds [of "named collate name" mk "next_provider_id c" "providers (cat_db c)" p]
    get_or_create_extends [of "named collate name" mk "next_provider_id c" "providers (cat_db c)" p _ _ prov_id]
  by (auto simp: get_or_create_provider_def grown_def other_tables_def split: prod.splits)

lemma product_step:
  assumes "get_or_create_product collate name sk c = (p, c')"
  shows "grown c c'" and "find (with_sku collate sk) (products (cat_db c')) = Some p"
  using assms get_or_create_finds [of "with_sku collate sk" _ "next_product_id c" "products (cat_db c)" p]
    get_or_create_extends [of "with_sku collate sk" _ "next_product_id c" "products (cat_db c)" p _ _ prod_id]
  by (auto simp: get_or_create_product_def grown_def other_tables_def split: prod.splits)

lemma inventory_step:
  assumes step: "get_or_create_inventory k j q c = (r, c')" and "0 \<le> q"
    and "j \<in> prov_id ` set (providers (cat_db c))"
  shows "grown c c'" and "find (stocked k j) (inventories (cat_db c')) = Some r"
proof -
  show "find (stocked k j) (inventories (cat_db c')) = Some r"
    using step get_or_create_finds [of "stocked k j" _ "next_inventory_id c" "inventories (cat_db c)" r]
    by (auto simp: get_or_create_inventory_def split: prod.splits)
  show "grown c c'"
  proof (cases "find (stocked k j) (inventories (cat_db c))")
    case (Some r')
    then have "c' = c" using step by (simp add: get_or_create_inventory_def get_or_create_found)
    then show ?thesis by simp
  next
    case None
    then have "c' = c\<lparr>cat_db := (cat_db c)\<lparr>inventories := inventories (cat_db c) @ [r]\<rparr>,
        next_inventory_id := next_inventory_id c + 1\<rparr>"
      and "r = \<lparr>inv_id = next_inventory_id c, inv_product_id = k, inv_provider_id = j, qty_available = q,
        qty_reserved = 0, last_synced_at = None\<rparr>"
      using step by (auto simp: get_or_create_inventory_def get_or_create_def)
    then show ?thesis using assms(2,3) by (auto simp: grown_def other_tables_def extends_def)
  qed
qed

text \<open>What has been found stays found.\<close>

lemma grown_find:
  assumes "grown c c'"
  shows "find P (providers (cat_db c)) = Some p \<Longrightarrow> find P (providers (cat_db c')) = Some p"
    and "find Q (products (cat_db c)) = Some q \<Longrightarrow> find Q (products (cat_db c')) = Some q"
    and "find R (inventories (cat_db c)) = Some r \<Longrightarrow> find R (inventories (cat_db c')) = Some r"
  using assms by (auto simp: grown_def intro: extends_find)

lemma find_id: "find P xs = Some x \<Longrightarrow> f x \<in> f ` set xs"
  by (auto simp: find_Some_iff)

lemma inventory_seeder_result:
  "\<exists>ip ep so an. seeded collate (inventory_seeder collate c) ip ep so an \<and> grown c (inventory_seeder collate c)"
proof -
  obtain ip c1 where s1: "get_or_create_provider collate ''InternalStock'' seed_internal c = (ip, c1)" by force
  obtain ep c2 where s2: "get_or_create_provider collate ''WarehouseProvider'' seed_external c1 = (ep, c2)" by force
  obtain so c3 where s3: "get_or_create_product collate ''Sony WH-1000XM5 Headphones'' ''SONY-WH-XM5-BLK'' c2 = (so, c3)"
    by force
  obtain an c4 where s4: "get_or_create_product collate ''Anker USB-C Hub 7-in-1'' ''ANKR-HUB-7C'' c3 = (an, c4)"
    by force
  obtain r5 c5 where s5: "get_or_create_inventory (prod_id so) (prov_id ep) 12 c4 = (r5, c5)" by force
  obtain r6 c6 where s6: "get_or_create_inventory (prod_id an) (prov_id ip) 340 c5 = (r6, c6)" by force
  have run: "inventory_seeder collate c = c6"
    by (simp add: inventory_seeder_def s1 s2 s3 s4 s5 s6)
  note p1 = provider_step [OF s1, unfolded seed_internal_def, simplified]
  note p2 = provider_step [OF s2, unfolded seed_external_def, simplified]
  note p3 = product_step [OF s3] and p4 = product_step [OF s4]
  have g4: "grown c2 c4" using p3(1) p4(1) by (rule grown_trans)
  have f4: "find (named collate ''WarehouseProvider'') (providers (cat_db c4)) = Some ep"
    "find (named collate ''InternalStock'') (providers (cat_db c4)) = Some ip"
    by (rule grown_find(1) [OF g4 p2(2)]) (rule grown_find(1) [OF grown_trans [OF p2(1) g4] p1(2)])
  note p5 = inventory_step [OF s5 _ find_id [OF f4(1)], simplified]
  have f5: "find (named collate ''InternalStock'') (providers (cat_db c5)) = Some ip"
    by (rule grown_find(1) [OF p5(1) f4(2)])
  note p6 = inventory_step [OF s6 _ find_id [OF f5], simplified]
  have g6: "grown c4 c6" using p5(1) p6(1) by (rule grown_trans)
  have "seeded collate c6 ip ep so an"
    using grown_find(1) [OF g6 f4(1)] grown_find(1) [OF p6(1) f5]
      grown_find(2) [OF grown_trans [OF p4(1) g6] p3(2)] grown_find(2) [OF g6 p4(2)]
      grown_find(3) [OF p6(1) p5(2)] p6(2)
    by (simp add: seeded_def)
  moreover have "grown c c6"
    using grown_trans [OF grown_trans [OF p1(1) p2(1)] grown_trans [OF g4 g6]] .
  ultimately show ?thesis unfolding run by blast
qed

text \<open>A seeded catalogue is left alone.\<close>

lemma inventory_seeder_seeded:
  assumes "seeded collate c ip ep so an"
  shows "inventory_seeder collate c = c"
proof -
  obtain r5 r6 where "find (stocked (prod_id so) (prov_id ep)) (inventories (cat_db c)) = Some r5"
    and "find (stocked (prod_id an) (prov_id ip)) (inventories (cat_db c)) = Some r6"
    using assms by (auto simp: seeded_def)
  then show ?thesis
    using assms
    by (simp add: seeded_def inventory_seeder_def get_or_create_provider_def get_or_create_product_def
        get_or_create_inventory_def get_or_create_found)
qed

subsection \<open>Seeding keeps the invariants\<close>

definition catalogue_ok :: "catalogue \<Rightarrow> bool" where
  "catalogue_ok c \<longleftrightarrow>
     distinct (map prov_id (providers (cat_db c))) \<and> distinct (map prod_id (products (cat_db c))) \<and>
     (\<forall>p \<in> set (providers (cat_db c)). prov_id p < next_provider_id c) \<and>
     (\<forall>p \<in> set (products (cat_db c)). prod_id p < next_product_id c) \<and>
     (\<forall>r \<in> set (inventories (cat_db c)). inv_id r < next_inventory_id c \<and>
        inv_provider_id r \<in> prov_id ` set (providers (cat_db c))) \<and>
     db_inv (cat_db c)"

lemma grown_tables:
  assumes "grown c c'"
  shows "reservations (cat_db c') = reservations (cat_db c)"
    and "reservation_items (cat_db c') = reservation_items (cat_db c)" and "orders (cat_db c') = orders (cat_db c)"
    and "next_reservation_id (cat_db c') = next_reservation_id (cat_db c)"
    and "next_item_id (cat_db c') = next_item_id (cat_db c)" and "next_order_id (cat_db c') = next_order_id (cat_db c)"
  using assms by (simp_all add: grown_def other_tables_def)

lemma grown_provider:
  assumes "grown c c'" and "j \<in> prov_id ` set (providers (cat_db c))"
  shows "get_provider (cat_db c') j = get_provider (cat_db c) j"
proof -
  have "get_provider (cat_db c) j \<noteq> None"
    using assms(2) by (auto simp: get_provider_def find_by_None)
  then obtain p where p: "get_provider (cat_db c) j = Some p" by blast
  then have "get_provider (cat_db c') j = Some p"
    unfolding get_provider_def find_by_def using grown_find(1) [OF assms(1)] by blast
  with p show ?thesis by simp
qed

lemma grown_sums:
  assumes "grown c c'"
  shows "live_sum (cat_db c') i = live_sum (cat_db c) i" "all_sum (cat_db c') i = all_sum (cat_db c) i"
  using grown_tables [OF assms] by (simp_all add: live_sum_def all_sum_def)

lemma no_items_sums:
  assumes "\<forall>t \<in> set (reservation_items d). item_inventory_id t \<noteq> i"
  shows "live_sum d i = 0" "all_sum d i = 0"
proof -
  have "sum_list (map (live_qty i) ts) = 0 \<and> sum_list (map (all_qty i) ts) = 0"
    if "\<forall>t \<in> set ts. item_inventory_id t \<noteq> i" for ts
    using that by (induction ts) (auto simp: live_qty_def all_qty_def)
  then show "live_sum d i = 0" "all_sum d i = 0" using assms by (simp_all add: live_sum_def all_sum_def)
qed

text \<open>Every item of a catalogue points at a row that was there before it grew.\<close>

lemma grown_item:
  assumes g: "grown c c'" and c: "catalogue_ok c" and t: "t \<in> set (reservation_items (cat_db c))"
  shows "item_inventory_id t < next_inventory_id c" and "item_ok (cat_db c) t"
    and "get_provider (cat_db c') (item_provider_id t) = get_provider (cat_db c) (item_provider_id t)"
proof -
  show ok: "item_ok (cat_db c) t" using c t by (simp add: catalogue_ok_def db_inv_def core_def refs_ok_def)
  then obtain r where "r \<in> set (inventories (cat_db c))" and k: "item_key t = row_key r" by (auto simp: item_ok_def)
  then have "inv_id r < next_inventory_id c" "inv_provider_id r \<in> prov_id ` set (providers (cat_db c))"
    using c by (auto simp: catalogue_ok_def)
  then show "item_inventory_id t < next_inventory_id c"
    and "get_provider (cat_db c') (item_provider_id t) = get_provider (cat_db c) (item_provider_id t)"
    using grown_provider [OF g] k by (auto simp: item_key_def row_key_def)
qed

text \<open>A row that was added has nothing reserved, and no item refers to it.\<close>

lemma grown_ledger:
  assumes g: "grown c c'" and c: "catalogue_ok c"
  shows "ledger (\<lambda>_. 0) (cat_db c')"
  unfolding ledger_def
proof
  fix r assume r: "r \<in> set (inventories (cat_db c'))"
  show "qty_reserved r = live_sum (cat_db c') (inv_id r) +
      row_booking (cat_db c') r * all_sum (cat_db c') (inv_id r) + 0"
  proof (cases "r \<in> set (inventories (cat_db c))")
    case True
    then have "inv_provider_id r \<in> prov_id ` set (providers (cat_db c))" and "db_inv (cat_db c)"
      using c by (auto simp: catalogue_ok_def)
    with True show ?thesis using grown_sums [OF g] grown_provider [OF g] by (simp add: inv_defs)
  next
    case False
    obtain new where new: "inventories (cat_db c') = inventories (cat_db c) @ new"
      "map inv_id new = [next_inventory_id c..next_inventory_id c' - 1]"
      using g unfolding grown_def extends_def by blast
    have "inv_id r \<in> set (map inv_id new)" using r False new(1) by auto
    then have "next_inventory_id c \<le> inv_id r" by (simp only: new(2)) simp
    then have "\<forall>t \<in> set (reservation_items (cat_db c')). item_inventory_id t \<noteq> inv_id r"
      using grown_item(1) [OF g c] by (force simp: grown_tables [OF g])
    from no_items_sums [OF this] have "live_sum (cat_db c') (inv_id r) = 0" "all_sum (cat_db c') (inv_id r) = 0" .
    moreover have "qty_reserved r = 0" using g r False by (simp add: grown_def)
    ultimately show ?thesis by simp
  qed
qed

lemma grown_db_inv:
  assumes g: "grown c c'" and c: "catalogue_ok c"
  shows "db_inv (cat_db c')"
proof -
  note same = grown_tables [OF g]
  have inv: "db_inv (cat_db c)" and rows: "\<forall>r \<in> set (inventories (cat_db c)). inv_id r < next_inventory_id c"
    using c by (auto simp: catalogue_ok_def)
  have ext: "extends inv_id (next_inventory_id c) (inventories (cat_db c)) (next_inventory_id c') (inventories (cat_db c'))"
    using g by (simp add: grown_def)
  have "distinct (map inv_id (inventories (cat_db c')))"
    using extends_distinct(1) [OF ext] inv rows by (auto simp: inv_defs)
  then have "keys_ok (cat_db c')" using inv by (simp add: inv_defs same)
  moreover have "row_key ` set (inventories (cat_db c)) \<subseteq> row_key ` set (inventories (cat_db c'))"
    using extends_subset [OF ext] by (rule image_mono)
  then have "refs_ok (cat_db c')" using grown_item(2,3) [OF g c] by (auto simp: refs_ok_def item_ok_def same)
  ultimately have "core (\<lambda>_. 0) (cat_db c')" using grown_ledger [OF g c] by (simp add: core_def)
  then show ?thesis using inv by (simp add: db_inv_def status_ok_def orders_ok_def same)
qed

lemma grown_ok:
  assumes "grown c c'" and "catalogue_ok c"
  shows "catalogue_ok c'"
proof -
  have ext: "extends prov_id (next_provider_id c) (providers (cat_db c)) (next_provider_id c') (providers (cat_db c'))"
    "extends prod_id (next_product_id c) (products (cat_db c)) (next_product_id c') (products (cat_db c'))"
    "extends inv_id (next_inventory_id c) (inventories (cat_db c)) (next_inventory_id c') (inventories (cat_db c'))"
    using assms(1) by (simp_all add: grown_def)
  have ok: "distinct (map prov_id (providers (cat_db c)))" "distinct (map prod_id (products (cat_db c)))"
    "distinct (map inv_id (inventories (cat_db c)))"
    using assms(2) by (simp_all add: catalogue_ok_def inv_defs)
  have bounds: "\<forall>p \<in> set (providers (cat_db c)). prov_id p < next_provider_id c"
    "\<forall>p \<in> set (products (cat_db c)). prod_id p < next_product_id c"
    "\<forall>r \<in> set (inventories (cat_db c)). inv_id r < next_inventory_id c"
    using assms(2) by (simp_all add: catalogue_ok_def)
  have "inv_provider_id r \<in> prov_id ` set (providers (cat_db c'))" if "r \<in> set (inventories (cat_db c'))" for r
    using assms that extends_subset [OF ext(1)] unfolding grown_def catalogue_ok_def
    by (metis DiffI image_mono subsetD)
  with extends_distinct [OF ext(1) ok(1) bounds(1)] extends_distinct [OF ext(2) ok(2) bounds(2)]
    extends_distinct [OF ext(3) ok(3) bounds(3)] grown_db_inv [OF assms]
  show ?thesis by (simp add: catalogue_ok_def)
qed

lemma run_all_seeders_once: "run_all_seeders collate c = inventory_seeder collate c"
  by (simp add: run_all_seeders_def run_all_def seeders_def)

text \<open>Every way to call \<open>manage.py\<close> leaves the catalogue alone or seeds it.\<close>

lemma manage_main_cases:
  "snd (snd (manage_main collate croniter args c)) \<in> {c, inventory_seeder collate c}"
  by (simp add: manage_main_def console_main_def cmd_run_def find_named_def commands_def seed_run_def run_all_def
      seeders_def schedule_def cmd_schedule_run_def in_transaction_def)

subsection \<open>Properties\<close>

definition no_catalogue :: catalogue where
  "no_catalogue =
     \<lparr>cat_db = \<lparr>providers = [], products = [], inventories = [], reservations = [], reservation_items = [],
        orders = [], next_reservation_id = 1, next_item_id = 1, next_order_id = 1\<rparr>,
      next_provider_id = 1, next_product_id = 1, next_inventory_id = 1\<rparr>"

text \<open>C34:
  Seeding can be repeated: after one run of the seeders every further call of \<open>manage.py\<close>, with any
  arguments, leaves providers, products, stock and counters as they are; the first run only
  adds rows, so that stock and providers that exist keep their values, and no reservation,
  item or order is touched; and the invariant of the database holds afterwards.\<close>

theorem seeding_adds_once:
  assumes "catalogue_ok c"
  shows "snd (snd (manage_main collate croniter args (run_all_seeders collate c))) = run_all_seeders collate c \<and>
    db_inv (cat_db (run_all_seeders collate c)) \<and>
    (\<exists>ps qs rs. providers (cat_db (run_all_seeders collate c)) = providers (cat_db c) @ ps \<and>
       products (cat_db (run_all_seeders collate c)) = products (cat_db c) @ qs \<and>
       inventories (cat_db (run_all_seeders collate c)) = inventories (cat_db c) @ rs) \<and>
    other_tables (cat_db (run_all_seeders collate c)) = other_tables (cat_db c)"
proof -
  let ?c = "run_all_seeders collate c"
  obtain ip ep so an where "seeded collate ?c ip ep so an" and grown: "grown c ?c"
    using inventory_seeder_result [of collate c] unfolding run_all_seeders_once by blast
  then have "inventory_seeder collate ?c = ?c" by (simp add: inventory_seeder_seeded)
  then have "snd (snd (manage_main collate croniter args ?c)) = ?c"
    using manage_main_cases [of collate croniter args ?c] by simp
  moreover have "db_inv (cat_db ?c)" using grown_db_inv [OF grown assms] .
  ultimately show ?thesis using grown by (auto simp: grown_def extends_def)
qed

theorem seeding_adds_once_witness:
  "snd (snd (manage_main id None [''seed:run'', ''inventory''] (run_all_seeders id no_catalogue))) = run_all_seeders id no_catalogue \<and>
   map qty_available (inventories (cat_db (run_all_seeders id no_catalogue))) = [12, 340]"
proof -
  have "catalogue_ok no_catalogue" by code_simp
  moreover have "map qty_available (inventories (cat_db (run_all_seeders id no_catalogue))) = [12, 340]" by code_simp
  ultimately show ?thesis using seeding_adds_once [of no_catalogue id None "[''seed:run'', ''inventory'']"] by simp
qed

end
