(* ===== verification/Routing.thy ===== *)
theory Routing
  imports Api Python_Int
begin

section \<open>From URLs to endpoints (the decorators of app/api/v1/routers, api/v1/router, main.py)\<close>

text \<open>
  The route table as the decorators and \<open>include_router\<close> build it, with the path templates of the
  code, and Starlette's search in it: the first route whose method and path match; otherwise 405
  when only a method is missing, a redirect when the path with or without a final slash matches,
  404 when nothing does.  The conversion of path parameters to integers is pydantic's (\<open>path_int\<close>),
  bodies arrive parsed.
\<close>

subsection \<open>Templates\<close>

fun split_on :: "char \<Rightarrow> string \<Rightarrow> string list" where
  "split_on c [] = [[]]"
| "split_on c (x # xs) =
     (if x = c then [] # split_on c xs
      else (case split_on c xs of [] \<Rightarrow> [[x]] | y # ys \<Rightarrow> (x # y) # ys))"

datatype segment = Lit string | Param string

definition segment_of :: "string \<Rightarrow> segment" where
  "segment_of s = (if s \<noteq> [] \<and> hd s = CHR ''{'' then Param (butlast (tl s)) else Lit s)"

definition compile_path :: "string \<Rightarrow> segment list" where
  "compile_path t = map segment_of (split_on (CHR ''/'') t)"

fun match_segments :: "segment list \<Rightarrow> string list \<Rightarrow> (string \<times> string) list option" where
  "match_segments [] [] = Some []"
| "match_segments (Lit l # ts) (s # ss) = (if l = s then match_segments ts ss else None)"
| "match_segments (Param n # ts) (s # ss) =
     (if s = [] then None else map_option (\<lambda>ps. (n, s) # ps) (match_segments ts ss))"
| "match_segments _ _ = None"

definition match_path :: "string \<Rightarrow> string \<Rightarrow> (string \<times> string) list option" where
  "match_path t p = match_segments (compile_path t) (split_on (CHR ''/'') p)"

subsection \<open>The table\<close>

datatype endpoint =
    EpSignup | EpLogin | EpRefresh | EpLogout | EpGetProfile | EpUpdateProfile
  | EpCreate | EpGet | EpConfirm | EpCancel
  | EpOutcome | EpGetOrder
  | EpAvailability | EpSync | EpHealth

datatype verb = Get | Post | Patch

record api_route =
  rt_verb :: verb
  rt_path :: string
  rt_endpoint :: endpoint

definition api :: "verb \<Rightarrow> string \<Rightarrow> endpoint \<Rightarrow> api_route" where
  "api v p ep = \<lparr>rt_verb = v, rt_path = p, rt_endpoint = ep\<rparr>"

definition with_prefix :: "string \<Rightarrow> api_route list \<Rightarrow> api_route list" where
  "with_prefix pre rs = map (\<lambda>r. r\<lparr>rt_path := pre @ rt_path r\<rparr>) rs"

definition auth_router :: "api_route list" where
  "auth_router = with_prefix ''/auth''
     [api Post ''/signup'' EpSignup, api Post ''/login'' EpLogin, api Post ''/refresh'' EpRefresh,
      api Post ''/logout'' EpLogout, api Get ''/profile'' EpGetProfile, api Patch ''/profile'' EpUpdateProfile]"

definition reservation_router :: "api_route list" where
  "reservation_router = with_prefix ''/reservations''
     [api Post '''' EpCreate, api Get ''/{reservation_id}'' EpGet,
      api Post ''/{reservation_id}/confirm'' EpConfirm, api Post ''/{reservation_id}/cancel'' EpCancel]"

definition order_router :: "api_route list" where
  "order_router = [api Post ''/payment-outcome'' EpOutcome, api Get ''/orders/{order_id}'' EpGetOrder]"

definition inventory_router :: "api_route list" where
  "inventory_router = with_prefix ''/inventory'' [api Get ''/{product_id}/availability'' EpAvailability]"

definition provider_router :: "api_route list" where
  "provider_router = with_prefix ''/providers'' [api Post ''/{provider_id}/sync'' EpSync]"

definition api_router :: "api_route list" where
  "api_router = with_prefix ''/api/v1''
     (auth_router @ reservation_router @ order_router @ inventory_router @ provider_router)"

definition app_routes :: "api_route list" where
  "app_routes = api_router @ [api Get ''/health'' EpHealth]"

subsection \<open>The search\<close>

datatype routing =
    Found endpoint "(string \<times> string) list"
  | MethodNotAllowed
  | RedirectTo string
  | NotFound

definition full_match :: "verb \<Rightarrow> string \<Rightarrow> api_route \<Rightarrow> bool" where
  "full_match v p r \<longleftrightarrow> rt_verb r = v \<and> match_path (rt_path r) p \<noteq> None"

definition path_match :: "string \<Rightarrow> api_route \<Rightarrow> bool" where
  "path_match p r \<longleftrightarrow> match_path (rt_path r) p \<noteq> None"

definition other_slash :: "string \<Rightarrow> string" where
  "other_slash p = (if last p = CHR ''/'' then rstrip (CHR ''/'') p else p @ ''/'')"

definition find_route :: "api_route list \<Rightarrow> verb \<Rightarrow> string \<Rightarrow> routing" where
  "find_route rs v p =
     (case find (full_match v p) rs of
        Some r \<Rightarrow> (case match_path (rt_path r) p of None \<Rightarrow> NotFound | Some ps \<Rightarrow> Found (rt_endpoint r) ps)
      | None \<Rightarrow>
          if list_ex (path_match p) rs then MethodNotAllowed
          else if p \<noteq> ''/'' \<and> list_ex (path_match (other_slash p)) rs then RedirectTo (other_slash p)
          else NotFound)"

subsection \<open>HTTP requests of the reservation API\<close>

datatype request_body = NoBody | ReservationBody string "(int \<times> int) list" | OutcomeBody int string

record http_request =
  http_verb :: verb
  http_path :: string
  http_body :: request_body

text \<open>The path parameters and the body of an endpoint make its request; None is a validation error.\<close>

definition with_id :: "(string \<Rightarrow> int option) \<Rightarrow> (int \<Rightarrow> request) \<Rightarrow> (string \<times> string) list \<Rightarrow> request option" where
  "with_id path_int mk ps = (case ps of [(n, k)] \<Rightarrow> map_option mk (path_int k) | _ \<Rightarrow> None)"

definition endpoint_request :: "(string \<Rightarrow> int option) \<Rightarrow> endpoint \<Rightarrow> (string \<times> string) list \<Rightarrow> request_body \<Rightarrow> request option" where
  "endpoint_request path_int ep ps b =
     (case ep of
        EpCreate \<Rightarrow> (case b of ReservationBody user its \<Rightarrow> Some (CreateReservation user its) | _ \<Rightarrow> None)
      | EpGet \<Rightarrow> with_id path_int GetReservation ps
      | EpConfirm \<Rightarrow> with_id path_int ConfirmReservation ps
      | EpCancel \<Rightarrow> with_id path_int CancelReservation ps
      | EpOutcome \<Rightarrow> (case b of OutcomeBody rid out \<Rightarrow> Some (PaymentOutcome rid out) | _ \<Rightarrow> None)
      | EpGetOrder \<Rightarrow> with_id path_int GetOrder ps
      | EpAvailability \<Rightarrow> with_id path_int GetAvailability ps
      | EpSync \<Rightarrow> with_id path_int SyncProvider ps
      | _ \<Rightarrow> None)"

definition read_request :: "(string \<Rightarrow> int option) \<Rightarrow> http_request \<Rightarrow> request option" where
  "read_request path_int h =
     (case find_route app_routes (http_verb h) (http_path h) of
        Found ep ps \<Rightarrow> endpoint_request path_int ep ps (http_body h)
      | _ \<Rightarrow> None)"

text \<open>What a client sends for a request.\<close>

fun write_request :: "request \<Rightarrow> http_request" where
  "write_request (CreateReservation user its) =
     \<lparr>http_verb = Post, http_path = ''/api/v1/reservations'', http_body = ReservationBody user its\<rparr>"
| "write_request (GetReservation k) = \<lparr>http_verb = Get, http_path = ''/api/v1/reservations/'' @ str_int k, http_body = NoBody\<rparr>"
| "write_request (ConfirmReservation k) =
     \<lparr>http_verb = Post, http_path = ''/api/v1/reservations/'' @ str_int k @ ''/confirm'', http_body = NoBody\<rparr>"
| "write_request (CancelReservation k) =
     \<lparr>http_verb = Post, http_path = ''/api/v1/reservations/'' @ str_int k @ ''/cancel'', http_body = NoBody\<rparr>"
| "write_request (PaymentOutcome k out) =
     \<lparr>http_verb = Post, http_path = ''/api/v1/payment-outcome'', http_body = OutcomeBody k out\<rparr>"
| "write_request (GetOrder k) = \<lparr>http_verb = Get, http_path = ''/api/v1/orders/'' @ str_int k, http_body = NoBody\<rparr>"
| "write_request (GetAvailability k) =
     \<lparr>http_verb = Get, http_path = ''/api/v1/inventory/'' @ str_int k @ ''/availability'', http_body = NoBody\<rparr>"
| "write_request (SyncProvider k) =
     \<lparr>http_verb = Post, http_path = ''/api/v1/providers/'' @ str_int k @ ''/sync'', http_body = NoBody\<rparr>"

subsection \<open>Splitting\<close>

lemma split_on_free: "c \<notin> set xs \<Longrightarrow> split_on c xs = [xs]"
  by (induction xs) auto

lemma split_on_append: "c \<notin> set xs \<Longrightarrow> split_on c (xs @ c # ys) = xs # split_on c ys"
  by (induction xs) auto

lemma str_int_segment: "CHR ''/'' \<notin> set (str_int k)" "str_int k \<noteq> []"
proof -
  have "\<not> is_digit (CHR ''/'')" by (simp add: is_digit_def)
  then have "CHR ''/'' \<notin> set (str_nat n)" for n using str_nat_digits [of n] by blast
  then show "CHR ''/'' \<notin> set (str_int k)" by (simp add: str_int_def)
  show "str_int k \<noteq> []" using str_nat_digits by (simp add: str_int_def)
qed

subsection \<open>Routes do not overlap\<close>

fun overlap :: "segment list \<Rightarrow> segment list \<Rightarrow> bool" where
  "overlap [] [] \<longleftrightarrow> True"
| "overlap (Lit a # ts) (Lit b # us) \<longleftrightarrow> a = b \<and> overlap ts us"
| "overlap (t # ts) (u # us) \<longleftrightarrow> overlap ts us"
| "overlap _ _ \<longleftrightarrow> False"

lemma match_segments_Cons:
  "match_segments (t # ts) ss = Some ps \<Longrightarrow>
     \<exists>s ss' ps'. ss = s # ss' \<and> match_segments ts ss' = Some ps' \<and> (case t of Lit l \<Rightarrow> l = s | Param n \<Rightarrow> s \<noteq> [])"
  by (cases t; cases ss) (auto split: if_splits)

lemma match_segments_Nil: "match_segments [] ss = Some ps \<Longrightarrow> ss = []"
  by (cases ss) simp_all

lemma matched_overlap:
  "match_segments ts ss = Some ps \<Longrightarrow> match_segments us ss = Some qs \<Longrightarrow> overlap ts us"
proof (induction ts arbitrary: us ss ps qs)
  case Nil
  then show ?case by (cases us) (auto dest: match_segments_Nil match_segments_Cons)
next
  case (Cons t ts)
  obtain s ss' ps' where t: "ss = s # ss'" "match_segments ts ss' = Some ps'" "case t of Lit l \<Rightarrow> l = s | Param n \<Rightarrow> s \<noteq> []"
    using match_segments_Cons [OF Cons.prems(1)] by blast
  then obtain u us' where us: "us = u # us'" using Cons.prems(2) by (cases us) simp_all
  obtain qs' where u: "match_segments us' ss' = Some qs'" "case u of Lit l \<Rightarrow> l = s | Param n \<Rightarrow> s \<noteq> []"
    using match_segments_Cons [OF Cons.prems(2) [unfolded us]] t(1) by blast
  show ?case using Cons.IH [OF t(2) u(1)] t(3) u(2) by (cases t; cases u) (simp_all add: us)
qed

lemma compiled_routes:
  "map (\<lambda>r. (rt_verb r, rt_endpoint r, compile_path (rt_path r))) app_routes =
     [(Post, EpSignup, [Lit [], Lit ''api'', Lit ''v1'', Lit ''auth'', Lit ''signup'']),
      (Post, EpLogin, [Lit [], Lit ''api'', Lit ''v1'', Lit ''auth'', Lit ''login'']),
      (Post, EpRefresh, [Lit [], Lit ''api'', Lit ''v1'', Lit ''auth'', Lit ''refresh'']),
      (Post, EpLogout, [Lit [], Lit ''api'', Lit ''v1'', Lit ''auth'', Lit ''logout'']),
      (Get, EpGetProfile, [Lit [], Lit ''api'', Lit ''v1'', Lit ''auth'', Lit ''profile'']),
      (Patch, EpUpdateProfile, [Lit [], Lit ''api'', Lit ''v1'', Lit ''auth'', Lit ''profile'']),
      (Post, EpCreate, [Lit [], Lit ''api'', Lit ''v1'', Lit ''reservations'']),
      (Get, EpGet, [Lit [], Lit ''api'', Lit ''v1'', Lit ''reservations'', Param ''reservation_id'']),
      (Post, EpConfirm, [Lit [], Lit ''api'', Lit ''v1'', Lit ''reservations'', Param ''reservation_id'', Lit ''confirm'']),
      (Post, EpCancel, [Lit [], Lit ''api'', Lit ''v1'', Lit ''reservations'', Param ''reservation_id'', Lit ''cancel'']),
      (Post, EpOutcome, [Lit [], Lit ''api'', Lit ''v1'', Lit ''payment-outcome'']),
      (Get, EpGetOrder, [Lit [], Lit ''api'', Lit ''v1'', Lit ''orders'', Param ''order_id'']),
      (Get, EpAvailability, [Lit [], Lit ''api'', Lit ''v1'', Lit ''inventory'', Param ''product_id'', Lit ''availability'']),
      (Post, EpSync, [Lit [], Lit ''api'', Lit ''v1'', Lit ''providers'', Param ''provider_id'', Lit ''sync'']),
      (Get, EpHealth, [Lit [], Lit ''health''])]"
  by code_simp

lemma routes_apart:
  assumes "r \<in> set app_routes" and "r' \<in> set app_routes" and "rt_verb r = rt_verb r'"
    and "overlap (compile_path (rt_path r)) (compile_path (rt_path r'))"
  shows "r = r'"
proof -
  let ?key = "\<lambda>r. (rt_verb r, rt_endpoint r, compile_path (rt_path r))"
  let ?apart = "\<lambda>ks. list_all (\<lambda>(v, e, c). list_all (\<lambda>(v', e', c'). v = v' \<and> overlap c c' \<longrightarrow> e = e') ks) ks"
  have "?apart (map ?key app_routes)" unfolding compiled_routes by simp
  then have "rt_endpoint r = rt_endpoint r'" using assms by (fastforce simp: list_all_iff)
  moreover have "distinct (map rt_endpoint app_routes)" by code_simp
  ultimately show ?thesis using assms(1,2) by (simp add: distinct_map inj_on_def)
qed

subsection \<open>The URL of a request leads to its endpoint\<close>

lemma find_route_Found:
  assumes "r \<in> set app_routes" and "rt_verb r = v" and "match_path (rt_path r) p = Some ps"
  shows "find_route app_routes v p = Found (rt_endpoint r) ps"
proof -
  have "full_match v p r" using assms by (simp add: full_match_def)
  moreover have "x = r" if x: "x \<in> set app_routes" "full_match v p x" for x
  proof -
    obtain qs where "match_path (rt_path x) p = Some qs" using x(2) by (auto simp: full_match_def)
    then have "overlap (compile_path (rt_path x)) (compile_path (rt_path r))"
      using assms(3) by (auto simp: match_path_def intro: matched_overlap)
    then show ?thesis using routes_apart [OF x(1) assms(1)] x(2) assms(2) by (simp add: full_match_def)
  qed
  moreover obtain x where "find (full_match v p) app_routes = Some x"
    using calculation(1) assms(1) by (cases "find (full_match v p) app_routes") (auto simp: find_None_iff)
  moreover from this have "x \<in> set app_routes" "full_match v p x" by (auto simp: find_Some_iff)
  ultimately show ?thesis using assms(3) by (simp add: find_route_def)
qed

lemma route_of_key:
  assumes "(v, ep, c) \<in> set (map (\<lambda>r. (rt_verb r, rt_endpoint r, compile_path (rt_path r))) app_routes)"
    and "match_segments c (split_on (CHR ''/'') p) = Some ps"
  shows "find_route app_routes v p = Found ep ps"
  using assms by (auto simp: match_path_def intro!: find_route_Found)

lemma written_route:
  assumes "(v, ep, c) \<in> set (map (\<lambda>r. (rt_verb r, rt_endpoint r, compile_path (rt_path r))) app_routes)"
    and "match_segments c (split_on (CHR ''/'') p) = Some ps"
  shows "read_request path_int \<lparr>http_verb = v, http_path = p, http_body = b\<rparr> = endpoint_request path_int ep ps b"
  using route_of_key [OF assms] by (simp add: read_request_def)

text \<open>The id in the path of a request, when it has one.\<close>

fun path_id :: "request \<Rightarrow> int option" where
  "path_id (CreateReservation user its) = None"
| "path_id (PaymentOutcome rid out) = None"
| "path_id (GetReservation k) = Some k"
| "path_id (ConfirmReservation k) = Some k"
| "path_id (CancelReservation k) = Some k"
| "path_id (GetOrder k) = Some k"
| "path_id (GetAvailability k) = Some k"
| "path_id (SyncProvider k) = Some k"

lemma read_written:
  assumes id: "\<And>k. path_id req = Some k \<Longrightarrow> path_int (str_int k) = Some k"
  shows "read_request path_int (write_request req) = Some req"
proof -
  note free = split_on_free [OF str_int_segment(1)] and app = split_on_append [OF str_int_segment(1)]
  note route = written_route [unfolded compiled_routes]
  have "read_request path_int (write_request (CreateReservation user its)) = Some (CreateReservation user its)" for user its
    using route [of Post EpCreate "[Lit [], Lit ''api'', Lit ''v1'', Lit ''reservations'']" "''/api/v1/reservations''" "[]" path_int "ReservationBody user its"]
    by (simp add: endpoint_request_def with_id_def free app str_int_segment(2))
  moreover have "read_request path_int (write_request (GetReservation k)) = Some (GetReservation k)" if "path_int (str_int k) = Some k" for k
    using that route [of Get EpGet "[Lit [], Lit ''api'', Lit ''v1'', Lit ''reservations'', Param ''reservation_id'']" "''/api/v1/reservations/'' @ str_int k" "[(''reservation_id'', str_int k)]" path_int "NoBody"]
    by (simp add: endpoint_request_def with_id_def free app str_int_segment(2))
  moreover have "read_request path_int (write_request (ConfirmReservation k)) = Some (ConfirmReservation k)" if "path_int (str_int k) = Some k" for k
    using that route [of Post EpConfirm "[Lit [], Lit ''api'', Lit ''v1'', Lit ''reservations'', Param ''reservation_id'', Lit ''confirm'']" "''/api/v1/reservations/'' @ str_int k @ ''/confirm''" "[(''reservation_id'', str_int k)]" path_int "NoBody"]
    by (simp add: endpoint_request_def with_id_def free app str_int_segment(2))
  moreover have "read_request path_int (write_request (CancelReservation k)) = Some (CancelReservation k)" if "path_int (str_int k) = Some k" for k
    using that route [of Post EpCancel "[Lit [], Lit ''api'', Lit ''v1'', Lit ''reservations'', Param ''reservation_id'', Lit ''cancel'']" "''/api/v1/reservations/'' @ str_int k @ ''/cancel''" "[(''reservation_id'', str_int k)]" path_int "NoBody"]
    by (simp add: endpoint_request_def with_id_def free app str_int_segment(2))
  moreover have "read_request path_int (write_request (PaymentOutcome k out)) = Some (PaymentOutcome k out)" for k out
    using route [of Post EpOutcome "[Lit [], Lit ''api'', Lit ''v1'', Lit ''payment-outcome'']" "''/api/v1/payment-outcome''" "[]" path_int "OutcomeBody k out"]
    by (simp add: endpoint_request_def with_id_def free app str_int_segment(2))
  moreover have "read_request path_int (write_request (GetOrder k)) = Some (GetOrder k)" if "path_int (str_int k) = Some k" for k
    using that route [of Get EpGetOrder "[Lit [], Lit ''api'', Lit ''v1'', Lit ''orders'', Param ''order_id'']" "''/api/v1/orders/'' @ str_int k" "[(''order_id'', str_int k)]" path_int "NoBody"]
    by (simp add: endpoint_request_def with_id_def free app str_int_segment(2))
  moreover have "read_request path_int (write_request (GetAvailability k)) = Some (GetAvailability k)" if "path_int (str_int k) = Some k" for k
    using that route [of Get EpAvailability "[Lit [], Lit ''api'', Lit ''v1'', Lit ''inventory'', Param ''product_id'', Lit ''availability'']" "''/api/v1/inventory/'' @ str_int k @ ''/availability''" "[(''product_id'', str_int k)]" path_int "NoBody"]
    by (simp add: endpoint_request_def with_id_def free app str_int_segment(2))
  moreover have "read_request path_int (write_request (SyncProvider k)) = Some (SyncProvider k)" if "path_int (str_int k) = Some k" for k
    using that route [of Post EpSync "[Lit [], Lit ''api'', Lit ''v1'', Lit ''providers'', Param ''provider_id'', Lit ''sync'']" "''/api/v1/providers/'' @ str_int k @ ''/sync''" "[(''provider_id'', str_int k)]" path_int "NoBody"]
    by (simp add: endpoint_request_def with_id_def free app str_int_segment(2))
  ultimately show ?thesis using id by (cases req) simp_all
qed

end
