(* ===== verification/Middleware.thy ===== *)
theory Middleware
  imports Routing Settings
begin

section \<open>The layers around a route (core/middleware.py, core/logging.py, main.py)\<close>

text \<open>
  \<open>create_app\<close> wraps the routes in layers: the handlers of the registered exceptions inside, the
  logging middleware around them, and the handler of \<open>Exception\<close> outermost.  A request gets a random id,
  which is in the body of every failure and, when the middleware sees a response, in the
  header X-Request-ID.  Log lines are values; the clock readings and the id are parameters.  The CORS
  middleware, which only adds headers, is not modelled.
\<close>

subsection \<open>setup_logging\<close>

datatype log_handler = Console | Syslog string int

record logger =
  log_level :: int
  log_handlers :: "log_handler list"

definition upper_char :: "char \<Rightarrow> char" where
  "upper_char c = (if 97 \<le> (of_char c :: nat) \<and> (of_char c :: nat) \<le> 122 then char_of ((of_char c :: nat) - 32) else c)"

definition level_names :: "(string \<times> int) list" where
  "level_names =
     [(''CRITICAL'', 50), (''FATAL'', 50), (''ERROR'', 40), (''WARNING'', 30), (''WARN'', 30), (''INFO'', 20),
      (''DEBUG'', 10), (''NOTSET'', 0)]"

definition level_of :: "string \<Rightarrow> int" where
  "level_of name = (case map_of level_names (map upper_char name) of None \<Rightarrow> 20 | Some n \<Rightarrow> n)"

text \<open>The logger is one object of the process; \<open>reachable\<close> says whether the syslog handler can be made.\<close>

definition setup_logging :: "settings \<Rightarrow> bool \<Rightarrow> logger \<Rightarrow> logger" where
  "setup_logging s reachable l =
     (let l1 = l\<lparr>log_level := level_of (LOG_LEVEL s)\<rparr> in
      if log_handlers l1 \<noteq> [] then l1
      else
        let l2 = l1\<lparr>log_handlers := log_handlers l1 @ [Console]\<rparr> in
        if reachable then l2\<lparr>log_handlers := log_handlers l2 @ [Syslog (SYSLOG_HOST s) (SYSLOG_PORT s)]\<rparr> else l2)"

lemma setup_logging_again: "setup_logging s b (setup_logging s c l) = setup_logging s c l"
  by (simp add: setup_logging_def Let_def)

subsection \<open>The middleware\<close>

record caller =
  call_verb :: verb
  call_path :: string
  call_client :: "string option"

datatype log_line =
    RequestLine string verb string string
  | ResponseLine string verb string int int
  | ErrorLine string exn

record 'a message =
  msg_reply :: "'a reply"
  msg_body_id :: "string option"
  msg_headers :: "(string \<times> string) list"

text \<open>The request id is in the envelope of a failure.\<close>

definition response :: "string \<Rightarrow> 'a reply \<Rightarrow> 'a message" where
  "response rid rep =
     \<lparr>msg_reply = rep, msg_body_id = (case rep of Failure c m b hs \<Rightarrow> Some rid | _ \<Rightarrow> None),
      msg_headers = (case rep of Failure c m b hs \<Rightarrow> hs | _ \<Rightarrow> [])\<rparr>"

definition registered :: "exn \<Rightarrow> bool" where
  "registered x = (case x of HTTPException c d h \<Rightarrow> True | RequestValidationError errs \<Rightarrow> True | _ \<Rightarrow> is_app_error x)"

definition exception_layer :: "string \<Rightarrow> ('s \<Rightarrow> (exn + 'a reply) \<times> 's) \<Rightarrow> 's \<Rightarrow> (exn + 'a message) \<times> 's" where
  "exception_layer rid call_next w =
     (case call_next w of
        (Inr rep, w') \<Rightarrow> (Inr (response rid rep), w')
      | (Inl x, w') \<Rightarrow> if registered x then (Inr (response rid (exception_reply x)), w') else (Inl x, w'))"

definition logging_layer ::
    "string \<Rightarrow> int \<Rightarrow> int \<Rightarrow> caller \<Rightarrow> ('s \<Rightarrow> (exn + 'a message) \<times> 's) \<Rightarrow> 's \<Rightarrow> ((exn + 'a message) \<times> 's) \<times> log_line list" where
  "logging_layer rid start_time end_time c call_next w =
     (let first = RequestLine rid (call_verb c) (call_path c) (case call_client c of None \<Rightarrow> ''unknown'' | Some h \<Rightarrow> h) in
      case call_next w of
        (Inl x, w') \<Rightarrow> ((Inl x, w'), [first, ErrorLine rid x])
      | (Inr m, w') \<Rightarrow>
          ((Inr (m\<lparr>msg_headers := msg_headers m @ [(''X-Request-ID'', rid)]\<rparr>), w'),
           [first, ResponseLine rid (call_verb c) (call_path c) (reply_status (msg_reply m)) (end_time - start_time)]))"

definition error_layer :: "string \<Rightarrow> ((exn + 'a message) \<times> 's) \<times> log_line list \<Rightarrow> ('a message \<times> 's) \<times> log_line list" where
  "error_layer rid res =
     (case res of
        ((Inl x, w'), ls) \<Rightarrow> ((response rid unhandled_exception_handler, w'), ls)
      | ((Inr m, w'), ls) \<Rightarrow> ((m, w'), ls))"

text \<open>The application, for a request of the reservation API that has been routed.\<close>

definition app_call ::
    "string \<Rightarrow> int \<Rightarrow> int \<Rightarrow> caller \<Rightarrow> validation_details \<Rightarrow> env \<Rightarrow> int \<Rightarrow> request \<Rightarrow> world \<Rightarrow>
       (payload message \<times> world) \<times> log_line list" where
  "app_call rid start_time end_time c det e now req w =
     error_layer rid
       (logging_layer rid start_time end_time c (exception_layer rid (get_db (dispatch det e now req))) w)"

subsection \<open>The layers together\<close>

lemma exception_reply_unregistered: "\<not> registered x \<Longrightarrow> exception_reply x = unhandled_exception_handler"
  by (cases x) (simp_all add: registered_def exception_reply_def)

lemma exception_reply_failure: "\<exists>c m b hs. (exception_reply x :: 'a reply) = Failure c m b hs"
  by (cases x) (auto simp: exception_reply_def http_exception_handler_def validation_exception_handler_def envelope_def
      app_error_handler_def unhandled_exception_handler_def Let_def)

lemma app_call_serve:
  assumes "app_call rid start_time end_time c det e now req w = ((m, w'), ls)"
  shows "serve det e now req w = (msg_reply m, w')"
  using assms
  by (auto simp: app_call_def error_layer_def logging_layer_def exception_layer_def serve_def response_def Let_def
      exception_reply_unregistered split: prod.splits sum.splits if_splits)

end
