(* ===== verification/Migrations.thy ===== *)
theory Migrations
  imports Prelude
begin

section \<open>The schema: ORM metadata and Alembic migrations\<close>

text \<open>
  The tables of the database as data: what the mapped classes declare (\<open>metadata\<close>, models) and
  what the two migrations create (migrations/versions), statement by statement.  \<open>exec_ddl\<close> is the
  DDL of the database as far as the scripts use it: a name can be taken, a table that is missing or
  still referenced cannot be dropped.  \<open>create_all\<close> is what \<open>create_tables\<close> (db/session.py) asks
  SQLAlchemy for: the missing tables, in the order of their foreign keys.
\<close>

subsection \<open>Columns, constraints, tables\<close>

datatype col_type =
    Integer
  | Boolean
  | DateTimeTz
  | Text
  | JSON
  | String nat
  | Enum "string list" string

text \<open>
  \<open>server_default\<close> is the value of the DEFAULT clause: \<open>sa.text("1")\<close> is written 1 and the string "1" is written
  '1', which is the same default of a Boolean column.
\<close>

record column =
  col_name :: string
  col_type :: col_type
  nullable :: bool
  autoincrement :: bool
  server_default :: "string option"

datatype table_constraint =
    PrimaryKey "string list"
  | Unique "string option" "string list"
  | ForeignKey string string string "string option"

record table_def =
  tab_name :: string
  tab_columns :: "column list"
  tab_constraints :: "table_constraint list"
  tab_options :: "(string \<times> string) list"

record index_def =
  idx_name :: string
  idx_table :: string
  idx_columns :: "string list"
  idx_unique :: bool

record schema =
  sch_tables :: "table_def list"
  sch_indexes :: "index_def list"

datatype ddl =
    CreateTable table_def
  | CreateIndex index_def
  | DropTable string
  | DropIndex string string

datatype ddl_error =
    TableExists string
  | NoSuchTable string
  | DuplicateIndex string
  | NoSuchIndex string
  | StillReferenced string

definition no_schema :: schema where
  "no_schema = \<lparr>sch_tables = [], sch_indexes = []\<rparr>"

text \<open>The tables a table refers to by foreign keys.\<close>

fun referred :: "table_constraint \<Rightarrow> string list" where
  "referred (ForeignKey c t k od) = [t]"
| "referred _ = []"

definition parents :: "table_def \<Rightarrow> string list" where
  "parents t = concat (map referred (tab_constraints t))"

definition has_table :: "schema \<Rightarrow> string \<Rightarrow> bool" where
  "has_table s n \<longleftrightarrow> list_ex (\<lambda>t. tab_name t = n) (sch_tables s)"

definition same_index :: "string \<Rightarrow> string \<Rightarrow> index_def \<Rightarrow> bool" where
  "same_index t n i \<longleftrightarrow> idx_table i = t \<and> idx_name i = n"

fun exec_ddl :: "ddl \<Rightarrow> schema \<Rightarrow> ddl_error + schema" where
  "exec_ddl (CreateTable t) s =
     (if has_table s (tab_name t) then Inl (TableExists (tab_name t))
      else (case find (\<lambda>p. p \<noteq> tab_name t \<and> \<not> has_table s p) (parents t) of
              Some p \<Rightarrow> Inl (NoSuchTable p)
            | None \<Rightarrow> Inr (s\<lparr>sch_tables := sch_tables s @ [t]\<rparr>)))"
| "exec_ddl (CreateIndex i) s =
     (if \<not> has_table s (idx_table i) then Inl (NoSuchTable (idx_table i))
      else if list_ex (same_index (idx_table i) (idx_name i)) (sch_indexes s) then Inl (DuplicateIndex (idx_name i))
      else Inr (s\<lparr>sch_indexes := sch_indexes s @ [i]\<rparr>))"
| "exec_ddl (DropTable n) s =
     (if \<not> has_table s n then Inl (NoSuchTable n)
      else if list_ex (\<lambda>t. tab_name t \<noteq> n \<and> n \<in> set (parents t)) (sch_tables s) then Inl (StillReferenced n)
      else Inr (s\<lparr>sch_tables := filter (\<lambda>t. tab_name t \<noteq> n) (sch_tables s),
                  sch_indexes := filter (\<lambda>i. idx_table i \<noteq> n) (sch_indexes s)\<rparr>))"
| "exec_ddl (DropIndex n t) s =
     (if \<not> has_table s t then Inl (NoSuchTable t)
      else if \<not> list_ex (same_index t n) (sch_indexes s) then Inl (NoSuchIndex n)
      else Inr (s\<lparr>sch_indexes := filter (\<lambda>i. \<not> same_index t n i) (sch_indexes s)\<rparr>))"

text \<open>A script stops at its first error; MySQL does not roll DDL back.\<close>

fun run_ddl :: "ddl list \<Rightarrow> schema \<Rightarrow> ddl_error option \<times> schema" where
  "run_ddl [] s = (None, s)"
| "run_ddl (c # cs) s = (case exec_ddl c s of Inl x \<Rightarrow> (Some x, s) | Inr s' \<Rightarrow> run_ddl cs s')"

subsection \<open>The columns the scripts and the classes repeat\<close>

definition col :: "string \<Rightarrow> col_type \<Rightarrow> column" where
  "col n ty = \<lparr>col_name = n, col_type = ty, nullable = False, autoincrement = False, server_default = None\<rparr>"

definition optional :: "column \<Rightarrow> column" where
  "optional c = c\<lparr>nullable := True\<rparr>"

definition id_col :: column where
  "id_col = (col ''id'' Integer)\<lparr>autoincrement := True\<rparr>"

definition stamps :: "column list" where
  "stamps = [col ''created_at'' DateTimeTz, col ''updated_at'' DateTimeTz]"

definition mysql_args :: "(string \<times> string) list" where
  "mysql_args = [(''mysql_engine'', ''InnoDB''), (''mysql_charset'', ''utf8mb4''), (''mysql_collate'', ''utf8mb4_unicode_ci'')]"

definition index_on :: "string \<Rightarrow> string \<Rightarrow> string list \<Rightarrow> bool \<Rightarrow> index_def" where
  "index_on n t cs u = \<lparr>idx_name = n, idx_table = t, idx_columns = cs, idx_unique = u\<rparr>"

subsection \<open>migrations/versions/0001_initial.py\<close>

definition m_users :: table_def where
  "m_users =
     \<lparr>tab_name = ''users'',
      tab_columns =
        [id_col, col ''email'' (String 255), col ''username'' (String 100), col ''full_name'' (String 255),
         col ''hashed_password'' (String 255), (col ''is_active'' Boolean)\<lparr>server_default := Some ''1''\<rparr>] @ stamps,
      tab_constraints = [PrimaryKey [''id'']],
      tab_options = mysql_args\<rparr>"

definition m_examples :: table_def where
  "m_examples =
     \<lparr>tab_name = ''examples'',
      tab_columns = [id_col, col ''name'' (String 255), optional (col ''description'' (String 1000))] @ stamps,
      tab_constraints = [PrimaryKey [''id''], Unique (Some ''uq_examples_name'') [''name'']],
      tab_options = mysql_args\<rparr>"

definition upgrade_0001 :: "ddl list" where
  "upgrade_0001 =
     [CreateTable m_users,
      CreateIndex (index_on ''ix_users_id'' ''users'' [''id''] False),
      CreateIndex (index_on ''ix_users_email'' ''users'' [''email''] True),
      CreateIndex (index_on ''ix_users_username'' ''users'' [''username''] True),
      CreateTable m_examples,
      CreateIndex (index_on ''ix_examples_id'' ''examples'' [''id''] False)]"

definition downgrade_0001 :: "ddl list" where
  "downgrade_0001 =
     [DropIndex ''ix_examples_id'' ''examples'', DropTable ''examples'',
      DropIndex ''ix_users_username'' ''users'', DropIndex ''ix_users_email'' ''users'',
      DropIndex ''ix_users_id'' ''users'', DropTable ''users'']"

subsection \<open>migrations/versions/53ff60c9f0dd_inventory_reservation_schema.py\<close>

definition m_providers :: table_def where
  "m_providers =
     \<lparr>tab_name = ''inventory_providers'',
      tab_columns =
        [id_col, col ''name'' (String 100), col ''type'' (Enum [''internal'', ''external''] ''providertype''),
         col ''capabilities'' JSON, optional (col ''auth_config'' JSON), optional (col ''base_url'' (String 500)),
         col ''timeout_seconds'' Integer, col ''is_active'' Boolean] @ stamps,
      tab_constraints = [PrimaryKey [''id''], Unique None [''name'']],
      tab_options = []\<rparr>"

definition m_products :: table_def where
  "m_products =
     \<lparr>tab_name = ''products'',
      tab_columns = [id_col, col ''name'' (String 255), col ''sku'' (String 100)] @ stamps,
      tab_constraints = [PrimaryKey [''id'']],
      tab_options = []\<rparr>"

definition m_reservations :: table_def where
  "m_reservations =
     \<lparr>tab_name = ''reservations'',
      tab_columns =
        [id_col, col ''user_id'' (String 100),
         col ''status'' (Enum [''pending'', ''confirmed'', ''cancelled'', ''expired''] ''reservationstatus''),
         col ''expires_at'' DateTimeTz] @ stamps,
      tab_constraints = [PrimaryKey [''id'']],
      tab_options = []\<rparr>"

definition m_inventory :: table_def where
  "m_inventory =
     \<lparr>tab_name = ''inventory'',
      tab_columns =
        [id_col, col ''product_id'' Integer, col ''provider_id'' Integer, col ''qty_available'' Integer,
         col ''qty_reserved'' Integer, optional (col ''last_synced_at'' DateTimeTz)] @ stamps,
      tab_constraints =
        [ForeignKey ''product_id'' ''products'' ''id'' (Some ''CASCADE''),
         ForeignKey ''provider_id'' ''inventory_providers'' ''id'' None,
         PrimaryKey [''id''],
         Unique (Some ''uq_inventory_product_provider'') [''product_id'', ''provider_id'']],
      tab_options = []\<rparr>"

definition m_orders :: table_def where
  "m_orders =
     \<lparr>tab_name = ''orders'',
      tab_columns =
        [id_col, col ''reservation_id'' Integer, col ''user_id'' (String 100),
         col ''status'' (Enum [''created'', ''fulfilled'', ''failed''] ''orderstatus'')] @ stamps,
      tab_constraints =
        [ForeignKey ''reservation_id'' ''reservations'' ''id'' None, PrimaryKey [''id''], Unique None [''reservation_id'']],
      tab_options = []\<rparr>"

definition m_reservation_items :: table_def where
  "m_reservation_items =
     \<lparr>tab_name = ''reservation_items'',
      tab_columns =
        [id_col, col ''reservation_id'' Integer, col ''product_id'' Integer, col ''inventory_id'' Integer,
         col ''provider_id'' Integer, col ''qty_requested'' Integer, optional (col ''provider_hold_ref'' (String 255)),
         col ''provider_status''
           (Enum [''pending'', ''held'', ''provider_failed'', ''released'', ''confirmed''] ''provideritemstatus''),
         optional (col ''provider_error_message'' Text)] @ stamps,
      tab_constraints =
        [ForeignKey ''inventory_id'' ''inventory'' ''id'' None,
         ForeignKey ''product_id'' ''products'' ''id'' None,
         ForeignKey ''provider_id'' ''inventory_providers'' ''id'' None,
         ForeignKey ''reservation_id'' ''reservations'' ''id'' (Some ''CASCADE''),
         PrimaryKey [''id'']],
      tab_options = []\<rparr>"

definition upgrade_53ff :: "ddl list" where
  "upgrade_53ff =
     [CreateTable m_providers,
      CreateTable m_products,
      CreateIndex (index_on ''ix_products_sku'' ''products'' [''sku''] True),
      CreateTable m_reservations,
      CreateIndex (index_on ''idx_reservations_status_expires'' ''reservations'' [''status'', ''expires_at''] False),
      CreateIndex (index_on ''idx_reservations_user'' ''reservations'' [''user_id''] False),
      CreateTable m_inventory,
      CreateIndex (index_on ''ix_inventory_product_id'' ''inventory'' [''product_id''] False),
      CreateIndex (index_on ''ix_inventory_provider_id'' ''inventory'' [''provider_id''] False),
      CreateTable m_orders,
      CreateIndex (index_on ''idx_orders_user'' ''orders'' [''user_id''] False),
      CreateTable m_reservation_items,
      CreateIndex (index_on ''idx_ri_reservation'' ''reservation_items'' [''reservation_id''] False)]"

definition downgrade_53ff :: "ddl list" where
  "downgrade_53ff =
     [DropTable ''reservation_items'', DropTable ''orders'', DropTable ''inventory'', DropTable ''reservations'',
      DropTable ''products'', DropTable ''inventory_providers'']"

subsection \<open>The revisions\<close>

text \<open>
  \<open>alembic upgrade head\<close> runs the revisions above the recorded one, each in its turn, and records
  each that has run; \<open>alembic downgrade -1\<close> undoes the recorded one.
\<close>

record revision =
  rev_id :: string
  down_revision :: "string option"
  rev_upgrade :: "ddl list"
  rev_downgrade :: "ddl list"

definition revisions :: "revision list" where
  "revisions =
     [\<lparr>rev_id = ''0001'', down_revision = None, rev_upgrade = upgrade_0001, rev_downgrade = downgrade_0001\<rparr>,
      \<lparr>rev_id = ''53ff60c9f0dd'', down_revision = Some ''0001'', rev_upgrade = upgrade_53ff,
       rev_downgrade = downgrade_53ff\<rparr>]"

fun upgrade_from :: "revision list \<Rightarrow> string option \<Rightarrow> schema \<Rightarrow> ddl_error option \<times> string option \<times> schema" where
  "upgrade_from [] v s = (None, v, s)"
| "upgrade_from (r # rs) v s =
     (if down_revision r = v then
        (case run_ddl (rev_upgrade r) s of
           (Some x, s') \<Rightarrow> (Some x, v, s')
         | (None, s') \<Rightarrow> upgrade_from rs (Some (rev_id r)) s')
      else upgrade_from rs v s)"

definition upgrade_head :: "string option \<Rightarrow> schema \<Rightarrow> ddl_error option \<times> string option \<times> schema" where
  "upgrade_head v s = upgrade_from revisions v s"

definition downgrade_one :: "string option \<Rightarrow> schema \<Rightarrow> ddl_error option \<times> string option \<times> schema" where
  "downgrade_one v s =
     (case find (\<lambda>r. v = Some (rev_id r)) revisions of
        None \<Rightarrow> (None, v, s)
      | Some r \<Rightarrow>
          (case run_ddl (rev_downgrade r) s of
             (Some x, s') \<Rightarrow> (Some x, v, s')
           | (None, s') \<Rightarrow> (None, down_revision r, s')))"

subsection \<open>The metadata of the mapped classes\<close>

text \<open>
  A mapped column with its \<open>primary_key\<close>, \<open>unique\<close>, \<open>index\<close> and \<open>ForeignKey\<close>; SQLAlchemy makes
  one constraint or index of each, an index with \<open>unique\<close> being a unique index, named after
  table and column.
\<close>

record mapped =
  m_col :: column
  m_primary :: bool
  m_unique :: bool
  m_index :: bool
  m_foreign :: "(string \<times> string \<times> string option) option"

record model =
  mod_table :: string
  mod_columns :: "mapped list"
  mod_args :: "table_constraint list"
  mod_indexes :: "(string \<times> string list) list"
  mod_options :: "(string \<times> string) list"

definition mapped_column :: "column \<Rightarrow> mapped" where
  "mapped_column c = \<lparr>m_col = c, m_primary = False, m_unique = False, m_index = False, m_foreign = None\<rparr>"

definition primary :: mapped where
  "primary = (mapped_column id_col)\<lparr>m_primary := True\<rparr>"

definition references :: "string \<Rightarrow> string \<Rightarrow> string option \<Rightarrow> mapped" where
  "references c t ondelete = (mapped_column (col c Integer))\<lparr>m_foreign := Some (t, ''id'', ondelete)\<rparr>"

definition plain :: "column list \<Rightarrow> mapped list" where
  "plain cs = map mapped_column cs"

definition table_of :: "model \<Rightarrow> table_def" where
  "table_of m =
     \<lparr>tab_name = mod_table m,
      tab_columns = map m_col (mod_columns m),
      tab_constraints =
        concat (map (\<lambda>c. case m_foreign c of None \<Rightarrow> [] | Some (t, k, od) \<Rightarrow> [ForeignKey (col_name (m_col c)) t k od]) (mod_columns m)) @
        [PrimaryKey (map (\<lambda>c. col_name (m_col c)) (filter m_primary (mod_columns m)))] @
        map (\<lambda>c. Unique None [col_name (m_col c)]) (filter (\<lambda>c. m_unique c \<and> \<not> m_index c) (mod_columns m)) @
        mod_args m,
      tab_options = mod_options m\<rparr>"

definition indexes_of :: "model \<Rightarrow> index_def list" where
  "indexes_of m =
     map (\<lambda>c. index_on (''ix_'' @ mod_table m @ ''_'' @ col_name (m_col c)) (mod_table m) [col_name (m_col c)] (m_unique c))
       (filter m_index (mod_columns m)) @
     map (\<lambda>(n, cs). index_on n (mod_table m) cs False) (mod_indexes m)"

definition user_model :: model where
  "user_model =
     \<lparr>mod_table = ''users'',
      mod_columns =
        [primary\<lparr>m_index := True\<rparr>,
         (mapped_column (col ''email'' (String 255)))\<lparr>m_unique := True, m_index := True\<rparr>,
         (mapped_column (col ''username'' (String 100)))\<lparr>m_unique := True, m_index := True\<rparr>] @
        plain ([col ''full_name'' (String 255), col ''hashed_password'' (String 255),
                (col ''is_active'' Boolean)\<lparr>server_default := Some ''1''\<rparr>] @ stamps),
      mod_args = [], mod_indexes = [],
      mod_options = [(''mysql_engine'', ''InnoDB''), (''mysql_charset'', ''utf8mb4''), (''mysql_collate'', ''utf8mb4_unicode_ci'')]\<rparr>"

definition product_model :: model where
  "product_model =
     \<lparr>mod_table = ''products'',
      mod_columns =
        [primary, mapped_column (col ''name'' (String 255)),
         (mapped_column (col ''sku'' (String 100)))\<lparr>m_unique := True, m_index := True\<rparr>] @ plain stamps,
      mod_args = [], mod_indexes = [], mod_options = []\<rparr>"

definition provider_model :: model where
  "provider_model =
     \<lparr>mod_table = ''inventory_providers'',
      mod_columns =
        [primary, (mapped_column (col ''name'' (String 100)))\<lparr>m_unique := True\<rparr>] @
        plain ([col ''type'' (Enum [''internal'', ''external''] ''providertype''), col ''capabilities'' JSON,
                optional (col ''auth_config'' JSON), optional (col ''base_url'' (String 500)),
                col ''timeout_seconds'' Integer, col ''is_active'' Boolean] @ stamps),
      mod_args = [], mod_indexes = [], mod_options = []\<rparr>"

definition inventory_model :: model where
  "inventory_model =
     \<lparr>mod_table = ''inventory'',
      mod_columns =
        [primary,
         (references ''product_id'' ''products'' (Some ''CASCADE''))\<lparr>m_index := True\<rparr>,
         (references ''provider_id'' ''inventory_providers'' None)\<lparr>m_index := True\<rparr>] @
        plain ([col ''qty_available'' Integer, col ''qty_reserved'' Integer, optional (col ''last_synced_at'' DateTimeTz)] @ stamps),
      mod_args = [Unique (Some ''uq_inventory_product_provider'') [''product_id'', ''provider_id'']],
      mod_indexes = [], mod_options = []\<rparr>"

definition reservation_model :: model where
  "reservation_model =
     \<lparr>mod_table = ''reservations'',
      mod_columns =
        [primary] @
        plain ([col ''user_id'' (String 100),
                col ''status'' (Enum [''pending'', ''confirmed'', ''cancelled'', ''expired''] ''reservationstatus''),
                col ''expires_at'' DateTimeTz] @ stamps),
      mod_args = [],
      mod_indexes = [(''idx_reservations_status_expires'', [''status'', ''expires_at'']), (''idx_reservations_user'', [''user_id''])],
      mod_options = []\<rparr>"

definition item_model :: model where
  "item_model =
     \<lparr>mod_table = ''reservation_items'',
      mod_columns =
        [primary, references ''reservation_id'' ''reservations'' (Some ''CASCADE''), references ''product_id'' ''products'' None,
         references ''inventory_id'' ''inventory'' None, references ''provider_id'' ''inventory_providers'' None] @
        plain ([col ''qty_requested'' Integer, optional (col ''provider_hold_ref'' (String 255)),
                col ''provider_status''
                  (Enum [''pending'', ''held'', ''provider_failed'', ''released'', ''confirmed''] ''provideritemstatus''),
                optional (col ''provider_error_message'' Text)] @ stamps),
      mod_args = [], mod_indexes = [(''idx_ri_reservation'', [''reservation_id''])], mod_options = []\<rparr>"

definition order_model :: model where
  "order_model =
     \<lparr>mod_table = ''orders'',
      mod_columns =
        [primary, (references ''reservation_id'' ''reservations'' None)\<lparr>m_unique := True\<rparr>] @
        plain ([col ''user_id'' (String 100),
                col ''status'' (Enum [''created'', ''fulfilled'', ''failed''] ''orderstatus'')] @ stamps),
      mod_args = [], mod_indexes = [(''idx_orders_user'', [''user_id''])], mod_options = []\<rparr>"

text \<open>In the order of models/__init__.py.\<close>

definition metadata :: "model list" where
  "metadata = [inventory_model, provider_model, order_model, product_model, reservation_model, item_model, user_model]"

text \<open>Tables whose foreign keys lead to tables already placed come next.\<close>

function sorted_tables :: "string list \<Rightarrow> model list \<Rightarrow> model list" where
  "sorted_tables placed ms =
     (let ready = filter (\<lambda>m. set (parents (table_of m)) \<subseteq> set placed \<union> {mod_table m}) ms;
          later = filter (\<lambda>m. \<not> set (parents (table_of m)) \<subseteq> set placed \<union> {mod_table m}) ms in
      if ready = [] then ms
      else ready @ sorted_tables (placed @ map mod_table ready) later)"
  by pat_completeness auto
termination
proof (relation "measure (\<lambda>(placed, ms). length ms)")
  fix placed :: "string list" and ms ready later :: "model list"
  assume ready: "ready = filter (\<lambda>m. set (parents (table_of m)) \<subseteq> set placed \<union> {mod_table m}) ms" "ready \<noteq> []"
    and later: "later = filter (\<lambda>m. \<not> set (parents (table_of m)) \<subseteq> set placed \<union> {mod_table m}) ms"
  then have "length ready + length later = length ms" by (simp only: ready(1) later sum_length_filter_compl)
  moreover have "0 < length ready" using ready(2) by simp
  ultimately have "length later < length ms" by linarith
  then show "((placed @ map mod_table ready, later), (placed, ms)) \<in> measure (\<lambda>(placed, ms). length ms)" by simp
qed simp

declare sorted_tables.simps [simp del]

definition create_model :: "model \<Rightarrow> ddl list" where
  "create_model m = CreateTable (table_of m) # map CreateIndex (indexes_of m)"

definition create_all :: "schema \<Rightarrow> ddl_error option \<times> schema" where
  "create_all s =
     run_ddl (concat (map create_model (filter (\<lambda>m. \<not> has_table s (mod_table m)) (sorted_tables [] metadata)))) s"

definition drop_all :: "schema \<Rightarrow> ddl_error option \<times> schema" where
  "drop_all s =
     run_ddl (map (\<lambda>m. DropTable (mod_table m)) (filter (\<lambda>m. has_table s (mod_table m)) (rev (sorted_tables [] metadata)))) s"

subsection \<open>Undoing a script\<close>

definition schema_ok :: "schema \<Rightarrow> bool" where
  "schema_ok s \<longleftrightarrow>
     (\<forall>t \<in> set (sch_tables s). \<forall>p \<in> set (parents t). has_table s p) \<and>
     (\<forall>i \<in> set (sch_indexes s). has_table s (idx_table i))"

text \<open>What a pair of scripts promises to \<open>alembic downgrade\<close>.\<close>

locale reversible =
  fixes up down :: "ddl list"
  assumes undo: "schema_ok s \<Longrightarrow> run_ddl up s = (None, s') \<Longrightarrow> run_ddl down s' = (None, s)"
    and keeps: "schema_ok s \<Longrightarrow> run_ddl up s = (None, s') \<Longrightarrow> schema_ok s'"
begin

lemma up_again:
  assumes "schema_ok s" and "run_ddl up s = (None, s')"
  shows "run_ddl up (snd (run_ddl down s')) = (None, s')"
  using undo [OF assms] assms(2) by simp

end

lemma has_table_iff: "has_table s n \<longleftrightarrow> n \<in> tab_name ` set (sch_tables s)"
  by (auto simp: has_table_def list_ex_iff)

lemma run_ddl_append:
  "run_ddl (a @ b) s = (case run_ddl a s of (Some x, s') \<Rightarrow> (Some x, s') | (None, s') \<Rightarrow> run_ddl b s')"
  by (induction a arbitrary: s) (auto split: sum.splits option.splits prod.splits)

lemma reversible_Nil: "reversible [] []"
  by unfold_locales simp_all

lemma reversible_append:
  assumes "reversible a a'" and "reversible b b'"
  shows "reversible (a @ b) (b' @ a')"
proof
  fix s s' assume ok: "schema_ok s" and run: "run_ddl (a @ b) s = (None, s')"
  then obtain s1 where a: "run_ddl a s = (None, s1)" and b: "run_ddl b s1 = (None, s')"
    by (auto simp: run_ddl_append split: prod.splits option.splits)
  have ok1: "schema_ok s1" by (rule reversible.keeps [OF assms(1) ok a])
  show "run_ddl (b' @ a') s' = (None, s)"
    using reversible.undo [OF assms(2) ok1 b] reversible.undo [OF assms(1) ok a] by (simp add: run_ddl_append)
  show "schema_ok s'" by (rule reversible.keeps [OF assms(2) ok1 b])
qed

text \<open>A table with its indexes is undone by dropping the table, an index by dropping the index.\<close>

lemma create_indexes:
  assumes "run_ddl (map CreateIndex ixs) s = (None, s')"
  shows "s' = s\<lparr>sch_indexes := sch_indexes s @ ixs\<rparr> \<and> (\<forall>i \<in> set ixs. has_table s (idx_table i))"
  using assms
proof (induction ixs arbitrary: s)
  case Nil
  then show ?case by simp
next
  case (Cons i ixs)
  then have "has_table s (idx_table i)"
    and "run_ddl (map CreateIndex ixs) (s\<lparr>sch_indexes := sch_indexes s @ [i]\<rparr>) = (None, s')"
    by (auto split: if_splits)
  with Cons.IH [OF this(2)] show ?case by (simp add: has_table_def)
qed

lemma reversible_table:
  assumes own: "\<forall>i \<in> set ixs. idx_table i = tab_name t"
  shows "reversible (CreateTable t # map CreateIndex ixs) [DropTable (tab_name t)]"
proof
  fix s s' assume ok: "schema_ok s" and run: "run_ddl (CreateTable t # map CreateIndex ixs) s = (None, s')"
  then have new: "\<not> has_table s (tab_name t)"
    and par: "find (\<lambda>p. p \<noteq> tab_name t \<and> \<not> has_table s p) (parents t) = None"
    and ix: "run_ddl (map CreateIndex ixs) (s\<lparr>sch_tables := sch_tables s @ [t]\<rparr>) = (None, s')"
    by (auto split: if_splits option.splits)
  have s': "s' = s\<lparr>sch_tables := sch_tables s @ [t], sch_indexes := sch_indexes s @ ixs\<rparr>"
    using create_indexes [OF ix] by simp
  have old: "tab_name u \<noteq> tab_name t" if "u \<in> set (sch_tables s)" for u
    using new that unfolding has_table_iff by (metis imageI)
  have "filter (\<lambda>u. tab_name u \<noteq> tab_name t) (sch_tables s) = sch_tables s" using old by (simp add: filter_id_conv)
  moreover have "filter (\<lambda>i. idx_table i \<noteq> tab_name t) (sch_indexes s) = sch_indexes s"
    using ok new by (auto simp: schema_ok_def filter_id_conv)
  moreover have "filter (\<lambda>i. idx_table i \<noteq> tab_name t) ixs = []" using own by (simp add: filter_empty_conv)
  moreover have "\<not> list_ex (\<lambda>u. tab_name u \<noteq> tab_name t \<and> tab_name t \<in> set (parents u)) (sch_tables s')"
    using ok new by (auto simp: schema_ok_def list_ex_iff s')
  moreover have "has_table s' (tab_name t)" by (simp add: has_table_def s')
  ultimately show "run_ddl [DropTable (tab_name t)] s' = (None, s)" by (simp add: s')
  have more: "has_table s' n" if "has_table s n \<or> n = tab_name t" for n using that by (auto simp: has_table_def s')
  have "has_table s p \<or> p = tab_name t" if "p \<in> set (parents t)" for p
    using par that by (auto simp: find_None_iff)
  moreover have "has_table s p" if "u \<in> set (sch_tables s)" "p \<in> set (parents u)" for u p
    using ok that by (simp add: schema_ok_def)
  ultimately have "\<forall>u \<in> set (sch_tables s'). \<forall>p \<in> set (parents u). has_table s' p"
    using more by (auto simp: s')
  moreover have "\<forall>i \<in> set (sch_indexes s'). has_table s' (idx_table i)"
    using ok own more by (auto simp: s' schema_ok_def)
  ultimately show "schema_ok s'" by (simp add: schema_ok_def)
qed

lemma reversible_index: "reversible [CreateIndex i] [DropIndex (idx_name i) (idx_table i)]"
proof
  fix s s' assume ok: "schema_ok s" and run: "run_ddl [CreateIndex i] s = (None, s')"
  then have t: "has_table s (idx_table i)" and s': "s' = s\<lparr>sch_indexes := sch_indexes s @ [i]\<rparr>"
    and new: "\<not> list_ex (same_index (idx_table i) (idx_name i)) (sch_indexes s)"
    by (auto split: if_splits)
  have "filter (\<lambda>j. \<not> same_index (idx_table i) (idx_name i) j) (sch_indexes s) = sch_indexes s"
    using new by (auto simp: filter_id_conv list_ex_iff)
  then show "run_ddl [DropIndex (idx_name i) (idx_table i)] s' = (None, s)"
    using t by (simp add: s' has_table_def same_index_def)
  show "schema_ok s'" using ok t by (auto simp: schema_ok_def s' has_table_def)
qed

text \<open>Both migrations are reversible: each downgrade lists the steps of its upgrade backwards.\<close>

lemma reversible_concat: "list_all2 reversible ups downs \<Longrightarrow> reversible (concat ups) (concat (rev downs))"
  by (induction rule: list_all2_induct) (simp_all add: reversible_Nil reversible_append)

lemma reversible_new_table:
  "tab_name t = n \<Longrightarrow> \<forall>i \<in> set ixs. idx_table i = n \<Longrightarrow> cs = map CreateIndex ixs \<Longrightarrow>
     reversible (CreateTable t # cs) [DropTable n]"
  using reversible_table [of ixs t] by simp

lemma reversible_new_index: "reversible [CreateIndex (index_on n t cs u)] [DropIndex n t]"
  using reversible_index [of "index_on n t cs u"] by (simp add: index_on_def)

interpretation initial: reversible upgrade_0001 downgrade_0001
proof -
  have "list_all2 reversible (map (\<lambda>c. [c]) upgrade_0001) (map (\<lambda>c. [c]) (rev downgrade_0001))"
    by (simp add: upgrade_0001_def downgrade_0001_def reversible_new_index reversible_new_table [where ixs = "[]"]
        m_users_def m_examples_def)
  from reversible_concat [OF this] show "reversible upgrade_0001 downgrade_0001"
    by (simp add: rev_map [symmetric])
qed

interpretation stock_tables: reversible upgrade_53ff downgrade_53ff
proof -
  let ?ups = "[[CreateTable m_providers],
    [CreateTable m_products, CreateIndex (index_on ''ix_products_sku'' ''products'' [''sku''] True)],
    [CreateTable m_reservations,
     CreateIndex (index_on ''idx_reservations_status_expires'' ''reservations'' [''status'', ''expires_at''] False),
     CreateIndex (index_on ''idx_reservations_user'' ''reservations'' [''user_id''] False)],
    [CreateTable m_inventory,
     CreateIndex (index_on ''ix_inventory_product_id'' ''inventory'' [''product_id''] False),
     CreateIndex (index_on ''ix_inventory_provider_id'' ''inventory'' [''provider_id''] False)],
    [CreateTable m_orders, CreateIndex (index_on ''idx_orders_user'' ''orders'' [''user_id''] False)],
    [CreateTable m_reservation_items,
     CreateIndex (index_on ''idx_ri_reservation'' ''reservation_items'' [''reservation_id''] False)]]"
  have one: "reversible [CreateTable t, CreateIndex i] [DropTable n]" if "tab_name t = n" "idx_table i = n" for t i n
    by (rule reversible_new_table [where ixs = "[i]"]) (use that in simp_all)
  have two: "reversible [CreateTable t, CreateIndex i, CreateIndex j] [DropTable n]"
    if "tab_name t = n" "idx_table i = n" "idx_table j = n" for t i j n
    by (rule reversible_new_table [where ixs = "[i, j]"]) (use that in simp_all)
  have "list_all2 reversible ?ups (map (\<lambda>c. [c]) (rev downgrade_53ff))"
    unfolding downgrade_53ff_def
    by (simp add: one two reversible_new_table [where ixs = "[]"] index_on_def
        m_providers_def m_products_def m_reservations_def m_inventory_def m_orders_def m_reservation_items_def)
  from reversible_concat [OF this] show "reversible upgrade_53ff downgrade_53ff"
    by (simp add: rev_map [symmetric] upgrade_53ff_def)
qed

text \<open>A downgrade of the recorded revision takes back what its upgrade has made.\<close>

lemma revision_reversible: "r \<in> set revisions \<Longrightarrow> reversible (rev_upgrade r) (rev_downgrade r)"
  using initial.reversible_axioms stock_tables.reversible_axioms by (auto simp: revisions_def)

lemma revision_found:
  "r \<in> set revisions \<Longrightarrow> find (\<lambda>x. Some (rev_id r) = Some (rev_id x)) revisions = Some r"
  by (auto simp: revisions_def)

subsection \<open>The boot of a development server\<close>

lemma upgrade_blocked:
  assumes "has_table s ''users''"
  shows "upgrade_head None s = (Some (TableExists ''users''), None, s)"
  using assms by (simp add: upgrade_head_def revisions_def upgrade_0001_def m_users_def)

lemma create_all_again:
  assumes "\<And>m. m \<in> set metadata \<Longrightarrow> has_table s (mod_table m)"
  shows "create_all s = (None, s)"
proof -
  have "set (sorted_tables placed ms) \<subseteq> set ms" for placed ms
  proof (induction placed ms rule: sorted_tables.induct)
    case (1 placed ms)
    let ?placeable = "\<lambda>m. set (parents (table_of m)) \<subseteq> set placed \<union> {mod_table m}"
    let ?ready = "filter ?placeable ms" and ?later = "filter (\<lambda>m. \<not> ?placeable m) ms"
    have step: "sorted_tables placed ms =
        (if ?ready = [] then ms else ?ready @ sorted_tables (placed @ map mod_table ?ready) ?later)"
      by (subst sorted_tables.simps) (simp only: Let_def)
    show ?case
    proof (cases "?ready = []")
      case True
      then show ?thesis unfolding step by simp
    next
      case False
      have "set (sorted_tables (placed @ map mod_table ?ready) ?later) \<subseteq> set ?later"
        by (rule 1 [OF refl refl False])
      then have "set (?ready @ sorted_tables (placed @ map mod_table ?ready) ?later) \<subseteq> set ms" by auto
      then show ?thesis unfolding step by (simp only: False if_False)
    qed
  qed
  then have "filter (\<lambda>m. \<not> has_table s (mod_table m)) (sorted_tables [] metadata) = []"
    using assms by (auto simp: filter_empty_conv)
  then show ?thesis by (simp add: create_all_def)
qed

subsection \<open>The two ways to the schema, computed\<close>

text \<open>Names and foreign keys of the tables; with them the scripts run without looking at the columns.\<close>

lemma script_tables [simp]:
  "tab_name m_users = ''users''" "parents m_users = []"
  "tab_name m_examples = ''examples''" "parents m_examples = []"
  "tab_name m_providers = ''inventory_providers''" "parents m_providers = []"
  "tab_name m_products = ''products''" "parents m_products = []"
  "tab_name m_reservations = ''reservations''" "parents m_reservations = []"
  "tab_name m_inventory = ''inventory''" "parents m_inventory = [''products'', ''inventory_providers'']"
  "tab_name m_orders = ''orders''" "parents m_orders = [''reservations'']"
  "tab_name m_reservation_items = ''reservation_items''" "parents m_reservation_items = [''inventory'', ''products'', ''inventory_providers'', ''reservations'']"
  by (simp_all add: m_users_def m_examples_def m_providers_def m_products_def m_reservations_def m_inventory_def
      m_orders_def m_reservation_items_def parents_def)

lemma model_tables [simp]:
  "mod_table user_model = ''users''" "parents (table_of user_model) = []"
  "mod_table product_model = ''products''" "parents (table_of product_model) = []"
  "mod_table provider_model = ''inventory_providers''" "parents (table_of provider_model) = []"
  "mod_table inventory_model = ''inventory''" "parents (table_of inventory_model) = [''products'', ''inventory_providers'']"
  "mod_table reservation_model = ''reservations''" "parents (table_of reservation_model) = []"
  "mod_table item_model = ''reservation_items''" "parents (table_of item_model) = [''reservations'', ''products'', ''inventory'', ''inventory_providers'']"
  "mod_table order_model = ''orders''" "parents (table_of order_model) = [''reservations'']"
  by (simp_all add: user_model_def product_model_def provider_model_def inventory_model_def reservation_model_def
      item_model_def order_model_def parents_def table_of_def primary_def references_def plain_def mapped_column_def
      stamps_def col_def optional_def id_col_def)

lemma table_of_name [simp]: "tab_name (table_of m) = mod_table m"
  by (simp add: table_of_def)

lemma index_on_sel [simp]:
  "idx_name (index_on n t cs u) = n" "idx_table (index_on n t cs u) = t"
  by (simp_all add: index_on_def)

lemma model_indexes:
  "indexes_of user_model = [index_on ''ix_users_id'' ''users'' [''id''] False,
     index_on ''ix_users_email'' ''users'' [''email''] True, index_on ''ix_users_username'' ''users'' [''username''] True]"
  "indexes_of product_model = [index_on ''ix_products_sku'' ''products'' [''sku''] True]"
  "indexes_of provider_model = []"
  "indexes_of inventory_model = [index_on ''ix_inventory_product_id'' ''inventory'' [''product_id''] False,
     index_on ''ix_inventory_provider_id'' ''inventory'' [''provider_id''] False]"
  "indexes_of reservation_model = [index_on ''idx_reservations_status_expires'' ''reservations'' [''status'', ''expires_at''] False,
     index_on ''idx_reservations_user'' ''reservations'' [''user_id''] False]"
  "indexes_of item_model = [index_on ''idx_ri_reservation'' ''reservation_items'' [''reservation_id''] False]"
  "indexes_of order_model = [index_on ''idx_orders_user'' ''orders'' [''user_id''] False]"
  by (simp_all add: user_model_def product_model_def provider_model_def inventory_model_def reservation_model_def
      item_model_def order_model_def indexes_of_def index_on_def primary_def references_def plain_def mapped_column_def
      stamps_def col_def optional_def id_col_def)

lemma scripts_run:
  "upgrade_head None no_schema =
     (None, Some ''53ff60c9f0dd'',
      \<lparr>sch_tables = [m_users, m_examples, m_providers, m_products, m_reservations, m_inventory, m_orders, m_reservation_items],
       sch_indexes =
         indexes_of user_model @ [index_on ''ix_examples_id'' ''examples'' [''id''] False] @ indexes_of product_model @
         indexes_of reservation_model @ indexes_of inventory_model @ indexes_of order_model @ indexes_of item_model\<rparr>)"
  by (simp add: upgrade_head_def revisions_def upgrade_0001_def upgrade_53ff_def no_schema_def has_table_def
      same_index_def model_indexes)

lemma models_sorted:
  "sorted_tables [] metadata =
     [provider_model, product_model, reservation_model, user_model, inventory_model, order_model, item_model]"
  by (simp add: metadata_def sorted_tables.simps [of _ "x # xs" for x xs] sorted_tables.simps [of _ "[]"] Let_def)

lemma metadata_runs:
  "create_all no_schema =
     (None,
      \<lparr>sch_tables = map table_of
         [provider_model, product_model, reservation_model, user_model, inventory_model, order_model, item_model],
       sch_indexes =
         indexes_of product_model @ indexes_of reservation_model @ indexes_of user_model @ indexes_of inventory_model @
         indexes_of order_model @ indexes_of item_model\<rparr>)"
  by (simp add: create_all_def models_sorted create_model_def no_schema_def has_table_def same_index_def model_indexes)

end
