(* ===== verification/Lifespan.thy ===== *)
theory Lifespan
  imports Middleware Migrations Users
begin

section \<open>The life of the process (main.py, the scheduler of workers/expiry_worker.py)\<close>

text \<open>
  The schedulers a process has created, in order, and the module variable that points to the
  last one; starting replaces it, stopping shuts down the one it points to if that is running.
  APScheduler itself, which calls the sweep at every interval, is not modelled.
  The lemmas: one start and one stop leave nothing running; a second start leaves the first
  scheduler running for ever.
\<close>

record scheduler =
  sch_interval :: int
  sch_running :: bool

record process =
  schedulers :: "scheduler list"
  current :: "nat option"
  app_logger :: logger
  db_schema :: schema

definition start_expiry_scheduler :: "int \<Rightarrow> process \<Rightarrow> process" where
  "start_expiry_scheduler interval q =
     q\<lparr>schedulers := schedulers q @ [\<lparr>sch_interval = interval, sch_running = True\<rparr>],
       current := Some (length (schedulers q))\<rparr>"

definition stop_expiry_scheduler :: "process \<Rightarrow> process" where
  "stop_expiry_scheduler q =
     (case current q of
        None \<Rightarrow> q
      | Some i \<Rightarrow>
          if sch_running (schedulers q ! i)
          then q\<lparr>schedulers := (schedulers q)[i := (schedulers q ! i)\<lparr>sch_running := False\<rparr>]\<rparr>
          else q)"

text \<open>
  \<open>lifespan\<close> before and after its \<open>yield\<close>: outside production \<open>create_tables\<close> makes the missing tables,
  and an error of the database there ends the start before a scheduler exists.
\<close>

definition lifespan_startup :: "settings \<Rightarrow> bool \<Rightarrow> process \<Rightarrow> ddl_error option \<times> process" where
  "lifespan_startup s syslog q =
     (let q1 = q\<lparr>app_logger := setup_logging s syslog (app_logger q)\<rparr>;
          (err, sch) = (if \<not> PRODUCTION s then create_all (db_schema q1) else (None, db_schema q1));
          q2 = q1\<lparr>db_schema := sch\<rparr> in
      case err of
        Some x \<Rightarrow> (Some x, q2)
      | None \<Rightarrow> (None, start_expiry_scheduler (EXPIRY_SWEEP_INTERVAL_SECONDS s) q2))"

definition lifespan_shutdown :: "process \<Rightarrow> process" where
  "lifespan_shutdown q = stop_expiry_scheduler q"

text \<open>The documentation URLs of \<open>create_app\<close>, and the health check.\<close>

record app_urls =
  docs_url :: "string option"
  redoc_url :: "string option"
  openapi_url :: "string option"

definition urls_of :: "settings \<Rightarrow> app_urls" where
  "urls_of s =
     \<lparr>docs_url = (if \<not> PRODUCTION s then Some ''/docs'' else None),
      redoc_url = (if \<not> PRODUCTION s then Some ''/redoc'' else None),
      openapi_url = (if \<not> PRODUCTION s then Some ''/openapi.json'' else None)\<rparr>"

record health_data =
  health_status :: string
  health_version :: string
  health_database :: string

definition health :: "settings \<Rightarrow> bool \<Rightarrow> health_data reply" where
  "health s db_ok =
     ok \<lparr>health_status = (if db_ok then ''ok'' else ''degraded''), health_version = APP_VERSION s,
         health_database = (if db_ok then ''up'' else ''down'')\<rparr>"

text \<open>\<open>check_db\<close> asks the database a trivial query; \<open>failure\<close> is what connecting or asking raises.\<close>

definition check_db :: "exn option \<Rightarrow> bool" where
  "check_db failure = (case failure of None \<Rightarrow> True | Some x \<Rightarrow> False)"

definition health_endpoint :: "settings \<Rightarrow> exn option \<Rightarrow> health_data reply" where
  "health_endpoint s failure = health s (check_db failure)"

text \<open>\<open>create_app\<close>: middlewares outermost first (the one that is added last wraps the others).\<close>

datatype middleware =
    CORSMiddleware "string list" bool "string list" "string list"
  | RequestLoggingMiddleware

datatype handled = AppErrors | HTTPExceptions | RequestValidationErrors | AnyException

record app_config =
  app_title :: string
  app_version :: string
  app_docs :: app_urls
  app_middlewares :: "middleware list"
  app_handlers :: "handled list"
  health_in_schema :: bool

definition add_middleware :: "middleware \<Rightarrow> app_config \<Rightarrow> app_config" where
  "add_middleware m a = a\<lparr>app_middlewares := m # app_middlewares a\<rparr>"

definition create_app :: "settings \<Rightarrow> app_config" where
  "create_app s =
     (let a = \<lparr>app_title = APP_NAME s, app_version = APP_VERSION s, app_docs = urls_of s, app_middlewares = [],
                app_handlers = [], health_in_schema = True\<rparr>;
          a = add_middleware (CORSMiddleware (CORS_ORIGINS s) (CORS_ALLOW_CREDENTIALS s) [''*''] [''*'']) a;
          a = add_middleware RequestLoggingMiddleware a
      in a\<lparr>app_handlers := [AppErrors, HTTPExceptions, RequestValidationErrors, AnyException],
           health_in_schema := \<not> PRODUCTION s\<rparr>)"

text \<open>Two of the four CORS settings are never read.\<close>

lemma cors_settings_unread:
  "create_app (s\<lparr>CORS_ALLOW_METHODS := ms, CORS_ALLOW_HEADERS := hs\<rparr>) = create_app s"
  by (simp add: create_app_def urls_of_def)

lemma production_hides_docs:
  "PRODUCTION s \<Longrightarrow> app_docs (create_app s) = \<lparr>docs_url = None, redoc_url = None, openapi_url = None\<rparr> \<and>
     \<not> health_in_schema (create_app s)"
  by (simp add: create_app_def urls_of_def add_middleware_def Let_def)

text \<open>The engine and the sessions of db/session.py: at most \<open>pool_size + max_overflow\<close> connections.\<close>

record engine_options =
  eng_url :: string
  eng_echo :: bool
  eng_future :: bool
  pool_size :: int
  max_overflow :: int
  pool_timeout :: int
  pool_recycle :: int
  pool_pre_ping :: bool

record session_options =
  expire_on_commit :: bool
  autoflush :: bool
  autocommit :: bool

definition engine :: "settings \<Rightarrow> engine_options" where
  "engine s =
     \<lparr>eng_url = DATABASE_URL s, eng_echo = DEBUG s, eng_future = True, pool_size = 10, max_overflow = 20, pool_timeout = 30,
      pool_recycle = 1800, pool_pre_ping = True\<rparr>"

definition AsyncSessionLocal :: session_options where
  "AsyncSessionLocal = \<lparr>expire_on_commit = False, autoflush = False, autocommit = False\<rparr>"

text \<open>What run.py passes to uvicorn.\<close>

record server_options =
  srv_app :: string
  srv_host :: string
  srv_port :: int
  srv_log_level :: string
  srv_proxy_headers :: bool
  srv_forwarded_allow_ips :: string
  srv_reload :: bool
  srv_loop :: string
  srv_workers :: int

definition server_options_of :: "settings \<Rightarrow> server_options" where
  "server_options_of s =
     \<lparr>srv_app = ''main:app'', srv_host = SERVER_LISTEN_IP s, srv_port = SERVER_LISTEN_PORT s,
      srv_log_level = map lower_char (LOG_LEVEL s), srv_proxy_headers = True, srv_forwarded_allow_ips = ''*'',
      srv_reload = (\<not> PRODUCTION s), srv_loop = ''asyncio'', srv_workers = SERVER_WORKERS s\<rparr>"

definition running :: "process \<Rightarrow> scheduler list" where
  "running q = filter sch_running (schedulers q)"

lemma running_start [simp]:
  "running (start_expiry_scheduler n q) = running q @ [\<lparr>sch_interval = n, sch_running = True\<rparr>]"
  by (simp add: running_def start_expiry_scheduler_def)

text \<open>Stopping after a start removes exactly the scheduler that was started last.\<close>

lemma running_start_stop [simp]: "running (stop_expiry_scheduler (start_expiry_scheduler n q)) = running q"
  by (simp add: running_def stop_expiry_scheduler_def start_expiry_scheduler_def)

lemma lifespan_running:
  assumes "running q = []" and start: "lifespan_startup s syslog q = (None, q')"
  shows "running q' = [\<lparr>sch_interval = EXPIRY_SWEEP_INTERVAL_SECONDS s, sch_running = True\<rparr>]"
    and "running (lifespan_shutdown q') = []"
    and "PRODUCTION s \<Longrightarrow> db_schema q' = db_schema q"
proof -
  obtain sch where q': "q' = start_expiry_scheduler (EXPIRY_SWEEP_INTERVAL_SECONDS s)
      (q\<lparr>app_logger := setup_logging s syslog (app_logger q), db_schema := sch\<rparr>)"
    and sch: "PRODUCTION s \<Longrightarrow> sch = db_schema q"
    using start by (auto simp: lifespan_startup_def Let_def split: if_splits prod.splits option.splits)
  have "running (q\<lparr>app_logger := l, db_schema := sch\<rparr>) = []" for l using assms(1) by (simp add: running_def)
  then show "running q' = [\<lparr>sch_interval = EXPIRY_SWEEP_INTERVAL_SECONDS s, sch_running = True\<rparr>]"
    and "running (lifespan_shutdown q') = []"
    by (simp_all add: q' lifespan_shutdown_def)
  show "PRODUCTION s \<Longrightarrow> db_schema q' = db_schema q" by (simp add: q' sch start_expiry_scheduler_def)
qed

text \<open>A start that fails leaves no scheduler; a second start on the same database changes no table.\<close>

lemma failed_startup:
  assumes "lifespan_startup s syslog q = (Some x, q')"
  shows "schedulers q' = schedulers q"
  using assms by (auto simp: lifespan_startup_def Let_def split: if_splits prod.splits option.splits)

lemma second_start_leaks:
  "running (stop_expiry_scheduler (start_expiry_scheduler m (start_expiry_scheduler n q))) =
     running q @ [\<lparr>sch_interval = n, sch_running = True\<rparr>]"
  by simp

end
