(* ===== verification/Book.thy ===== *)
theory Book
  imports System Exact
begin

section \<open>The book: what the reservation system promises\<close>

text \<open>
  The abstract specification of the program, for a reader who does not care about providers,
  holds, items and \<open>qty_reserved\<close>: a book of reservations with a status and the quantity of
  each on every inventory row, and the stock of the rows.  A reservation is opened with
  quantities that the stock covers together with all that is pending, and settled once.
  The lemmas: the abstraction function \<open>book_of\<close> is a simulation; each request of the API is
  at most one step of the book and each sweep a series of expiries.
\<close>

record book =
  bk_status :: "int \<rightharpoonup> reservation_status"
  bk_lines :: "int \<Rightarrow> int \<Rightarrow> int"
  bk_stock :: "int \<rightharpoonup> int"

text \<open>What the pending reservations hold on a row.\<close>

definition bk_held :: "book \<Rightarrow> int \<Rightarrow> int" where
  "bk_held b i = (\<Sum>k | bk_status b k = Some Pending. bk_lines b k i)"

definition bk_settle :: "int \<Rightarrow> reservation_status \<Rightarrow> book \<Rightarrow> book" where
  "bk_settle k s b = b\<lparr>bk_status := (bk_status b)(k \<mapsto> s)\<rparr>"

text \<open>
  A new reservation, a sale (the only step that takes stock away), a cancellation; new stock
  figures from a provider; an expiry.
\<close>

inductive book_step :: "book \<Rightarrow> book \<Rightarrow> bool" where
  bk_open: "bk_status b k = None \<Longrightarrow> (\<And>i. 0 \<le> l i) \<Longrightarrow>
    (\<And>i. 0 < l i \<Longrightarrow> \<exists>s. bk_stock b i = Some s \<and> bk_held b i + l i \<le> s) \<Longrightarrow>
    book_step b (b\<lparr>bk_status := (bk_status b)(k \<mapsto> Pending), bk_lines := (bk_lines b)(k := l)\<rparr>)"
| bk_sell: "bk_status b k = Some Pending \<Longrightarrow>
    book_step b (bk_settle k Confirmed b\<lparr>bk_stock := (\<lambda>i. map_option (\<lambda>s. s - bk_lines b k i) (bk_stock b i))\<rparr>)"
| bk_cancel: "bk_status b k = Some Pending \<Longrightarrow> book_step b (bk_settle k Cancelled b)"

inductive book_restock :: "book \<Rightarrow> book \<Rightarrow> bool" where
  bk_restock: "dom f = dom (bk_stock b) \<Longrightarrow> book_restock b (b\<lparr>bk_stock := f\<rparr>)"

inductive book_expiry :: "book \<Rightarrow> book \<Rightarrow> bool" where
  bk_expire: "bk_status b k = Some Pending \<Longrightarrow> book_expiry b (bk_settle k Expired b)"

definition book_of :: "database \<Rightarrow> book" where
  "book_of d =
     \<lparr>bk_status = (\<lambda>k. map_option res_status (get_reservation d k)),
      bk_lines = (\<lambda>k i. qty_on i (items_of d k)),
      bk_stock = (\<lambda>i. map_option qty_available (get_inventory d i))\<rparr>"

subsection \<open>What the book promises by itself\<close>

definition book_ok :: "book \<Rightarrow> bool" where
  "book_ok b \<longleftrightarrow>
     finite (dom (bk_status b)) \<and> (\<forall>k i. 0 \<le> bk_lines b k i) \<and>
     (\<forall>i s. bk_stock b i = Some s \<longrightarrow> bk_held b i \<le> s)"

lemma pending_settled:
  "bk_status b k = Some Pending \<Longrightarrow> s \<noteq> Pending \<Longrightarrow>
     {j. bk_status (bk_settle k s b) j = Some Pending} = {j. bk_status b j = Some Pending} - {k}"
  by (auto simp: bk_settle_def)

lemma pending_finite: "finite (dom (bk_status b)) \<Longrightarrow> finite {k. bk_status b k = Some Pending}"
  by (rule finite_subset [of _ "dom (bk_status b)"]) auto

lemma held_settled:
  assumes "finite (dom (bk_status b))" and "bk_status b k = Some Pending" and "s \<noteq> Pending"
  shows "bk_held (bk_settle k s b) i = bk_held b i - bk_lines b k i"
  using assms sum_diff1 [OF pending_finite [OF assms(1)], of "\<lambda>k. bk_lines b k i" k]
  by (simp add: bk_held_def pending_settled) (simp add: bk_settle_def)

lemma held_opened:
  assumes "finite (dom (bk_status b))" and "bk_status b k = None"
  shows "bk_held (b\<lparr>bk_status := (bk_status b)(k \<mapsto> Pending), bk_lines := (bk_lines b)(k := l)\<rparr>) i =
    bk_held b i + l i"
proof -
  have "{j. ((bk_status b)(k \<mapsto> Pending)) j = Some Pending} = insert k {j. bk_status b j = Some Pending}" by auto
  moreover have "(\<Sum>j | bk_status b j = Some Pending. ((bk_lines b)(k := l)) j i) =
      (\<Sum>j | bk_status b j = Some Pending. bk_lines b j i)"
    using assms(2) by (intro sum.cong) auto
  ultimately show ?thesis
    using assms pending_finite [OF assms(1)] by (simp add: bk_held_def add.commute)
qed

lemma settled_ok:
  assumes ok: "book_ok b" and k: "bk_status b k = Some Pending" and s: "s \<noteq> Pending"
  shows "book_ok (bk_settle k s b)"
    and "book_ok (bk_settle k s b\<lparr>bk_stock := (\<lambda>i. map_option (\<lambda>s. s - bk_lines b k i) (bk_stock b i))\<rparr>)"
proof -
  have fin: "finite (dom (bk_status b))" and pos: "0 \<le> bk_lines b j i" for j i
    using ok by (simp_all add: book_ok_def)
  have held: "bk_held (bk_settle k s b) i = bk_held b i - bk_lines b k i" for i
    by (rule held_settled [OF fin k s])
  have same: "bk_held (c\<lparr>bk_stock := f\<rparr>) i = bk_held c i" for c f i by (simp add: bk_held_def)
  have other: "finite (dom (bk_status (bk_settle k s b)))" "bk_lines (bk_settle k s b) = bk_lines b"
    "bk_stock (bk_settle k s b) = bk_stock b"
    using fin by (simp_all add: bk_settle_def)
  have le: "bk_held b i \<le> n" if "bk_stock b i = Some n" for i n using ok that by (simp add: book_ok_def)
  have "bk_held b i - bk_lines b k i \<le> n" if "bk_stock b i = Some n" for i n
    using le [OF that] pos [of k i] by linarith
  then show "book_ok (bk_settle k s b)" by (simp add: book_ok_def other pos held)
  have "bk_held b i - bk_lines b k i \<le> n"
    if "map_option (\<lambda>s. s - bk_lines b k i) (bk_stock b i) = Some n" for i n
    using that le by auto
  then show "book_ok (bk_settle k s b\<lparr>bk_stock := (\<lambda>i. map_option (\<lambda>s. s - bk_lines b k i) (bk_stock b i))\<rparr>)"
    by (simp add: book_ok_def other pos held same)
qed

lemma opened_ok:
  assumes ok: "book_ok b" and k: "bk_status b k = None" and l: "\<And>i. 0 \<le> l i"
    and enough: "\<And>i. 0 < l i \<Longrightarrow> \<exists>s. bk_stock b i = Some s \<and> bk_held b i + l i \<le> s"
  shows "book_ok (b\<lparr>bk_status := (bk_status b)(k \<mapsto> Pending), bk_lines := (bk_lines b)(k := l)\<rparr>)"
proof -
  have fin: "finite (dom (bk_status b))" using ok by (simp add: book_ok_def)
  have "bk_held b i + l i \<le> s" if s: "bk_stock b i = Some s" for i s
  proof (cases "0 < l i")
    case True
    with enough s show ?thesis by fastforce
  next
    case False
    then have "l i = 0" using l [of i] by simp
    then show ?thesis using ok s by (simp add: book_ok_def)
  qed
  then show ?thesis using ok l by (simp add: book_ok_def held_opened [OF fin k])
qed

text \<open>As long as nobody restocks, what is pending never exceeds the stock.\<close>

lemma book_step_ok: "book_step b b' \<Longrightarrow> book_ok b \<Longrightarrow> book_ok b'"
  by (induction rule: book_step.induct) (simp_all add: settled_ok opened_ok)

lemma book_expiry_ok: "book_expiry b b' \<Longrightarrow> book_ok b \<Longrightarrow> book_ok b'"
  by (induction rule: book_expiry.induct) (simp add: settled_ok)

subsection \<open>The book of a database\<close>

lemma book_of_sel [simp]:
  "bk_status (book_of d) k = map_option res_status (get_reservation d k)"
  "bk_lines (book_of d) k i = qty_on i (items_of d k)"
  "bk_stock (book_of d) i = map_option qty_available (get_inventory d i)"
  by (simp_all add: book_of_def)

lemma sum_list_by_key:
  fixes g :: "'t \<Rightarrow> int"
  assumes "finite K"
  shows "sum_list (map (\<lambda>t. if key t \<in> K then g t else 0) ts) =
    (\<Sum>k\<in>K. sum_list (map g (filter (\<lambda>t. key t = k) ts)))"
proof (induction ts)
  case Nil
  then show ?case by simp
next
  case (Cons t ts)
  have "(\<Sum>k\<in>K. sum_list (map g (filter (\<lambda>t. key t = k) (t # ts)))) =
      (\<Sum>k\<in>K. (if key t = k then g t else 0) + sum_list (map g (filter (\<lambda>t. key t = k) ts)))"
    by (intro sum.cong) auto
  then show ?case using Cons assms by (simp add: sum.distrib)
qed

text \<open>Under the invariant, what the book calls held is the sum of the live items.\<close>

lemma held_book_of:
  assumes inv: "db_inv d"
  shows "bk_held (book_of d) i = live_sum d i"
proof -
  let ?K = "{k. bk_status (book_of d) k = Some Pending}"
  have K: "k \<in> ?K \<longleftrightarrow> (\<exists>r \<in> set (reservations d). res_id r = k \<and> res_status r = Pending)" for k
    using db_inv_keys [OF inv] find_by_eq_iff [of res_id "reservations d" k]
    by (auto simp: get_reservation_def keys_ok_def)
  have "?K \<subseteq> res_id ` set (reservations d)" unfolding subset_iff K by blast
  then have fin: "finite ?K" by (rule finite_subset) simp
  have "live_qty i t = (if item_reservation_id t \<in> ?K then all_qty i t else 0)"
    if t: "t \<in> set (reservation_items d)" for t
  proof -
    obtain r where r: "r \<in> set (reservations d)" "res_id r = item_reservation_id t"
      using inv t by (auto simp: inv_defs)
    then have "item_fits (res_status r) (provider_status t)" using inv t by (auto simp: inv_defs)
    moreover have "item_reservation_id t \<in> ?K \<longleftrightarrow> res_status r = Pending"
      using K r reservation_unique [OF db_inv_keys [OF inv]] by metis
    ultimately show ?thesis
      by (cases "res_status r") (auto simp: live_qty_def all_qty_def item_done_def)
  qed
  then have "live_sum d i = sum_list (map (\<lambda>t. if item_reservation_id t \<in> ?K then all_qty i t else 0) (reservation_items d))"
    unfolding live_sum_def by (intro arg_cong [where f = sum_list] map_cong) auto
  also have "\<dots> = (\<Sum>k\<in>?K. qty_on i (items_of d k))"
    unfolding sum_list_by_key [OF fin] by (simp add: qty_on_def items_of_def)
  finally show ?thesis by (simp add: bk_held_def)
qed

lemma find_by_map:
  "(\<And>r. key (f r) = key r) \<Longrightarrow> find_by key k (map f rs) = map_option f (find_by key k rs)"
  by (induction rs) auto

lemma get_reservation_close:
  assumes "keys_ok d" and "r \<in> set (reservations d)"
  shows "map_option res_status (get_reservation (close_reservation s f S r d) k) =
    (if k = res_id r then Some S else map_option res_status (get_reservation d k))"
proof -
  have "find_by res_id (res_id r) (reservations d) = Some r"
    using assms by (simp add: keys_ok_def find_by_distinct)
  then show ?thesis
    by (auto simp: get_reservation_def frame_simps find_by_upd_same find_by_upd_other set_status_def)
qed

lemma lines_close:
  assumes "keys_ok d"
  shows "qty_on i (items_of (close_reservation s f S r d) k) = qty_on i (items_of d k)"
  using close_reservation_own_items [OF assms] close_reservation_items_of [OF assms]
  by (cases "k = res_id r") simp_all

lemma book_of_released:
  assumes inv: "db_inv d" and r: "r \<in> set (reservations d)" "res_status r = Pending"
  shows "book_of (close_reservation Released unreserve S r d) = bk_settle (res_id r) S (book_of d)"
proof -
  have "map_option qty_available (get_inventory (close_reservation Released unreserve S r d) i) =
      map_option qty_available (get_inventory d i)" for i
    unfolding get_inventory_def close_reservation_released [OF inv r]
    by (subst find_by_map) (auto simp: option.map_comp comp_def reserve_def)
  then show ?thesis
    by (simp add: book_of_def bk_settle_def fun_eq_iff get_reservation_close [OF db_inv_keys [OF inv] r(1)]
        lines_close [OF db_inv_keys [OF inv]])
qed

lemma book_of_sold:
  assumes inv: "db_inv d" and r: "r \<in> set (reservations d)"
  shows "book_of (close_reservation ItemConfirmed consume S r d) =
    bk_settle (res_id r) S (book_of d)
      \<lparr>bk_stock := (\<lambda>i. map_option (\<lambda>s. s - bk_lines (book_of d) (res_id r) i) (bk_stock (book_of d) i))\<rparr>"
proof -
  have "map_option qty_available (get_inventory (close_reservation ItemConfirmed consume S r d) i) =
      map_option (\<lambda>s. s - qty_on i (items_of d (res_id r))) (map_option qty_available (get_inventory d i))" for i
  proof (cases "get_inventory d i")
    case None
    then show ?thesis
      unfolding get_inventory_def close_reservation_consumed by (subst find_by_map) (auto simp: consume_def)
  next
    case (Some x)
    then have "inv_id x = i" by (auto simp: get_inventory_def dest: find_by_SomeD(2))
    with Some show ?thesis
      unfolding get_inventory_def close_reservation_consumed by (subst find_by_map) (auto simp: consume_def)
  qed
  then show ?thesis
    by (simp add: book_of_def bk_settle_def fun_eq_iff get_reservation_close [OF db_inv_keys [OF inv] r]
        lines_close [OF db_inv_keys [OF inv]])
qed

subsection \<open>Every operation is a step of the book\<close>

lemma book_cong:
  assumes "reservations d' = reservations d" and "reservation_items d' = reservation_items d"
    and "inventories d' = inventories d"
  shows "book_of d' = book_of d"
  using assms by (simp add: book_of_def get_reservation_def get_inventory_def items_of_def)

lemma pending_status:
  "keys_ok d \<Longrightarrow> r \<in> set (reservations d) \<Longrightarrow> bk_status (book_of d) (res_id r) = Some (res_status r)"
  by (simp add: get_reservation_def keys_ok_def find_by_distinct)

lemma cancel_book:
  assumes "cancel e rid w = (Inr u, w')" and inv: "db_inv (db w)"
  shows "book_step\<^sup>=\<^sup>= (book_of (db w)) (book_of (db w'))"
  using assms(1) db_inv_status [OF inv]
proof (cases rule: cancel_cases)
  case (released r)
  then show ?thesis
    using bk_cancel [of "book_of (db w)" "res_id r"] pending_status [OF db_inv_keys [OF inv] released(1)]
    by (simp add: book_of_released [OF inv released(1,3)])
qed simp

lemma confirm_book:
  assumes "confirm e now rid w = (Inr ord, w')" and inv: "db_inv (db w)"
  shows "book_step (book_of (db w)) (book_of (db w'))"
  using assms(1)
proof (rule confirm_InrD)
  fix r
  let ?c = "close_reservation ItemConfirmed consume Confirmed r (db w)"
  assume r: "r \<in> set (reservations (db w))" "res_status r = Pending"
    and add: "add_order (new_order r now) ?c = (Inr ord, db w')"
  have "reservations d' = reservations d \<and> reservation_items d' = reservation_items d \<and>
      inventories d' = inventories d" if "add_order (new_order r now) d = (Inr ord, d')" for d d'
    using that by (auto simp: add_order_def Let_def split: if_splits)
  from this [OF add] have "book_of (db w') = book_of ?c" by (intro book_cong) auto
  then show ?thesis
    using bk_sell [of "book_of (db w)" "res_id r"] pending_status [OF db_inv_keys [OF inv] r(1)] r(2)
    by (simp only: book_of_sold [OF inv r(1)])
qed

lemma sync_book:
  assumes "sync_from_provider e now pid w = (res, w')" and "keys_ok (db w)"
  shows "book_restock (book_of (db w)) (book_of (db w'))"
proof -
  have "synced pid (db w) (db w')" using sync_synced [OF assms(1)] assms(2) by (simp add: keys_ok_def)
  then obtain rs where w': "db w' = (db w)\<lparr>inventories := rs\<rparr>"
    and rs: "list_all2 (restocked pid) (inventories (db w)) rs" by (auto simp: synced_def)
  have "find_by inv_id i ys = None \<longleftrightarrow> find_by inv_id i xs = None" if "list_all2 (restocked pid) xs ys" for i xs ys
    using that by (induction rule: list_all2_induct) (auto simp: restocked_def row_key_def)
  from this [OF rs] have "dom (bk_stock (book_of (db w'))) = dom (bk_stock (book_of (db w)))"
    by (auto simp: dom_def w' get_inventory_def)
  moreover have "book_of (db w') = book_of (db w)\<lparr>bk_stock := bk_stock (book_of (db w'))\<rparr>"
    by (simp add: book_of_def w' get_reservation_def items_of_def)
  ultimately show ?thesis using bk_restock [of "bk_stock (book_of (db w'))" "book_of (db w)"] by simp
qed

text \<open>A new reservation takes no more than the best rows have left beside what is pending.\<close>

lemma booked_effective:
  assumes keys: "keys_ok d" and lm: "locked_ok d its lm" and dist: "distinct (map fst its)"
    and pos: "\<forall>pq \<in> set its. 0 < snd pq" and some: "0 < booked its lm i"
  obtains row where "row \<in> set (inventories d)" and "inv_id row = i" and "booked its lm i \<le> effective row"
proof -
  have "booked xs lm i = 0" if "\<forall>pq \<in> set xs. lm (fst pq) \<noteq> Some i" for xs
    using that by (induction xs) auto
  then obtain pq where pq: "pq \<in> set its" "lm (fst pq) = Some i" using some by fastforce
  then obtain row where row: "row \<in> set (inventories d)" "inv_id row = i" "snd pq \<le> effective row"
    "inv_product_id row = fst pq"
    using lm by (auto simp: locked_ok_def)
  have "booked its lm i \<le> effective row"
  proof (rule booked_le [OF dist, where p = "inv_product_id row"])
    show "0 \<le> effective row" using row(3) pos pq(1) by fastforce
    show "\<forall>x \<in> set its. lm (fst x) = Some i \<longrightarrow> fst x = inv_product_id row \<and> snd x \<le> effective row"
    proof (intro ballI impI)
      fix x assume "x \<in> set its" "lm (fst x) = Some i"
      then obtain row' where row': "row' \<in> set (inventories d)" "inv_id row' = i"
        "inv_product_id row' = fst x" "snd x \<le> effective row'"
        using lm by (auto simp: locked_ok_def)
      then have "row' = row" using keys row by (simp add: keys_ok_def distinct_map inj_on_def)
      then show "fst x = inv_product_id row \<and> snd x \<le> effective row" using row' by simp
    qed
  qed
  with row that show ?thesis by blast
qed

lemma booked_nonneg: "\<forall>pq \<in> set its. 0 < snd pq \<Longrightarrow> 0 \<le> booked its lm i"
  by (induction its) auto

lemma create_book:
  assumes run: "create e now user its w = (Inr r, w')" and inv: "db_inv (db w)"
    and dist: "distinct (map fst its)" and pos: "\<forall>pq \<in> set its. 0 < snd pq"
  shows "book_step (book_of (db w)) (book_of (db w'))"
  using run db_inv_keys [OF inv]
proof (rule create_InrD)
  fix lm ts
  let ?d = "db w" and ?k = "res_id r"
  assume lm: "locked_ok ?d its lm"
    and r: "r = new_reservation user (now + ttl e) now (next_reservation_id ?d)"
    and ts: "list_all2 (created_item ?d (res_id r) lm) its ts"
    and w': "db w' = create_effect r ts its lm ?d"
  have k: "?k = next_reservation_id ?d" and st: "res_status r = Pending"
    by (simp_all add: r new_reservation_def)
  have fresh: "find_by res_id ?k (reservations ?d) = None"
    using db_inv_keys [OF inv] by (auto simp: find_by_None keys_ok_def k)
  have status: "map_option res_status (get_reservation (db w') j) =
      ((bk_status (book_of ?d))(?k \<mapsto> Pending)) j" for j
    using fresh by (auto simp: get_reservation_def w' frame_simps find_by_append st split: option.splits)
  have "items_of (db w') j = items_of ?d j" if "j \<noteq> ?k" for j
  proof -
    have "filter (\<lambda>t. item_reservation_id t = j) ts = []"
      using created_members [OF ts] that by (auto simp: filter_empty_conv created_item_def)
    then show ?thesis by (simp add: items_of_def w' frame_simps)
  qed
  moreover have "items_of (db w') ?k = ts" unfolding w' by (rule created_items_of [OF inv k ts])
  ultimately have lines: "qty_on i (items_of (db w') j) = ((bk_lines (book_of ?d))(?k := booked its lm)) j i" for i j
    by (simp add: created_qty_on [OF ts])
  have stock: "map_option qty_available (get_inventory (db w') i) = bk_stock (book_of ?d) i" for i
    unfolding book_of_sel get_inventory_def w' create_effect_frame
    by (subst find_by_map) (auto simp: option.map_comp comp_def reserve_def)
  have eq: "book_of (db w') = book_of ?d\<lparr>bk_status := (bk_status (book_of ?d))(?k \<mapsto> Pending),
      bk_lines := (bk_lines (book_of ?d))(?k := booked its lm)\<rparr>"
    unfolding book_of_def [of "db w'"] status lines stock by (simp add: book_of_def fun_eq_iff)
  have "\<exists>s. bk_stock (book_of ?d) i = Some s \<and> bk_held (book_of ?d) i + booked its lm i \<le> s"
    if more: "0 < booked its lm i" for i
  proof -
    obtain row where row: "row \<in> set (inventories ?d)" "inv_id row = i" "booked its lm i \<le> effective row"
      by (rule booked_effective [OF db_inv_keys [OF inv] lm dist pos more])
    have "find_by inv_id (inv_id row) (inventories ?d) = Some row"
      using db_inv_keys [OF inv] row(1) by (simp add: keys_ok_def find_by_distinct)
    moreover have "live_sum ?d (inv_id row) \<le> qty_reserved row"
      using core_reserved_ge [OF db_inv_core [OF inv] row(1)] by simp
    ultimately show ?thesis
      using row(2,3) by (simp add: get_inventory_def held_book_of [OF inv] effective_def)
  qed
  moreover have "bk_status (book_of ?d) ?k = None" using fresh by (simp add: get_reservation_def)
  ultimately show ?thesis
    unfolding eq using booked_nonneg [OF pos] by (intro bk_open) auto
qed

lemma expire_rows_book:
  assumes "db_inv d" and "batch_ok d ris"
  shows "book_expiry\<^sup>*\<^sup>* (book_of d) (book_of (fold expire_row ris d))"
  using assms
proof (induction ris arbitrary: d)
  case Nil
  then show ?case by simp
next
  case (Cons ri ris)
  note r = batch_okD(1,2) [OF Cons.prems(2)] and keys = db_inv_keys [OF Cons.prems(1)]
  have "book_expiry (book_of d) (book_of (expire_row ri d))"
    using bk_expire [of "book_of d" "res_id (fst ri)"] pending_status [OF keys r(1)] r(2)
    unfolding expire_row_def book_of_released [OF Cons.prems(1) r] by simp
  moreover have "db_inv (expire_row ri d)"
    unfolding expire_row_def by (rule close_reservation_inv [OF Cons.prems(1) r]) simp
  moreover have "batch_ok (expire_row ri d) ris" by (rule batch_next [OF keys Cons.prems(2)])
  ultimately show ?case
    using Cons.IH [of "expire_row ri d"] by (simp add: converse_rtranclp_into_rtranclp)
qed

lemma rollback_book [simp]: "book_of (rollback d d') = book_of d"
  by (rule book_cong) (simp_all add: frame_simps)

lemma sweep_book:
  assumes "db_inv (db w)"
  shows "book_expiry\<^sup>*\<^sup>* (book_of (db w)) (book_of (db (run_expiry_sweep e now w)))"
proof (cases "expire_batch e now sweep_limit w")
  case (Pair res w1)
  show ?thesis
  proof (cases res)
    case (Inl x)
    then show ?thesis by (simp add: run_expiry_sweep_def Pair)
  next
    case (Inr n)
    then have run: "expire_batch e now sweep_limit w = (Inr n, w1)" using Pair by simp
    have "book_expiry\<^sup>*\<^sup>* (book_of (db w))
        (book_of (fold expire_row (get_expired_pending now (db w) sweep_limit) (db w)))"
      by (rule expire_rows_book [OF assms get_expired_pendingD [OF db_inv_keys [OF assms]]])
    then show ?thesis by (simp add: run_expiry_sweep_def run expire_batch_close(1) [OF run assms])
  qed
qed

lemma serve_book:
  assumes "serve det e now req w = (rep, w')" and inv: "db_inv (db w)"
  shows "book_step\<^sup>=\<^sup>= (book_of (db w)) (book_of (db w')) \<or>
    is_sync req \<and> book_restock (book_of (db w)) (book_of (db w'))"
proof -
  obtain res w1 where run: "dispatch det e now req w = (res, w1)" by (cases "dispatch det e now req w")
  show ?thesis
  proof (cases res)
    case (Inl x)
    then show ?thesis using assms(1) run by (auto simp: serve_def get_db_def)
  next
    case (Inr rep')
    then have w': "w' = w1" using assms(1) run by (auto simp: serve_def get_db_def)
    from run [unfolded Inr] show ?thesis
    proof (cases rule: dispatch_cases)
      case (create user its r)
      then show ?thesis using create_book [OF create(3) inv] valid_create_requestD w' by simp
    next
      case (confirm rid ord)
      then show ?thesis using confirm_book [OF confirm inv] w' by simp
    next
      case (cancel rid)
      then show ?thesis using cancel_book [OF cancel inv] w' by simp
    next
      case (sync pid s)
      then show ?thesis using sync_book [OF sync(2) db_inv_keys [OF inv]] w' by (simp add: is_sync_def)
    qed (simp add: w')
  qed
qed

end
