(* ===== verification/Concurrency.thy ===== *)
theory Concurrency
  imports Book
begin

section \<open>Overlapping requests: sessions of create\<close>

text \<open>
  Several sessions run \<open>create\<close> at the same time.  A session reads the inventory rows of the
  pre-flight check in one snapshot (MySQL's REPEATABLE READ); the rows become instances of its
  identity map.  \<open>SELECT ... FOR UPDATE\<close> waits for the lock of the row; whether it also loads
  the row's committed values into an instance that the session already has is up to SQLAlchemy: as the
  code calls it, without \<open>populate_existing\<close>, the documentation says it does not.  The parameter \<open>refresh\<close>
  leaves it open, and what is proved for both values rests on neither.
  With all its rows locked the session does the rest of \<open>create\<close> and commits: it adds the quantities to its
  instances, inserts the reservation and its items under the next keys of the tables, asks the providers
  for their holds (an internal one books on the instance again), and writes the reserved quantities of its
  instances over the committed rows; a hold that raises rolls it back.  This is one turn: until the commit it
  touches no row of the inventory but those it has locked.
  A schedule is a list of turns; a session that has to wait does nothing in its turn, and \<open>GiveUp\<close> is the
  database ending the wait of a session with an error (the victim of a deadlock, or a lock wait timeout).
\<close>

record call =
  call_time :: int
  call_user :: string
  call_items :: "(int \<times> int) list"

record txn =
  tx_call :: call
  tx_view :: database
  tx_rows :: "int \<rightharpoonup> int"
  tx_todo :: "(int \<times> int) list"
  tx_locked :: "int \<rightharpoonup> int"

datatype session = Waiting call | Locking txn | Booked reservation | Refused exn

record shared =
  committed :: database
  wire :: "http_request list"
  lock_owner :: "int \<Rightarrow> nat option"
  sessions :: "session list"

definition set_session :: "nat \<Rightarrow> session \<Rightarrow> shared \<Rightarrow> shared" where
  "set_session i x s = s\<lparr>sessions := (sessions s)[i := x]\<rparr>"

text \<open>Commit and rollback release every lock of the session.\<close>

definition release :: "nat \<Rightarrow> shared \<Rightarrow> shared" where
  "release i s = s\<lparr>lock_owner := (\<lambda>k. if lock_owner s k = Some i then None else lock_owner s k)\<rparr>"

definition abort :: "nat \<Rightarrow> exn \<Rightarrow> shared \<Rightarrow> shared" where
  "abort i x s = release i (set_session i (Refused x) s)"

definition reread :: "int \<Rightarrow> database \<Rightarrow> database \<Rightarrow> database" where
  "reread k d view =
     (case get_inventory d k of None \<Rightarrow> view | Some r \<Rightarrow> upd_inventory k (\<lambda>_. r) view)"

definition lock_step :: "bool \<Rightarrow> nat \<Rightarrow> txn \<Rightarrow> int \<times> int \<Rightarrow> (int \<times> int) list \<Rightarrow> shared \<Rightarrow> shared" where
  "lock_step refresh i t pq rest s =
     (case tx_rows t (fst pq) of
        None \<Rightarrow> abort i (KeyError (str_int (fst pq))) s
      | Some k \<Rightarrow>
          if lock_owner s k \<noteq> None \<and> lock_owner s k \<noteq> Some i then s
          else
            let view = (if refresh then reread k (committed s) (tx_view t) else tx_view t) in
            case lock_and_recheck view [pq] (tx_rows t) (tx_locked t) of
              Inl x \<Rightarrow> abort i x s
            | Inr locked \<Rightarrow>
                set_session i (Locking (t\<lparr>tx_view := view, tx_todo := rest, tx_locked := locked\<rparr>))
                  (s\<lparr>lock_owner := (lock_owner s)(k \<mapsto> i)\<rparr>))"

text \<open>The database as the session sees it: the rows it has instances of, as it has read them.\<close>

definition has_instance :: "txn \<Rightarrow> int \<Rightarrow> bool" where
  "has_instance t k \<longleftrightarrow> list_ex (\<lambda>pq. tx_locked t (fst pq) = Some k) (call_items (tx_call t))"

definition with_instances :: "txn \<Rightarrow> database \<Rightarrow> database" where
  "with_instances t d =
     d\<lparr>inventories := map (\<lambda>r.
         if has_instance t (inv_id r)
         then (case get_inventory (tx_view t) (inv_id r) of None \<Rightarrow> r | Some x \<Rightarrow> x)
         else r) (inventories d)\<rparr>"

text \<open>
  The commit: what the session inserted, and the UPDATE of its instances, which writes the value of the
  changed column, not a difference.
\<close>

definition write_back :: "txn \<Rightarrow> database \<Rightarrow> database \<Rightarrow> database" where
  "write_back t mine d =
     mine\<lparr>inventories := map (\<lambda>r.
         if has_instance t (inv_id r)
         then (case get_inventory mine (inv_id r) of
                 None \<Rightarrow> r
               | Some x \<Rightarrow> r\<lparr>qty_reserved := qty_reserved x\<rparr>)
         else r) (inventories d)\<rparr>"

definition commit_step :: "env \<Rightarrow> nat \<Rightarrow> txn \<Rightarrow> shared \<Rightarrow> shared" where
  "commit_step e i t s =
     (let its = call_items (tx_call t); now = call_time (tx_call t) in
      case reserve_all its (tx_locked t) (with_instances t (committed s)) of
        Inl x \<Rightarrow> abort i x s
      | Inr d1 \<Rightarrow>
          (let r = new_reservation (call_user (tx_call t)) (now + ttl e) now;
               (rid, d2) = add_reservation r d1 in
           case hold_items e rid (tx_locked t) its \<lparr>db = d2, sent = wire s\<rparr> of
             (Inl x, w) \<Rightarrow> abort i x (s\<lparr>committed := rollback (committed s) (db w), wire := sent w\<rparr>)
           | (Inr _, w) \<Rightarrow>
               release i (set_session i (Booked (r rid))
                 (s\<lparr>committed := write_back t (db w) (committed s), wire := sent w\<rparr>))))"

definition session_step :: "env \<Rightarrow> bool \<Rightarrow> nat \<Rightarrow> shared \<Rightarrow> shared" where
  "session_step e refresh i s =
     (if length (sessions s) \<le> i then s
      else case sessions s ! i of
        Waiting c \<Rightarrow>
          (case preflight (committed s) (call_items c) Map.empty of
             Inl x \<Rightarrow> abort i x s
           | Inr m \<Rightarrow> set_session i (Locking \<lparr>tx_call = c, tx_view = committed s, tx_rows = m,
                        tx_todo = call_items c, tx_locked = Map.empty\<rparr>) s)
      | Locking t \<Rightarrow>
          (case tx_todo t of
             [] \<Rightarrow> commit_step e i t s
           | pq # rest \<Rightarrow> lock_step refresh i t pq rest s)
      | _ \<Rightarrow> s)"

text \<open>Who waits for the lock of whom, and the database that ends a wait.\<close>

definition waits_on :: "shared \<Rightarrow> nat \<Rightarrow> nat option" where
  "waits_on s i =
     (if length (sessions s) \<le> i then None
      else case sessions s ! i of
        Locking t \<Rightarrow>
          (case tx_todo t of
             [] \<Rightarrow> None
           | pq # rest \<Rightarrow>
               (case Option.bind (tx_rows t (fst pq)) (lock_owner s) of
                  None \<Rightarrow> None
                | Some j \<Rightarrow> if j = i then None else Some j))
      | _ \<Rightarrow> None)"

definition give_up :: "nat \<Rightarrow> shared \<Rightarrow> shared" where
  "give_up i s = (if waits_on s i = None then s else abort i (OperationalError ''lock'') s)"

datatype turn = Run nat | GiveUp nat

fun take_turn :: "env \<Rightarrow> bool \<Rightarrow> turn \<Rightarrow> shared \<Rightarrow> shared" where
  "take_turn e refresh (Run i) s = session_step e refresh i s"
| "take_turn e refresh (GiveUp i) s = give_up i s"

definition run_schedule :: "env \<Rightarrow> bool \<Rightarrow> turn list \<Rightarrow> shared \<Rightarrow> shared" where
  "run_schedule e refresh turns s = fold (take_turn e refresh) turns s"

definition open_sessions :: "world \<Rightarrow> call list \<Rightarrow> shared" where
  "open_sessions w calls =
     \<lparr>committed = db w, wire = sent w, lock_owner = Map.empty, sessions = map Waiting calls\<rparr>"

text \<open>The reservations the users of the sessions have been answered with.\<close>

fun answer_of :: "session \<Rightarrow> reservation list" where
  "answer_of (Booked r) = [r]"
| "answer_of _ = []"

definition answers :: "shared \<Rightarrow> reservation list" where
  "answers s = concat (map answer_of (sessions s))"

lemma session_frame [simp]:
  "committed (set_session i x s) = committed s" "lock_owner (set_session i x s) = lock_owner s"
  "wire (set_session i x s) = wire s" "sessions (set_session i x s) = (sessions s)[i := x]"
  "committed (release i s) = committed s" "sessions (release i s) = sessions s" "wire (release i s) = wire s"
  by (simp_all add: set_session_def release_def)

lemma abort_frame [simp]:
  "committed (abort i x s) = committed s" "sessions (abort i x s) = (sessions s)[i := Refused x]"
  "wire (abort i x s) = wire s"
  by (simp_all add: abort_def)

lemma run_schedule_simps [simp]:
  "run_schedule e refresh [] s = s"
  "run_schedule e refresh (x # xs) s = run_schedule e refresh xs (take_turn e refresh x s)"
  "run_schedule e refresh (xs @ ys) s = run_schedule e refresh ys (run_schedule e refresh xs s)"
  by (simp_all add: run_schedule_def)

subsection \<open>Rows with the same keys\<close>

lemma same_keys_row:
  assumes "map row_key xs = map row_key ys" and "x \<in> set xs"
  obtains y where "y \<in> set ys" and "row_key y = row_key x"
proof -
  have "row_key x \<in> row_key ` set ys" using arg_cong [OF assms(1), of set] assms(2) by auto
  then show ?thesis using that by auto
qed

lemma preflight_row:
  assumes m: "preflight d its Map.empty = Inr m" and k: "m p = Some k"
  shows "\<exists>r \<in> set (inventories d). inv_id r = k \<and> inv_product_id r = p"
proof -
  have "p \<in> fst ` set its" using preflight_Inr [OF m] k by fastforce
  then obtain pq row where "pq \<in> set its" "fst pq = p" "get_best_available d p = Some row"
    "m p = Some (inv_id row)"
    using preflight_Inr [OF m] by fastforce
  then show ?thesis using get_best_availableD k by fastforce
qed

lemma booked_zero: "\<not> list_ex (\<lambda>pq. lm (fst pq) = Some k) its \<Longrightarrow> booked its lm k = 0"
  by (induction its) auto

end
