(* ===== verification/Lock_Order.thy ===== *)
theory Lock_Order
  imports Concurrency
begin

section \<open>Waiting for locks: who can still move\<close>

text \<open>
  A session locks the rows of its items in the order of the request.  A session that waits
  for a lock holds those of the items before.  If every request lists its products in ascending order,
  whoever waits for a product waits for a session that is past it, so the waiting cannot be
  circular and every reachable state can be completed.  Nothing in the code sorts the items.
\<close>

fun answered :: "session \<Rightarrow> bool" where
  "answered (Booked r) = True"
| "answered (Refused x) = True"
| "answered _ = False"

definition all_answered :: "shared \<Rightarrow> bool" where
  "all_answered s \<longleftrightarrow> list_all answered (sessions s)"

fun turns_left :: "session \<Rightarrow> nat" where
  "turns_left (Waiting c) = length (call_items c) + 2"
| "turns_left (Locking t) = length (tx_todo t) + 1"
| "turns_left _ = 0"

definition all_turns :: "shared \<Rightarrow> nat" where
  "all_turns s = sum_list (map turns_left (sessions s))"

definition waits_for :: "shared \<Rightarrow> nat \<Rightarrow> int \<Rightarrow> nat \<Rightarrow> bool" where
  "waits_for s i p j \<longleftrightarrow>
     (\<exists>t pq rest k. i < length (sessions s) \<and> sessions s ! i = Locking t \<and> tx_todo t = pq # rest \<and> fst pq = p \<and>
        tx_rows t p = Some k \<and> lock_owner s k = Some j \<and> j \<noteq> i)"

text \<open>A turn answers, moves on, or waits; only a session that waits loses its turn.\<close>

definition close_session :: "nat \<Rightarrow> session \<Rightarrow> database \<Rightarrow> http_request list \<Rightarrow> shared \<Rightarrow> shared" where
  "close_session i x d h s = release i (set_session i x (s\<lparr>committed := d, wire := h\<rparr>))"

lemma abort_close: "abort i x s = close_session i (Refused x) (committed s) (wire s) s"
  by (simp add: abort_def close_session_def)

lemma commit_closes:
  obtains x d h where "commit_step e i t s = close_session i x d h s" and "answered x"
    and "map row_key (inventories d) = map row_key (inventories (committed s))"
proof -
  have rows: "map row_key (inventories (write_back t d c)) = map row_key (inventories c)"
    "inventories (rollback c d) = inventories c" for d c
    by (simp_all add: write_back_def row_key_def frame_simps split: option.split)
  have "\<exists>x d h. commit_step e i t s = close_session i x d h s \<and> answered x \<and>
      map row_key (inventories d) = map row_key (inventories (committed s))"
  proof (cases "reserve_all (call_items (tx_call t)) (tx_locked t) (with_instances t (committed s))")
    case (Inl x)
    then show ?thesis
      by (intro exI [of _ "Refused x"] exI [of _ "committed s"] exI [of _ "wire s"]) (simp add: commit_step_def abort_close Let_def)
  next
    case (Inr d1)
    let ?r = "new_reservation (call_user (tx_call t)) (call_time (tx_call t) + ttl e) (call_time (tx_call t))"
    obtain rid d2 where add: "add_reservation ?r d1 = (rid, d2)" by fastforce
    obtain res w where run: "hold_items e rid (tx_locked t) (call_items (tx_call t)) \<lparr>db = d2, sent = wire s\<rparr> = (res, w)"
      by fastforce
    show ?thesis
    proof (cases res)
      case (Inl x)
      then show ?thesis
        using Inr add run rows(2)
        by (intro exI [of _ "Refused x"] exI [of _ "rollback (committed s) (db w)"] exI [of _ "sent w"])
           (simp add: commit_step_def abort_def close_session_def Let_def)
    next
      case (Inr u)
      then show ?thesis
        using \<open>reserve_all _ _ _ = Inr d1\<close> add run rows(1)
        by (intro exI [of _ "Booked (?r rid)"] exI [of _ "write_back t (db w) (committed s)"] exI [of _ "sent w"])
           (simp add: commit_step_def close_session_def Let_def)
    qed
  qed
  then show ?thesis using that by blast
qed

lemma lock_step_cases:
  obtains (aborted) x where "lock_step refresh i t pq rest s = abort i x s"
  | (locked) k view lm where "tx_rows t (fst pq) = Some k" and "lock_owner s k = None \<or> lock_owner s k = Some i"
      and "lock_step refresh i t pq rest s =
        set_session i (Locking (t\<lparr>tx_view := view, tx_todo := rest, tx_locked := lm\<rparr>)) (s\<lparr>lock_owner := (lock_owner s)(k \<mapsto> i)\<rparr>)"
  | (blocked) k j where "tx_rows t (fst pq) = Some k" and "lock_owner s k = Some j" and "j \<noteq> i"
      and "lock_step refresh i t pq rest s = s"
proof (cases "tx_rows t (fst pq)")
  case None
  then show ?thesis by (intro aborted) (simp add: lock_step_def)
next
  case (Some k)
  show ?thesis
  proof (cases "lock_owner s k = None \<or> lock_owner s k = Some i")
    case free: True
    let ?view = "if refresh then reread k (committed s) (tx_view t) else tx_view t"
    show ?thesis
    proof (cases "lock_and_recheck ?view [pq] (tx_rows t) (tx_locked t)")
      case (Inl x)
      with Some free show ?thesis by (intro aborted [of x]) (auto simp: lock_step_def Let_def)
    next
      case (Inr lm)
      with Some free show ?thesis
        by (intro locked [where view = ?view and lm = lm]) (auto simp: lock_step_def Let_def)
    qed
  next
    case False
    with Some show ?thesis by (auto simp: lock_step_def intro: blocked)
  qed
qed

lemma step_cases:
  assumes i: "i < length (sessions s)" and live: "\<not> answered (sessions s ! i)"
  obtains (closed) x d h where "session_step e refresh i s = close_session i x d h s" and "answered x"
      and "map row_key (inventories d) = map row_key (inventories (committed s))"
  | (started) c m where "sessions s ! i = Waiting c" and "preflight (committed s) (call_items c) Map.empty = Inr m"
      and "session_step e refresh i s = set_session i (Locking \<lparr>tx_call = c, tx_view = committed s, tx_rows = m,
        tx_todo = call_items c, tx_locked = Map.empty\<rparr>) s"
  | (locked) t pq rest k view lm where "sessions s ! i = Locking t" and "tx_todo t = pq # rest"
      and "tx_rows t (fst pq) = Some k" and "lock_owner s k = None \<or> lock_owner s k = Some i"
      and "session_step e refresh i s =
        set_session i (Locking (t\<lparr>tx_view := view, tx_todo := rest, tx_locked := lm\<rparr>)) (s\<lparr>lock_owner := (lock_owner s)(k \<mapsto> i)\<rparr>)"
  | (blocked) p j where "waits_for s i p j" and "session_step e refresh i s = s"
proof (cases "sessions s ! i")
  case (Waiting c)
  then show ?thesis using i closed [of "Refused x" "committed s" "wire s" for x] started
    by (cases "preflight (committed s) (call_items c) Map.empty") (simp_all add: session_step_def abort_close)
next
  case (Locking t)
  show ?thesis
  proof (cases "tx_todo t")
    case Nil
    then have "session_step e refresh i s = commit_step e i t s" using i Locking by (simp add: session_step_def)
    then show ?thesis using commit_closes [of e i t s] closed by metis
  next
    case todo: (Cons pq rest)
    then have step: "session_step e refresh i s = lock_step refresh i t pq rest s"
      using i Locking by (simp add: session_step_def)
    show ?thesis
    proof (cases rule: lock_step_cases [of refresh i t pq rest s])
      case (aborted x)
      with step show ?thesis by (intro closed [of "Refused x" "committed s" "wire s"]) (simp_all add: abort_close)
    next
      case (locked k view lm)
      with step Locking todo show ?thesis by (intro that(3)) simp_all
    next
      case (blocked k j)
      then have "waits_for s i (fst pq) j" using Locking todo i by (cases pq) (simp add: waits_for_def)
      with blocked step show ?thesis by (intro that(4)) simp_all
    qed
  qed
qed (use live in simp_all)

lemma all_turns_set:
  assumes "i < length (sessions s)" and "turns_left x < turns_left (sessions s ! i)"
  shows "all_turns (set_session i x s) < all_turns s"
proof -
  have "sum_list (map turns_left (xs[i := x])) < sum_list (map turns_left xs)"
    if "i < length xs" "turns_left x < turns_left (xs ! i)" for xs
    using that by (induction xs arbitrary: i) (auto split: nat.splits)
  with assms show ?thesis by (simp add: all_turns_def)
qed

lemma all_turns_frame [simp]:
  "all_turns (release i s) = all_turns s" "all_turns (s\<lparr>committed := d, wire := h\<rparr>) = all_turns s"
  "all_turns (s\<lparr>lock_owner := f\<rparr>) = all_turns s"
  by (simp_all add: all_turns_def)

lemma turn_taken:
  assumes i: "i < length (sessions s)" and live: "\<not> answered (sessions s ! i)" and free: "\<nexists>p j. waits_for s i p j"
  shows "all_turns (session_step e refresh i s) < all_turns s"
  using i live
proof (cases rule: step_cases [of _ _ e refresh])
  case (closed x d h)
  have "turns_left x < turns_left (sessions s ! i)"
    using closed(2) live by (cases x; cases "sessions s ! i") simp_all
  then show ?thesis using all_turns_set [of i "s\<lparr>committed := d, wire := h\<rparr>" x] i by (simp add: closed(1) close_session_def)
next
  case (started c m)
  then show ?thesis using all_turns_set [OF i] by simp
next
  case (locked t pq rest k view lm)
  then show ?thesis
    using all_turns_set [of i "s\<lparr>lock_owner := (lock_owner s)(k \<mapsto> i)\<rparr>"] i by simp
qed (use free in blast)

subsection \<open>Requests in ascending order of their products\<close>

definition ascending :: "(int \<times> int) list \<Rightarrow> bool" where
  "ascending its \<longleftrightarrow> sorted_wrt (<) (map fst its)"

definition session_in_order :: "(int \<rightharpoonup> int) \<Rightarrow> session \<Rightarrow> bool" where
  "session_in_order product x =
     (case x of
        Waiting c \<Rightarrow> ascending (call_items c)
      | Locking t \<Rightarrow> ascending (tx_todo t) \<and> (\<forall>p k. tx_rows t p = Some k \<longrightarrow> product k = Some p)
      | _ \<Rightarrow> True)"

definition past :: "int \<Rightarrow> session \<Rightarrow> bool" where
  "past p x = (case x of Locking t \<Rightarrow> \<forall>pq \<in> set (tx_todo t). p < fst pq | _ \<Rightarrow> False)"

text \<open>The owner of a lock is past the product of its row.\<close>

definition in_order :: "(int \<rightharpoonup> int) \<Rightarrow> shared \<Rightarrow> bool" where
  "in_order product s \<longleftrightarrow>
     (\<forall>r \<in> set (inventories (committed s)). product (inv_id r) = Some (inv_product_id r)) \<and>
     (\<forall>i < length (sessions s). session_in_order product (sessions s ! i)) \<and>
     (\<forall>k j. lock_owner s k = Some j \<longrightarrow>
        j < length (sessions s) \<and> (\<exists>p. product k = Some p \<and> past p (sessions s ! j)))"

lemma products_same_keys:
  assumes "map row_key xs = map row_key ys" and "\<forall>r \<in> set ys. product (inv_id r) = Some (inv_product_id r)"
  shows "\<forall>r \<in> set xs. product (inv_id r) = Some (inv_product_id r)"
proof
  fix r assume "r \<in> set xs"
  then obtain y where "y \<in> set ys" "row_key y = row_key r" by (rule same_keys_row [OF assms(1)])
  with assms(2) show "product (inv_id r) = Some (inv_product_id r)" by (auto simp: row_key_def)
qed

lemma in_orderD:
  assumes "in_order product s"
  shows "r \<in> set (inventories (committed s)) \<Longrightarrow> product (inv_id r) = Some (inv_product_id r)"
    and "i < length (sessions s) \<Longrightarrow> session_in_order product (sessions s ! i)"
    and "lock_owner s k = Some i \<Longrightarrow> i < length (sessions s)"
    and "lock_owner s k = Some i \<Longrightarrow> \<exists>p. product k = Some p \<and> past p (sessions s ! i)"
  using assms unfolding in_order_def by simp_all

lemma in_orderI:
  assumes "\<And>r. r \<in> set (inventories (committed s)) \<Longrightarrow> product (inv_id r) = Some (inv_product_id r)"
    and "\<And>i. i < length (sessions s) \<Longrightarrow> session_in_order product (sessions s ! i)"
    and "\<And>k i. lock_owner s k = Some i \<Longrightarrow> i < length (sessions s)"
    and "\<And>k i. lock_owner s k = Some i \<Longrightarrow> \<exists>p. product k = Some p \<and> past p (sessions s ! i)"
  shows "in_order product s"
  using assms unfolding in_order_def by simp

lemma in_order_close:
  assumes ord: "in_order product s" and x: "answered x" and keys: "map row_key (inventories d) = map row_key (inventories (committed s))"
  shows "in_order product (close_session i x d h s)"
proof (rule in_orderI)
  let ?s = "close_session i x d h s"
  have "\<forall>r \<in> set (inventories d). product (inv_id r) = Some (inv_product_id r)"
    using in_orderD(1) [OF ord] by (intro products_same_keys [OF keys]) blast
  then show "product (inv_id r) = Some (inv_product_id r)" if "r \<in> set (inventories (committed ?s))" for r
    using that by (simp add: close_session_def)
  have "session_in_order product x" using x by (cases x) (simp_all add: session_in_order_def)
  then show "session_in_order product (sessions ?s ! j)" if "j < length (sessions ?s)" for j
    using in_orderD(2) [OF ord, of j] that by (cases "j = i") (simp_all add: close_session_def)
  fix k j assume "lock_owner ?s k = Some j"
  then have j: "i \<noteq> j" "lock_owner s k = Some j" by (auto simp: close_session_def release_def split: if_splits)
  show "j < length (sessions ?s)" using in_orderD(3) [OF ord j(2)] by (simp add: close_session_def)
  show "\<exists>p. product k = Some p \<and> past p (sessions ?s ! j)"
    using in_orderD(4) [OF ord j(2)] j(1) by (simp add: close_session_def)
qed

lemma in_order_set:
  assumes ord: "in_order product s" and x: "session_in_order product x" and past: "\<And>p. past p (sessions s ! i) \<Longrightarrow> past p x"
  shows "in_order product (set_session i x s)"
proof (rule in_orderI)
  let ?s = "set_session i x s"
  show "product (inv_id r) = Some (inv_product_id r)" if "r \<in> set (inventories (committed ?s))" for r
    using in_orderD(1) [OF ord] that by simp
  show "session_in_order product (sessions ?s ! j)" if "j < length (sessions ?s)" for j
    using in_orderD(2) [OF ord, of j] that x by (cases "j = i") simp_all
  fix k j assume "lock_owner ?s k = Some j"
  then have j: "lock_owner s k = Some j" by simp
  show "j < length (sessions ?s)" using in_orderD(3) [OF ord j] by simp
  show "\<exists>p. product k = Some p \<and> past p (sessions ?s ! j)"
  proof (cases "i = j")
    case True
    then show ?thesis using in_orderD(3,4) [OF ord j] past by auto
  next
    case False
    then show ?thesis using in_orderD(4) [OF ord j] by simp
  qed
qed

lemma set_session_lock: "set_session i x (s\<lparr>lock_owner := f\<rparr>) = set_session i x s\<lparr>lock_owner := f\<rparr>"
  by (cases s) (simp add: set_session_def)

lemma in_order_lock:
  assumes ord: "in_order product s" and i: "i < length (sessions s)" and k: "product k = Some p" "past p (sessions s ! i)"
  shows "in_order product (s\<lparr>lock_owner := (lock_owner s)(k \<mapsto> i)\<rparr>)"
proof (rule in_orderI)
  fix k' j assume owner: "lock_owner (s\<lparr>lock_owner := (lock_owner s)(k \<mapsto> i)\<rparr>) k' = Some j"
  show "j < length (sessions (s\<lparr>lock_owner := (lock_owner s)(k \<mapsto> i)\<rparr>))"
    and "\<exists>p. product k' = Some p \<and> past p (sessions (s\<lparr>lock_owner := (lock_owner s)(k \<mapsto> i)\<rparr>) ! j)"
    using owner in_orderD(3,4) [OF ord, of k' j] i k by (cases "k' = k"; simp)+
qed (simp_all add: in_orderD(1,2) [OF ord])

lemma in_order_step:
  assumes ord: "in_order product s"
  shows "in_order product (session_step e refresh i s)"
proof (cases "i < length (sessions s) \<and> \<not> answered (sessions s ! i)")
  case True
  then have i: "i < length (sessions s)" and live: "\<not> answered (sessions s ! i)" by simp_all
  from i live show ?thesis
  proof (cases rule: step_cases [of _ _ e refresh])
    case (closed x d h)
    then show ?thesis using in_order_close [OF ord] by simp
  next
    case (started c m)
    have "product k = Some p" if "m p = Some k" for p k
      using preflight_row [OF started(2) that] in_orderD(1) [OF ord] by auto
    moreover have "ascending (call_items c)" using in_orderD(2) [OF ord i] started(1) by (simp add: session_in_order_def)
    ultimately show ?thesis
      unfolding started(3) by (intro in_order_set [OF ord]) (simp_all add: session_in_order_def started(1) past_def)
  next
    case (locked t pq rest k view lm)
    let ?x = "Locking (t\<lparr>tx_view := view, tx_todo := rest, tx_locked := lm\<rparr>)"
    have asc: "ascending (pq # rest)" and rows: "\<forall>p k. tx_rows t p = Some k \<longrightarrow> product k = Some p"
      using in_orderD(2) [OF ord i] by (simp_all add: session_in_order_def locked(1,2))
    have "in_order product (set_session i ?x s)"
      using asc rows by (intro in_order_set [OF ord]) (simp_all add: session_in_order_def ascending_def past_def locked(1,2))
    moreover have "past (fst pq) (sessions (set_session i ?x s) ! i)"
      using asc i by (simp add: past_def ascending_def)
    ultimately have "in_order product (set_session i ?x s\<lparr>lock_owner := (lock_owner (set_session i ?x s))(k \<mapsto> i)\<rparr>)"
      using rows locked(3) i by (intro in_order_lock) simp_all
    then show ?thesis unfolding locked(5) set_session_lock by simp
  qed (use ord in simp)
next
  case False
  then have "session_step e refresh i s = s"
    by (cases "sessions s ! i") (auto simp: session_step_def)
  with ord show ?thesis by simp
qed

lemma in_order_turn: "in_order product s \<Longrightarrow> in_order product (take_turn e refresh x s)"
  by (cases x) (simp_all add: in_order_step give_up_def abort_close in_order_close)

lemma in_order_run: "in_order product s \<Longrightarrow> in_order product (run_schedule e refresh turns s)"
  by (induction turns arbitrary: s) (simp_all add: in_order_turn)

text \<open>Among the sessions that wait, the one that waits for the largest product waits for one that does not.\<close>

lemma someone_moves:
  assumes ord: "in_order product s" and open_s: "\<not> all_answered s"
  obtains i where "i < length (sessions s)" and "\<not> answered (sessions s ! i)" and "\<nexists>p j. waits_for s i p j"
proof (rule ccontr)
  note pick = that
  assume none: "\<not> thesis"
  let ?live = "{i. i < length (sessions s) \<and> \<not> answered (sessions s ! i)}"
  have "\<exists>p j. waits_for s i p j" if live: "i \<in> ?live" for i using pick [of i] none live by blast
  then obtain p where p: "\<And>i. i \<in> ?live \<Longrightarrow> \<exists>j. waits_for s i (p i) j" by metis
  have "?live \<noteq> {}" using open_s by (auto simp: all_answered_def list_all_length)
  then have "Max (p ` ?live) \<in> p ` ?live" by (intro Max_in) auto
  then obtain i where i: "i \<in> ?live" "p i = Max (p ` ?live)" by auto
  then have top: "p j \<le> p i" if "j \<in> ?live" for j using that by simp
  obtain j where "waits_for s i (p i) j" using p [OF i(1)] by blast
  then obtain t k where t: "sessions s ! i = Locking t" "tx_rows t (p i) = Some k" "lock_owner s k = Some j"
    by (auto simp: waits_for_def)
  have "product k = Some (p i)" using in_orderD(2) [OF ord, of i] i(1) t(1,2) by (simp add: session_in_order_def)
  then have j: "j < length (sessions s)" "past (p i) (sessions s ! j)"
    using in_orderD(3,4) [OF ord t(3)] by auto
  then have live: "j \<in> ?live" by (auto simp: past_def split: session.splits)
  then obtain j' where "waits_for s j (p j) j'" using p by blast
  then have "p i < p j" using j(2) by (auto simp: waits_for_def past_def)
  with top [OF live] show False by simp
qed

lemma in_order_finishes:
  "in_order product s \<Longrightarrow> \<exists>js. all_answered (run_schedule e refresh (map Run js) s)"
proof (induction "all_turns s" arbitrary: s rule: less_induct)
  case less
  show ?case
  proof (cases "all_answered s")
    case True
    then have "all_answered (run_schedule e refresh (map Run []) s)" by simp
    then show ?thesis by blast
  next
    case False
    then obtain i where i: "i < length (sessions s)" "\<not> answered (sessions s ! i)" "\<nexists>p j. waits_for s i p j"
      by (rule someone_moves [OF less.prems])
    obtain js where "all_answered (run_schedule e refresh (map Run js) (session_step e refresh i s))"
      using less.hyps [OF turn_taken [OF i] in_order_step [OF less.prems]] by blast
    then have "all_answered (run_schedule e refresh (map Run (i # js)) s)" by simp
    then show ?thesis by blast
  qed
qed

lemma open_sessions_in_order:
  assumes "distinct (map inv_id (inventories (db w)))" and "\<forall>c \<in> set calls. ascending (call_items c)"
  shows "in_order (\<lambda>k. map_option inv_product_id (get_inventory (db w) k)) (open_sessions w calls)"
  using assms by (auto simp: in_order_def open_sessions_def session_in_order_def get_inventory_def find_by_distinct)

end
