(* ===== verification/Separate.thy ===== *)
theory Separate
  imports Concurrency "HOL-Library.Multiset"
begin

section \<open>Overlapping requests for different products\<close>

text \<open>
  Sessions of \<open>create\<close> that ask for different products do not meet: the instances of a session are the
  committed rows until it commits, so its last turn does what \<open>create\<close> does alone on the database of that
  moment, refreshed or not, and no update is lost.  The invariant \<open>apart_ok\<close> says so for every schedule;
  a step of one session is local to it, and for the others it is a change of rows they have not read.
\<close>

subsection \<open>What the phases of create depend on\<close>

definition products_of :: "call \<Rightarrow> int set" where
  "products_of c = fst ` set (call_items c)"

definition rows_for :: "int set \<Rightarrow> database \<Rightarrow> inventory list" where
  "rows_for P d = filter (\<lambda>r. inv_product_id r \<in> P) (inventories d)"

lemma same_best:
  assumes "rows_for P d = rows_for P d'" and "p \<in> P"
  shows "get_best_available d p = get_best_available d' p"
proof -
  have "filter (\<lambda>r. inv_product_id r = p) (inventories x) = filter (\<lambda>r. inv_product_id r = p) (rows_for P x)" for x
    unfolding rows_for_def filter_filter using assms(2) by (intro filter_cong) auto
  then show ?thesis using assms(1) by (simp add: get_best_available_def)
qed

lemma same_row:
  assumes "rows_for P d = rows_for P d'" and "distinct (map inv_id (inventories d'))"
    and "get_inventory d k = Some r" and "inv_product_id r \<in> P"
  shows "get_inventory d' k = Some r"
proof -
  have r: "r \<in> set (inventories d)" "inv_id r = k"
    using assms(3) by (auto simp: get_inventory_def dest: find_by_SomeD)
  then have "r \<in> set (rows_for P d)" using assms(4) by (simp add: rows_for_def)
  then have "r \<in> set (inventories d')" unfolding assms(1) by (simp add: rows_for_def)
  then show ?thesis using r(2) assms(2) by (auto simp: get_inventory_def find_by_distinct)
qed

lemma preflight_cong:
  "(\<And>p. p \<in> fst ` set its \<Longrightarrow> get_best_available d p = get_best_available d' p) \<Longrightarrow>
     preflight d its m = preflight d' its m"
  by (induction its arbitrary: m) (auto split: option.splits)

lemma lock_and_recheck_cong:
  "(\<And>p k. p \<in> fst ` set its \<Longrightarrow> m p = Some k \<Longrightarrow> get_inventory d k = get_inventory d' k) \<Longrightarrow>
     lock_and_recheck d its m lm = lock_and_recheck d' its m lm"
proof (induction its arbitrary: lm)
  case (Cons pq its)
  obtain p q where pq: "pq = (p, q)" by (cases pq)
  have "lock_and_recheck d its m lm' = lock_and_recheck d' its m lm'" for lm'
    by (rule Cons.IH, rule Cons.prems) simp_all
  moreover have "get_inventory d k = get_inventory d' k" if "m p = Some k" for k
    using that pq by (intro Cons.prems) simp_all
  ultimately show ?case by (cases "m p") (simp_all add: pq get_by_id_for_update_def split: option.split)
qed simp

lemma lock_and_recheck_append:
  "lock_and_recheck d (xs @ ys) m lm =
     (case lock_and_recheck d xs m lm of Inl x \<Rightarrow> Inl x | Inr lm' \<Rightarrow> lock_and_recheck d ys m lm')"
  by (induction xs arbitrary: lm) (auto split: option.splits)

lemma lock_and_recheck_rows:
  "lock_and_recheck d its m lm = Inr lm' \<Longrightarrow> lm' p = Some k \<Longrightarrow> lm p = Some k \<or> p \<in> fst ` set its \<and> m p = Some k"
  using lock_and_recheck_Inr [of d its m lm lm'] by (cases "p \<in> fst ` set its") fastforce+

text \<open>What \<open>create\<close> leaves in the rows and the reservations, with the rows that it has locked.\<close>

lemma create_rows:
  assumes run: "create e now user its w = (Inr r, w')" and keys: "keys_ok (db w)"
    and m: "preflight (db w) its Map.empty = Inr m" and lm: "lock_and_recheck (db w) its m Map.empty = Inr lm"
  shows "inventories (db w') =
      map (\<lambda>x. reserve ((1 + row_booking (db w) x) * booked its lm (inv_id x)) x) (inventories (db w)) \<and>
    reservations (db w') = reservations (db w) @ [r]"
proof -
  obtain d1 u where d1: "reserve_all its lm (db w) = Inr d1"
    and loop: "hold_items e (res_id r) lm its (w\<lparr>db := insert_reservation r d1\<rparr>) = (Inr u, w')"
    using run by (auto simp: create_def m lm add_reservation_def Let_def insert_reservation_def new_reservation_def
        split: sum.splits prod.splits)
  note d1_eq = reserve_all_Inr [OF d1]
  let ?d = "insert_reservation r d1"
  have "\<forall>t \<in> set (reservation_items ?d). item_id t < next_item_id ?d" and "distinct (map inv_id (inventories ?d))"
    using keys by (simp_all add: d1_eq insert_reservation_def frame_simps keys_ok_def comp_def)
  with hold_items_Inr [OF loop] obtain ts where
    w': "db w' = append_items ts (reserve_rows (\<lambda>x. row_booking ?d x * booked its lm (inv_id x)) ?d)" by auto
  have "row_booking ?d = row_booking (db w)"
    by (simp add: fun_eq_iff row_booking_def get_provider_def d1_eq insert_reservation_def frame_simps)
  moreover have "row_booking (db w) (reserve n x) = row_booking (db w) x" for n x by (simp add: row_booking_def)
  ultimately show ?thesis
    unfolding w' by (simp add: append_items_def d1_eq insert_reservation_def reserve_rows_def comp_def distrib_right add.commute)
qed

subsection \<open>The transaction of one session\<close>

definition txn_ok :: "call \<Rightarrow> database \<Rightarrow> txn \<Rightarrow> bool" where
  "txn_ok c d t \<longleftrightarrow>
     tx_call t = c \<and> distinct (map inv_id (inventories (tx_view t))) \<and>
     rows_for (products_of c) (tx_view t) = rows_for (products_of c) d \<and>
     preflight (tx_view t) (call_items c) Map.empty = Inr (tx_rows t) \<and>
     (\<exists>xs. call_items c = xs @ tx_todo t \<and> lock_and_recheck (tx_view t) xs (tx_rows t) Map.empty = Inr (tx_locked t))"

definition session_ok :: "call \<Rightarrow> database \<Rightarrow> session \<Rightarrow> bool" where
  "session_ok c d x = (case x of Waiting c' \<Rightarrow> c' = c | Locking t \<Rightarrow> txn_ok c d t | _ \<Rightarrow> True)"

lemma txn_row:
  assumes t: "txn_ok c d t" and dist: "distinct (map inv_id (inventories d))" and k: "tx_rows t p = Some k"
  obtains r where "get_inventory (tx_view t) k = Some r" and "get_inventory d k = Some r"
    and "inv_product_id r = p" and "p \<in> products_of c"
proof -
  have pre: "preflight (tx_view t) (call_items c) Map.empty = Inr (tx_rows t)"
    and view: "distinct (map inv_id (inventories (tx_view t)))" "rows_for (products_of c) (tx_view t) = rows_for (products_of c) d"
    using t by (simp_all add: txn_ok_def)
  obtain r where r: "r \<in> set (inventories (tx_view t))" "inv_id r = k" "inv_product_id r = p"
    using preflight_row [OF pre k] by blast
  have "p \<in> products_of c" using preflight_Inr [OF pre] k by (fastforce simp: products_of_def)
  moreover have "get_inventory (tx_view t) k = Some r" using r view(1) by (auto simp: get_inventory_def find_by_distinct)
  moreover from this have "get_inventory d k = Some r"
    using same_row [OF view(2) dist] r(3) \<open>p \<in> products_of c\<close> by simp
  ultimately show ?thesis using r(3) that by blast
qed

lemma txn_ok_other:
  "txn_ok c d t \<Longrightarrow> rows_for (products_of c) d' = rows_for (products_of c) d \<Longrightarrow> txn_ok c d' t"
  by (simp add: txn_ok_def)

lemma reread_same:
  assumes "distinct (map inv_id (inventories v))" and "get_inventory v k = Some r" and "get_inventory d k = Some r"
  shows "reread k d v = v"
proof -
  have r: "r \<in> set (inventories v)" "inv_id r = k" using assms(2) by (auto simp: get_inventory_def dest: find_by_SomeD)
  have "x = r" if "x \<in> set (inventories v)" "inv_id x = k" for x
    using assms(1) r that by (simp add: distinct_map inj_on_def)
  then have "upd_by inv_id k (\<lambda>_. r) ys = ys" if "set ys \<subseteq> set (inventories v)" for ys
    using that by (induction ys) auto
  then show ?thesis by (simp add: reread_def assms(3) upd_inventory_def)
qed

text \<open>A lock that is granted brings the transaction one item further.\<close>

lemma lock_step_txn:
  assumes t: "txn_ok c (committed s) t" and dist: "distinct (map inv_id (inventories (committed s)))"
    and todo: "tx_todo t = pq # rest"
  obtains (same) "lock_step refresh i t pq rest s = s"
  | (aborted) x where "lock_step refresh i t pq rest s = abort i x s"
  | (locked) t' k where "txn_ok c (committed s) t'"
      and "lock_step refresh i t pq rest s = set_session i (Locking t') (s\<lparr>lock_owner := (lock_owner s)(k \<mapsto> i)\<rparr>)"
proof (cases "tx_rows t (fst pq)")
  case None
  then show ?thesis by (intro aborted) (simp add: lock_step_def)
next
  case (Some k)
  obtain r where r: "get_inventory (tx_view t) k = Some r" "get_inventory (committed s) k = Some r"
    using txn_row [OF t dist Some] by blast
  have "distinct (map inv_id (inventories (tx_view t)))" using t by (simp add: txn_ok_def)
  then have view: "(if refresh then reread k (committed s) (tx_view t) else tx_view t) = tx_view t"
    using reread_same r by simp
  show ?thesis
  proof (cases "lock_owner s k \<noteq> None \<and> lock_owner s k \<noteq> Some i")
    case True
    then show ?thesis using Some by (intro same) (simp add: lock_step_def)
  next
    case free: False
    show ?thesis
    proof (cases "lock_and_recheck (tx_view t) [pq] (tx_rows t) (tx_locked t)")
      case (Inl x)
      then show ?thesis using Some free view by (intro aborted [of x]) (auto simp: lock_step_def Let_def)
    next
      case (Inr lm)
      obtain xs where xs: "call_items c = xs @ tx_todo t"
        "lock_and_recheck (tx_view t) xs (tx_rows t) Map.empty = Inr (tx_locked t)"
        using t by (auto simp: txn_ok_def)
      have "lock_and_recheck (tx_view t) (xs @ [pq]) (tx_rows t) Map.empty = Inr lm"
        using xs(2) Inr by (simp only: lock_and_recheck_append sum.case)
      moreover have "call_items c = (xs @ [pq]) @ rest" using xs(1) todo by simp
      ultimately have "txn_ok c (committed s) (t\<lparr>tx_view := tx_view t, tx_todo := rest, tx_locked := lm\<rparr>)"
        using t [unfolded txn_ok_def] unfolding txn_ok_def
        by (intro conjI exI [of _ "xs @ [pq]"]) simp_all
      then show ?thesis using Some free view Inr by (intro locked) (auto simp: lock_step_def Let_def)
    qed
  qed
qed

subsection \<open>The last turn is create\<close>

lemma finished_txn:
  assumes t: "txn_ok c d t" and dist: "distinct (map inv_id (inventories d))" and todo: "tx_todo t = []"
  shows "preflight d (call_items c) Map.empty = Inr (tx_rows t)"
    and "lock_and_recheck d (call_items c) (tx_rows t) Map.empty = Inr (tx_locked t)"
    and "with_instances t d = d"
    and "has_instance t k \<Longrightarrow> \<exists>r. get_inventory d k = Some r \<and> inv_product_id r \<in> products_of c"
proof -
  have call: "tx_call t = c" and rows: "rows_for (products_of c) (tx_view t) = rows_for (products_of c) d"
    and pre: "preflight (tx_view t) (call_items c) Map.empty = Inr (tx_rows t)"
    and lock: "lock_and_recheck (tx_view t) (call_items c) (tx_rows t) Map.empty = Inr (tx_locked t)"
    using t todo by (auto simp: txn_ok_def)
  have "preflight d (call_items c) Map.empty = preflight (tx_view t) (call_items c) Map.empty"
    using same_best [OF rows] by (intro preflight_cong) (simp add: products_of_def)
  then show "preflight d (call_items c) Map.empty = Inr (tx_rows t)" using pre by simp
  have same: "get_inventory d k = get_inventory (tx_view t) k" if "tx_rows t p = Some k" for p k
    using txn_row [OF t dist that] by metis
  then have "lock_and_recheck d (call_items c) (tx_rows t) Map.empty =
      lock_and_recheck (tx_view t) (call_items c) (tx_rows t) Map.empty" by (intro lock_and_recheck_cong)
  then show "lock_and_recheck d (call_items c) (tx_rows t) Map.empty = Inr (tx_locked t)" using lock by simp
  have instance_row: "\<exists>p. tx_rows t p = Some k" if "has_instance t k" for k
    using that lock_and_recheck_rows [OF lock] by (fastforce simp: has_instance_def list_ex_iff)
  then show "has_instance t k \<Longrightarrow> \<exists>r. get_inventory d k = Some r \<and> inv_product_id r \<in> products_of c"
    using txn_row [OF t dist] by metis
  have "(if has_instance t (inv_id r) then (case get_inventory (tx_view t) (inv_id r) of None \<Rightarrow> r | Some x \<Rightarrow> x) else r) = r"
    if "r \<in> set (inventories d)" for r
  proof -
    have "get_inventory d (inv_id r) = Some r" using that dist by (simp add: get_inventory_def find_by_distinct)
    then show ?thesis using instance_row [of "inv_id r"] same by (metis option.simps(5))
  qed
  then show "with_instances t d = d" unfolding with_instances_def by (simp cong: map_cong)
qed

lemma reserve_zero_unless:
  assumes "\<not> has_instance t k" and "tx_call t = c"
  shows "booked (call_items c) (tx_locked t) k = 0"
  using assms by (intro booked_zero) (simp add: has_instance_def)

lemma write_back_create:
  assumes t: "txn_ok c (db w) t" and keys: "keys_ok (db w)" and todo: "tx_todo t = []"
    and run: "create e now user (call_items c) w = (Inr r, w')"
  shows "write_back t (db w') (db w) = db w'"
proof -
  let ?g = "\<lambda>x. (1 + row_booking (db w) x) * booked (call_items c) (tx_locked t) (inv_id x)"
  have dist: "distinct (map inv_id (inventories (db w)))" using keys by (simp add: keys_ok_def)
  note fin = finished_txn [OF t dist todo]
  have inv: "inventories (db w') = map (\<lambda>x. reserve (?g x) x) (inventories (db w))"
    using create_rows [OF run keys fin(1,2)] by blast
  have "(if has_instance t (inv_id x)
      then (case get_inventory (db w') (inv_id x) of None \<Rightarrow> x | Some y \<Rightarrow> x\<lparr>qty_reserved := qty_reserved y\<rparr>) else x) =
    reserve (?g x) x" if x: "x \<in> set (inventories (db w))" for x
  proof (cases "has_instance t (inv_id x)")
    case True
    have "reserve (?g x) x \<in> set (inventories (db w'))" using x by (simp add: inv)
    moreover have "distinct (map inv_id (inventories (db w')))" using dist by (simp add: inv comp_def)
    ultimately have "get_inventory (db w') (inv_id x) = Some (reserve (?g x) x)"
      using find_by_distinct [of inv_id "inventories (db w')" "reserve (?g x) x"] by (simp add: get_inventory_def)
    then show ?thesis using True by (simp add: reserve_def)
  next
    case False
    then show ?thesis using reserve_zero_unless [OF False] t by (simp add: txn_ok_def)
  qed
  then show ?thesis unfolding write_back_def by (simp cong: map_cong) (simp add: inv [symmetric])
qed

text \<open>The rows of other products stay.\<close>

lemma create_elsewhere:
  assumes t: "txn_ok c (db w) t" and keys: "keys_ok (db w)" and todo: "tx_todo t = []"
    and run: "create e now user (call_items c) w = (Inr r, w')" and P: "P \<inter> products_of c = {}"
  shows "rows_for P (db w') = rows_for P (db w)"
proof -
  let ?f = "\<lambda>x. reserve ((1 + row_booking (db w) x) * booked (call_items c) (tx_locked t) (inv_id x)) x"
  have dist: "distinct (map inv_id (inventories (db w)))" using keys by (simp add: keys_ok_def)
  note fin = finished_txn [OF t dist todo]
  have zero: "?f x = x" if "x \<in> set (inventories (db w))" "inv_product_id x \<in> P" for x
  proof -
    have "get_inventory (db w) (inv_id x) = Some x" using that(1) dist by (simp add: get_inventory_def find_by_distinct)
    then have "\<not> has_instance t (inv_id x)" using fin(4) that(2) P by fastforce
    then show ?thesis using reserve_zero_unless t by (simp add: txn_ok_def)
  qed
  have "filter (\<lambda>r. inv_product_id r \<in> P) (map ?f xs) = filter (\<lambda>r. inv_product_id r \<in> P) xs"
    if "set xs \<subseteq> set (inventories (db w))" for xs
    using that zero by (induction xs) simp_all
  then show ?thesis using create_rows [OF run keys fin(1,2)] by (simp add: rows_for_def)
qed

lemma commit_is_create:
  assumes t: "txn_ok c (committed s) t" and keys: "keys_ok (committed s)" and todo: "tx_todo t = []"
  shows "commit_step e i t s =
    (case create e (call_time c) (call_user c) (call_items c) \<lparr>db = committed s, sent = wire s\<rparr> of
       (Inl x, w) \<Rightarrow> abort i x (s\<lparr>committed := rollback (committed s) (db w), wire := sent w\<rparr>)
     | (Inr r, w) \<Rightarrow> release i (set_session i (Booked r) (s\<lparr>committed := db w, wire := sent w\<rparr>)))"
proof -
  have call: "tx_call t = c" using t by (simp add: txn_ok_def)
  have "distinct (map inv_id (inventories (committed s)))" using keys by (simp add: keys_ok_def)
  note fin = finished_txn [OF t this todo]
  let ?w = "\<lparr>db = committed s, sent = wire s\<rparr>"
  show ?thesis
  proof (cases "create e (call_time c) (call_user c) (call_items c) ?w")
    case (Pair res w)
    show ?thesis
    proof (cases res)
      case (Inl x)
      have "s\<lparr>committed := rollback (committed s) (committed s), wire := wire s\<rparr> = s" by (cases s) (simp add: rollback_def)
      then show ?thesis
        using Pair Inl by (auto simp: commit_step_def create_def call fin Let_def split: sum.splits prod.splits)
    next
      case (Inr r)
      have "write_back t (db w) (committed s) = db w"
        using write_back_create [of c ?w t e] t keys todo Pair Inr by simp
      then show ?thesis
        using Pair Inr by (auto simp: commit_step_def create_def call fin Let_def split: sum.splits prod.splits)
    qed
  qed
qed

subsection \<open>The invariant\<close>

definition separate :: "call list \<Rightarrow> bool" where
  "separate calls \<longleftrightarrow> distinct (concat (map (\<lambda>c. map fst (call_items c)) calls)) \<and>
     (\<forall>c \<in> set calls. \<forall>pq \<in> set (call_items c). 0 < snd pq)"

definition apart_ok :: "(int \<Rightarrow> int) \<Rightarrow> call list \<Rightarrow> database \<Rightarrow> shared \<Rightarrow> bool" where
  "apart_ok stock calls d0 s \<longleftrightarrow>
     stock_inv stock (committed s) \<and> length (sessions s) = length calls \<and>
     (\<forall>i < length calls. session_ok (calls ! i) (committed s) (sessions s ! i)) \<and>
     mset (reservations (committed s)) = mset (reservations d0) + mset (answers s)"

lemma apart_okD:
  assumes "apart_ok stock calls d0 s"
  shows "stock_inv stock (committed s)" and "length (sessions s) = length calls"
    and "i < length calls \<Longrightarrow> session_ok (calls ! i) (committed s) (sessions s ! i)"
    and "mset (reservations (committed s)) = mset (reservations d0) + mset (answers s)"
  using assms by (simp_all add: apart_ok_def)

lemma separateD:
  assumes "separate calls" and "i < length calls"
  shows "distinct (map fst (call_items (calls ! i)))" and "\<forall>pq \<in> set (call_items (calls ! i)). 0 < snd pq"
    and "j < length calls \<Longrightarrow> j \<noteq> i \<Longrightarrow> products_of (calls ! i) \<inter> products_of (calls ! j) = {}"
proof -
  have in_calls: "calls ! i \<in> set calls" using assms(2) by simp
  show "distinct (map fst (call_items (calls ! i)))"
    using assms(1) in_calls by (auto simp: separate_def distinct_concat_iff)
  show "\<forall>pq \<in> set (call_items (calls ! i)). 0 < snd pq" using assms(1) in_calls by (simp add: separate_def)
  have "set (xss ! i) \<inter> set (xss ! j) = {}" if "distinct (concat xss)" "i < length xss" "j < length xss" "i \<noteq> j"
    for xss :: "int list list" and i j
    using that
  proof (induction xss arbitrary: i j)
    case (Cons xs xss)
    have "set xs \<inter> set (xss ! k) = {}" if "k < length xss" for k
      using Cons.prems(1) nth_mem [OF that] by auto
    then show ?case using Cons.IH [of "i - 1" "j - 1"] Cons.prems by (cases i; cases j) (simp_all add: Int_commute)
  qed simp
  from this [of "map (\<lambda>c. map fst (call_items c)) calls" i j]
  show "j < length calls \<Longrightarrow> j \<noteq> i \<Longrightarrow> products_of (calls ! i) \<inter> products_of (calls ! j) = {}"
    using assms by (auto simp: separate_def products_of_def)
qed

lemma answers_set:
  assumes "i < length (sessions s)" and "answer_of (sessions s ! i) = []"
    and "sessions s' = (sessions s)[i := x]"
  shows "mset (answers s') = mset (answers s) + mset (answer_of x)"
proof -
  have "mset (concat (map answer_of (xs[i := x]))) = mset (concat (map answer_of xs)) + mset (answer_of x)"
    if "i < length xs" "answer_of (xs ! i) = []" for xs
    using that by (induction xs arbitrary: i) (auto split: nat.splits)
  then show ?thesis using assms by (simp add: answers_def)
qed

text \<open>What is left to show when the rows of the other sessions' products stay.\<close>

lemma apart_step:
  assumes ok: "apart_ok stock calls d0 s" and i: "i < length calls" and before: "answer_of (sessions s ! i) = []"
    and sess: "sessions s' = (sessions s)[i := x]" and x: "session_ok (calls ! i) (committed s') x"
    and stock: "stock_inv stock (committed s')"
    and others: "\<And>j. j < length calls \<Longrightarrow> j \<noteq> i \<Longrightarrow>
      rows_for (products_of (calls ! j)) (committed s') = rows_for (products_of (calls ! j)) (committed s)"
    and res: "reservations (committed s') = reservations (committed s) @ answer_of x"
  shows "apart_ok stock calls d0 s'"
proof -
  note old = apart_okD [OF ok]
  have "session_ok (calls ! j) (committed s') (sessions s' ! j)" if j: "j < length calls" for j
  proof (cases "j = i")
    case True
    then show ?thesis using x i old(2) by (simp add: sess)
  next
    case False
    have "session_ok (calls ! j) (committed s) (sessions s ! j)" using old(3) [OF j] .
    then show ?thesis
      using False txn_ok_other [OF _ others [OF j False]] by (auto simp: sess session_ok_def split: session.splits)
  qed
  moreover have "mset (answers s') = mset (answers s) + mset (answer_of x)"
    using i old(2) before sess by (intro answers_set) simp_all
  ultimately show ?thesis using old(2,4) stock by (simp add: apart_ok_def sess res)
qed

lemma abort_apart:
  assumes ok: "apart_ok stock calls d0 s" and i: "i < length calls" and before: "answer_of (sessions s ! i) = []"
    and d: "counters_le (committed s) d"
  shows "apart_ok stock calls d0 (abort i x (s\<lparr>committed := rollback (committed s) d, wire := h\<rparr>))"
  using apart_okD(1) [OF ok] d
  by (intro apart_step [OF ok i before, where x = "Refused x"])
     (simp_all add: session_ok_def stock_inv_rollback rows_for_def frame_simps)

lemma abort_apart_same:
  assumes "apart_ok stock calls d0 s" and "i < length calls" and "answer_of (sessions s ! i) = []"
  shows "apart_ok stock calls d0 (abort i x s)"
proof -
  have "s\<lparr>committed := rollback (committed s) (committed s), wire := wire s\<rparr> = s" by (cases s) (simp add: rollback_def)
  then show ?thesis using abort_apart [OF assms, of "committed s" x "wire s"] by (simp add: counters_le_def)
qed

lemma commit_apart:
  assumes ok: "apart_ok stock calls d0 s" and sep: "separate calls" and i: "i < length calls"
    and t: "sessions s ! i = Locking t" "tx_todo t = []"
  shows "apart_ok stock calls d0 (commit_step e i t s)"
proof -
  let ?c = "calls ! i" and ?w = "\<lparr>db = committed s, sent = wire s\<rparr>"
  have inv: "db_inv (committed s)" using apart_okD(1) [OF ok] by (rule stock_inv_db_inv)
  note keys = db_inv_keys [OF inv]
  have txn: "txn_ok ?c (committed s) t" using apart_okD(3) [OF ok i] t(1) by (simp add: session_ok_def)
  have dist: "distinct (map inv_id (inventories (committed s)))" using keys by (simp add: keys_ok_def)
  have before: "answer_of (sessions s ! i) = []" by (simp add: t(1))
  note step = commit_is_create [OF txn keys t(2), of e i]
  obtain res w where run: "create e (call_time ?c) (call_user ?c) (call_items ?c) ?w = (res, w)" by fastforce
  show ?thesis
  proof (cases res)
    case (Inl x)
    have "counters_le (committed s) (db w)"
      using create_counters [of ?w e "call_time ?c" "call_user ?c" "call_items ?c"] run by simp
    then show ?thesis using abort_apart [OF ok i before] by (simp add: step run Inl)
  next
    case (Inr r)
    have made: "create e (call_time ?c) (call_user ?c) (call_items ?c) ?w = (Inr r, w)" using run Inr by simp
    have new: "reservations (db w) = reservations (committed s) @ [r]"
      using create_rows [OF made] keys finished_txn(1,2) [OF txn dist t(2)] by simp
    have apart: "rows_for (products_of (calls ! j)) (db w) = rows_for (products_of (calls ! j)) (committed s)"
      if "j < length calls" "j \<noteq> i" for j
      using create_elsewhere [of ?c ?w t e, OF _ _ t(2) made] txn keys separateD(3) [OF sep i that] by (simp add: Int_commute)
    have "stock_inv stock (db w)"
      using create_stock [OF made] apart_okD(1) [OF ok] separateD(1,2) [OF sep i] by simp
    then show ?thesis
      unfolding step made using new apart
      by (intro apart_step [OF ok i before, where x = "Booked r"]) (simp_all add: session_ok_def)
  qed
qed

lemma session_step_apart:
  assumes ok: "apart_ok stock calls d0 s" and sep: "separate calls"
  shows "apart_ok stock calls d0 (session_step e refresh i s)"
proof (cases "i < length calls")
  case i: True
  have inv: "db_inv (committed s)" using apart_okD(1) [OF ok] by (rule stock_inv_db_inv)
  have dist: "distinct (map inv_id (inventories (committed s)))" using db_inv_keys [OF inv] by (simp add: keys_ok_def)
  have len: "i < length (sessions s)" using i apart_okD(2) [OF ok] by simp
  note mine = apart_okD(3) [OF ok i]
  have move: "apart_ok stock calls d0 (set_session i (Locking t) (s\<lparr>lock_owner := f\<rparr>))"
    if "answer_of (sessions s ! i) = []" "txn_ok (calls ! i) (committed s) t" for t f
    using apart_okD(1) [OF ok] that by (intro apart_step [OF ok i, where x = "Locking t"]) (simp_all add: session_ok_def)
  show ?thesis
  proof (cases "sessions s ! i")
    case (Waiting c)
    then have c: "c = calls ! i" and open_s: "answer_of (sessions s ! i) = []" using mine by (simp_all add: session_ok_def)
    show ?thesis
    proof (cases "preflight (committed s) (call_items c) Map.empty")
      case (Inl x)
      then show ?thesis using abort_apart_same [OF ok i open_s] len Waiting by (simp add: session_step_def)
    next
      case (Inr m)
      then have "txn_ok (calls ! i) (committed s) \<lparr>tx_call = c, tx_view = committed s, tx_rows = m,
          tx_todo = call_items c, tx_locked = Map.empty\<rparr>"
        using c dist by (simp add: txn_ok_def)
      from move [OF open_s this, of "lock_owner s"] show ?thesis using len Waiting Inr by (simp add: session_step_def)
    qed
  next
    case (Locking t)
    have txn: "txn_ok (calls ! i) (committed s) t" using mine Locking by (simp add: session_ok_def)
    show ?thesis
    proof (cases "tx_todo t")
      case Nil
      then show ?thesis using commit_apart [OF ok sep i Locking] len Locking by (simp add: session_step_def)
    next
      case (Cons pq rest)
      have "apart_ok stock calls d0 (lock_step refresh i t pq rest s)"
        using txn dist Cons
        by (rule lock_step_txn [where refresh = refresh and i = i])
           (use ok abort_apart_same [OF ok i] move Locking in simp_all)
      then show ?thesis using len Locking Cons by (simp add: session_step_def)
    qed
  qed (use ok in \<open>simp_all add: session_step_def\<close>)
next
  case False
  then show ?thesis using ok apart_okD(2) [OF ok] by (simp add: session_step_def)
qed

lemma take_turn_apart:
  assumes ok: "apart_ok stock calls d0 s" and sep: "separate calls"
  shows "apart_ok stock calls d0 (take_turn e refresh x s)"
proof (cases x)
  case (Run i)
  then show ?thesis using session_step_apart [OF assms] by simp
next
  case (GiveUp i)
  have "apart_ok stock calls d0 (abort i y s)" if w: "waits_on s i \<noteq> None" for y
  proof (rule abort_apart_same [OF ok])
    show "i < length calls" using w apart_okD(2) [OF ok] by (auto simp: waits_on_def split: if_splits)
    show "answer_of (sessions s ! i) = []"
      using w by (cases "sessions s ! i") (auto simp: waits_on_def split: if_splits)
  qed
  with ok GiveUp show ?thesis by (simp add: give_up_def)
qed

lemma run_schedule_apart:
  "apart_ok stock calls d0 s \<Longrightarrow> separate calls \<Longrightarrow> apart_ok stock calls d0 (run_schedule e refresh turns s)"
  by (induction turns arbitrary: s) (simp_all add: take_turn_apart)

lemma open_sessions_apart:
  assumes "stock_inv stock (db w)"
  shows "apart_ok stock calls (db w) (open_sessions w calls)"
  using assms by (simp add: apart_ok_def open_sessions_def answers_def session_ok_def comp_def)

end
