(* ===== verification/Lock_Properties.thy ===== *)
theory Lock_Properties
  imports Lock_Order Separate Sample
begin

section \<open>Properties of overlapping requests\<close>

text \<open>
  Overlapping calls of \<open>create\<close>: what goes wrong when they share a product, that nothing does when they do
  not, and when the locks of the rows bring them to a standstill.
\<close>

subsection \<open>One row, two requests\<close>

definition row_of :: "int \<Rightarrow> int \<Rightarrow> inventory" where
  "row_of n r = sample_row1\<lparr>qty_available := n, qty_reserved := r\<rparr>"

definition one_row :: "int \<Rightarrow> world" where
  "one_row n = \<lparr>db = shop\<lparr>inventories := [row_of n 0]\<rparr>, sent = []\<rparr>"

text \<open>A network on which every hold is granted, with whatever reference.\<close>

definition grants_holds :: "env \<Rightarrow> bool" where
  "grants_holds e \<longleftrightarrow> (\<forall>h rq. \<exists>r kvs ref. http e h rq = Response r \<and> status_code r \<noteq> 409 \<and>
     status_error r = None \<and> body r = Some (JObj kvs) \<and> map_of kvs ''hold_ref'' = Some ref)"

text \<open>What the two sessions leave between their turns: the row, and the quantities of the live items on it.\<close>

definition leaves :: "int \<Rightarrow> int \<Rightarrow> reservation list \<Rightarrow> int \<Rightarrow> database \<Rightarrow> bool" where
  "leaves n r rs q d \<longleftrightarrow>
     providers d = providers shop \<and> products d = products shop \<and> inventories d = [row_of n r] \<and>
     reservations d = rs \<and> live_sum d 1 = q \<and> (\<forall>t \<in> set (reservation_items d). item_id t < next_item_id d)"

lemma row_of_sel [simp]:
  "inv_id (row_of n r) = 1" "inv_product_id (row_of n r) = 1" "inv_provider_id (row_of n r) = 2"
  "effective (row_of n r) = n - r" "qty_reserved (row_of n r) = r"
  by (simp_all add: row_of_def sample_row1_def effective_def)

lemma reserve_row_of [simp]: "reserve a (row_of n r) = row_of n (r + a)"
  by (simp add: reserve_def row_of_def)

lemma hold_granted:
  assumes e: "grants_holds e" and d: "leaves n r rs q d"
  obtains d' h' where "hold_items e rid [1 \<mapsto> 1] [(1, a)] \<lparr>db = d, sent = h\<rparr> = (Inr (), \<lparr>db = d', sent = h'\<rparr>)"
    and "leaves n r rs (q + a) d'"
proof -
  let ?run = "hold_items e rid [1 \<mapsto> 1] [(1, a)] \<lparr>db = d, sent = h\<rparr>"
  have row: "get_inventory d 1 = Some (row_of n r)" and fresh: "\<forall>t \<in> set (reservation_items d). item_id t < next_item_id d"
    using d by (simp_all add: leaves_def get_inventory_def)
  have "get_product d' 1 = Some \<lparr>prod_id = 1, prod_name = ''P'', sku = ''A''\<rparr>" "get_provider d' 2 = Some warehouse"
    if "products d' = products d" "providers d' = providers d" for d'
    using d that by (simp_all add: leaves_def get_product_def get_provider_def shop_def own_stock_def warehouse_def)
  moreover have "registry_resolve (Some warehouse) (Some 1) = Inr (ExternalAdapter \<lparr>ext_name = ''WH'',
      ext_capabilities = all_capabilities, ext_base_url = ''http://w'', ext_timeout = 5, ext_headers = [(''K'', ''v'')]\<rparr>)"
    and "require_capability \<lparr>ext_name = ''WH'', ext_capabilities = all_capabilities, ext_base_url = ''http://w'',
      ext_timeout = 5, ext_headers = [(''K'', ''v'')]\<rparr> ''hold_stock'' = None" by code_simp+
  moreover have "\<exists>ref w'. ext_hold_stock e x sk a rid w = (Inr ref, w')" if "require_capability x ''hold_stock'' = None"
    for x sk w
  proof -
    obtain r kvs ref where "http e (sent w) (client_request x POST ''/holds'' (Some (hold_body sk a rid))) = Response r"
      "status_code r \<noteq> 409" "status_error r = None" "body r = Some (JObj kvs)" "map_of kvs ''hold_ref'' = Some ref"
      using e unfolding grants_holds_def by blast
    then show ?thesis using that by (simp add: ext_hold_stock_def send_def json_get_def)
  qed
  ultimately have "fst ?run = Inr ()"
    using row by (auto simp: hold_item_def add_item_def hold_stock_def settle_hold_def Let_def split: prod.splits sum.splits)
      (metis Pair_inject sum.distinct(1))+
  then obtain w' where run: "?run = (Inr (), w')" by (cases ?run) auto
  have "distinct (map inv_id (inventories d))" using d by (simp add: leaves_def)
  with hold_items_Inr [OF run] fresh obtain ts where
    ts: "list_all2 (created_item d rid [1 \<mapsto> 1]) [(1, a)] ts" "numbered (next_item_id d) ts"
    and w': "db w' = append_items ts (reserve_rows (\<lambda>x. row_booking d x * booked [(1, a)] [1 \<mapsto> 1] (inv_id x)) d)" by auto
  have "row_booking d (row_of n r) = 0"
    using d by (simp add: leaves_def row_booking_def booking_def get_provider_def shop_def own_stock_def warehouse_def)
  then have "leaves n r rs (q + a) (db w')"
    using d ts fresh by (auto simp: leaves_def w' append_items_def reserve_rows_def live_sum_def list_all2_Cons1 created_item_def
        live_qty_def item_done_def numbered_def)
  then show ?thesis using run that [of "db w'" "sent w'"] by simp
qed

definition fresh_txn :: "int \<Rightarrow> call \<Rightarrow> txn" where
  "fresh_txn n c = \<lparr>tx_call = c, tx_view = db (one_row n), tx_rows = [1 \<mapsto> 1], tx_todo = call_items c, tx_locked = Map.empty\<rparr>"

definition locked_txn :: "int \<Rightarrow> call \<Rightarrow> txn" where
  "locked_txn n c = (fresh_txn n c)\<lparr>tx_todo := [], tx_locked := [1 \<mapsto> 1]\<rparr>"

lemma one_row_sel:
  "get_inventory (db (one_row n)) 1 = Some (row_of n 0)" "get_best_available (db (one_row n)) 1 = Some (row_of n 0)"
  "leaves n 0 [] 0 (db (one_row n))"
  by (simp_all add: one_row_def get_inventory_def get_best_available_def leaves_def shop_def live_sum_def)

lemma one_row_turns:
  assumes "call_items c = [(1, a)]" and "a \<le> n" and i: "i < length (sessions s)"
  shows "sessions s ! i = Waiting c \<Longrightarrow> committed s = db (one_row n) \<Longrightarrow>
      session_step e False i s = set_session i (Locking (fresh_txn n c)) s"
    and "sessions s ! i = Locking (fresh_txn n c) \<Longrightarrow> lock_owner s 1 = None \<Longrightarrow>
      session_step e False i s = set_session i (Locking (locked_txn n c)) (s\<lparr>lock_owner := (lock_owner s)(1 \<mapsto> i)\<rparr>)"
    and "sessions s ! i = Locking (fresh_txn n c) \<Longrightarrow> lock_owner s 1 = Some j \<Longrightarrow> j \<noteq> i \<Longrightarrow>
      session_step e False i s = s"
  using assms
  by (simp_all add: session_step_def one_row_sel fresh_txn_def locked_txn_def lock_step_def get_by_id_for_update_def)

lemma one_row_commit:
  assumes e: "grants_holds e" and c: "call_items c = [(1, a)]" and i: "i < length (sessions s)"
    and x: "sessions s ! i = Locking (locked_txn n c)" and d: "leaves n r rs q (committed s)"
  shows "\<exists>R d h. session_step e refresh i s = release i (set_session i (Booked R) (s\<lparr>committed := d, wire := h\<rparr>)) \<and>
    leaves n a (rs @ [R]) (q + a) d"
proof -
  let ?t = "locked_txn n c" and ?mk = "new_reservation (call_user c) (call_time c + ttl e) (call_time c)"
  have t: "tx_todo ?t = []" "tx_call ?t = c" "tx_locked ?t = [1 \<mapsto> 1]" "tx_view ?t = db (one_row n)"
    by (simp_all add: locked_txn_def fresh_txn_def)
  have inst: "has_instance ?t 1" by (simp add: has_instance_def t c)
  define d1 where "d1 = (committed s)\<lparr>inventories := [row_of n a]\<rparr>"
  have "with_instances ?t (committed s) = (committed s)\<lparr>inventories := [row_of n 0]\<rparr>"
    using d by (simp add: with_instances_def inst t one_row_sel leaves_def)
  then have res: "reserve_all (call_items c) [1 \<mapsto> 1] (with_instances ?t (committed s)) = Inr d1"
    by (simp add: c d1_def upd_inventory_def)
  obtain rid d2 where add: "add_reservation ?mk d1 = (rid, d2)" by fastforce
  have "leaves n a (rs @ [?mk rid]) q d2"
    using d add by (auto simp: add_reservation_def Let_def leaves_def d1_def live_sum_def)
  from hold_granted [OF e this, of rid a "wire s"] obtain d3 h where
    run: "hold_items e rid [1 \<mapsto> 1] [(1, a)] \<lparr>db = d2, sent = wire s\<rparr> = (Inr (), \<lparr>db = d3, sent = h\<rparr>)"
    and d3: "leaves n a (rs @ [?mk rid]) (q + a) d3" by blast
  have "write_back ?t d3 (committed s) = d3\<lparr>inventories := [row_of n a]\<rparr>"
    using d d3 by (simp add: write_back_def inst leaves_def get_inventory_def) (simp add: row_of_def)
  also have "\<dots> = d3" using d3 by (cases d3) (simp add: leaves_def)
  finally have "session_step e refresh i s =
      release i (set_session i (Booked (?mk rid)) (s\<lparr>committed := d3, wire := h\<rparr>))"
    using i x res add run by (simp add: session_step_def commit_step_def t c Let_def)
  then show ?thesis using d3 by blast
qed

text \<open>C4:
  As the code calls FOR UPDATE, without \<open>populate_existing\<close>, the re-check under the lock reads the instance of
  the pre-flight check and the final UPDATE writes an absolute value: two requests that overlap and
  each fit the stock alone are both answered with a reservation, on every network that grants their holds.
  The live items of the row ask for the sum of both quantities, beyond the stock if they do not fit together,
  while the row keeps only the second quantity as reserved.\<close>

theorem stale_instances_oversell:
  assumes "0 < a" and "0 < b" and "a \<le> n" and "b \<le> n" and e: "grants_holds e"
    and c: "call_items c1 = [(1, a)]" "call_items c2 = [(1, b)]"
    and s: "s = run_schedule e False (map Run [0, 1, 0, 1, 0, 1, 1]) (open_sessions (one_row n) [c1, c2])"
  shows "\<exists>r1 r2. sessions s = [Booked r1, Booked r2] \<and> reservations (committed s) = [r1, r2] \<and>
    live_sum (committed s) 1 = a + b \<and>
    map (\<lambda>r. (qty_available r, qty_reserved r)) (inventories (committed s)) = [(n, b)]"
proof -
  let ?a = "fresh_txn n c1" and ?b = "fresh_txn n c2"
  note turn1 = one_row_turns [OF c(1) assms(3)] and turn2 = one_row_turns [OF c(2) assms(4)]
  define s4 where "s4 = run_schedule e False (map Run [0, 1, 0, 1]) (open_sessions (one_row n) [c1, c2])"
  have s4: "s4 = \<lparr>committed = db (one_row n), wire = [], lock_owner = [1 \<mapsto> 0],
      sessions = [Locking (locked_txn n c1), Locking ?b]\<rparr>"
    by (simp add: s4_def open_sessions_def turn1 turn2 set_session_def) (simp add: one_row_def)
  obtain R1 d1 h1 where s5: "session_step e False 0 s4 =
      release 0 (set_session 0 (Booked R1) (s4\<lparr>committed := d1, wire := h1\<rparr>))" and d1: "leaves n a [R1] a d1"
    using one_row_commit [OF e c(1), of 0 s4 n 0 "[]" 0 False] one_row_sel(3) by (auto simp: s4 simp del: row_of_sel)
  define s6 where "s6 = session_step e False 1 (session_step e False 0 s4)"
  have s6: "s6 = \<lparr>committed = d1, wire = h1, lock_owner = [1 \<mapsto> 1], sessions = [Booked R1, Locking (locked_txn n c2)]\<rparr>"
    unfolding s6_def s5 by (simp add: s4 release_def turn2 set_session_def) (auto simp: fun_eq_iff)
  obtain R2 d2 h2 where s7: "session_step e False 1 s6 =
      release 1 (set_session 1 (Booked R2) (s6\<lparr>committed := d2, wire := h2\<rparr>))" and d2: "leaves n b [R1, R2] (a + b) d2"
    using one_row_commit [OF e c(2), of 1 s6 n a "[R1]" a False] d1 by (auto simp: s6)
  have "s = session_step e False 1 s6" by (simp add: s s6_def s4_def)
  then have "s = release 1 (set_session 1 (Booked R2) (s6\<lparr>committed := d2, wire := h2\<rparr>))" using s7 by simp
  then have "sessions s = [Booked R1, Booked R2]" and "committed s = d2" by (simp_all add: s6)
  then show ?thesis using d2 by (simp add: leaves_def row_of_def)
qed

lemma granting_holds: "grants_holds granting"
  by (simp add: grants_holds_def granting_def answering_def)

theorem stale_instances_oversell_witness:
  "let s = run_schedule granting False (map Run [0, 1, 0, 1, 0, 1, 1])
      (open_sessions (one_row 10) [\<lparr>call_time = 0, call_user = ''u'', call_items = [(1, 6)]\<rparr>,
        \<lparr>call_time = 1, call_user = ''v'', call_items = [(1, 6)]\<rparr>]) in
   live_sum (committed s) 1 = 12 \<and> map qty_reserved (inventories (committed s)) = [6]"
  using stale_instances_oversell [of 6 6 10, OF _ _ _ _ granting_holds _ _ refl, of
      "\<lparr>call_time = 0, call_user = ''u'', call_items = [(1, 6)]\<rparr>"
      "\<lparr>call_time = 1, call_user = ''v'', call_items = [(1, 6)]\<rparr>"]
  by (auto simp: Let_def)

text \<open>C5:
  Overlapping requests for positive quantities that name no product twice, neither one of them nor two of them
  together, never oversell and never lose an update, as the code is: for any number of sessions, every schedule of their
  turns, whatever the network answers, whichever wait the database ends and whatever FOR UPDATE loads.  At
  every moment nothing is reserved beyond the stock, the ledger of every row adds up (reserved is what the live
  items ask for, and once more on internal rows), stock plus sales are what they were, and the reservations
  in the table are the old ones and exactly those that users have been answered with.\<close>

theorem separate_requests_never_oversell:
  assumes "stock_inv stock (db w)" and "separate calls"
    and s: "s = run_schedule e refresh turns (open_sessions w calls)"
  shows "(\<forall>r \<in> set (inventories (committed s)). qty_reserved r \<le> qty_available r \<and>
      qty_available r + sold_sum (committed s) (inv_id r) = stock (inv_id r) \<and>
      qty_reserved r = live_sum (committed s) (inv_id r) + row_booking (committed s) r * all_sum (committed s) (inv_id r)) \<and>
    db_inv (committed s) \<and>
    mset (reservations (committed s)) = mset (reservations (db w)) + mset (answers s)"
proof -
  have ok: "apart_ok stock calls (db w) s"
    unfolding s by (rule run_schedule_apart [OF open_sessions_apart [OF assms(1)] assms(2)])
  then show ?thesis
    using apart_okD(1,4) [OF ok]
    by (auto simp: stock_inv_def covered_def conserved_def db_inv_def core_def ledger_def)
qed

theorem separate_requests_never_oversell_witness:
  "let s = run_schedule granting False (map Run [0, 1, 1, 0, 0, 1])
      (open_sessions start_world [\<lparr>call_time = 0, call_user = ''u'', call_items = [(1, 6)]\<rparr>,
        \<lparr>call_time = 1, call_user = ''v'', call_items = [(2, 3)]\<rparr>]) in
   map qty_reserved (inventories (committed s)) = [6, 6] \<and> length (answers s) = 2 \<and>
   mset (reservations (committed s)) = mset (answers s)"
proof -
  let ?calls = "[\<lparr>call_time = 0, call_user = ''u'', call_items = [(1, 6)]\<rparr>,
        \<lparr>call_time = 1, call_user = ''v'', call_items = [(2, 3)]\<rparr>]"
  let ?s = "run_schedule granting False (map Run [0, 1, 1, 0, 0, 1]) (open_sessions start_world ?calls)"
  have "stock_inv sample_stock (db start_world)"
    by (simp add: start_world_def shop_inv stock_inv_def) code_simp
  moreover have "separate ?calls" by (simp add: separate_def)
  ultimately have "mset (reservations (committed ?s)) = mset (reservations (db start_world)) + mset (answers ?s)"
    using separate_requests_never_oversell by blast
  moreover have "reservations (db start_world) = []" by (simp add: start_world_def shop_def)
  moreover have "map qty_reserved (inventories (committed ?s)) = [6, 6] \<and> length (answers ?s) = 2" by code_simp
  ultimately show ?thesis by (simp add: Let_def)
qed

text \<open>C7:
  Whatever has happened so far, overlapping requests that list their products in ascending order can
  all be brought to an answer, without the database ending a wait: no schedule leads into a deadlock.  In
  particular requests for one product never deadlock.\<close>

theorem ascending_requests_finish:
  assumes "distinct (map inv_id (inventories (db w)))" and "\<forall>c \<in> set calls. ascending (call_items c)"
  shows "\<exists>js. all_answered (run_schedule e refresh (turns @ map Run js) (open_sessions w calls))"
  using in_order_finishes [OF in_order_run [OF open_sessions_in_order [OF assms]], of e refresh e refresh turns] by simp

theorem ascending_requests_finish_witness:
  "\<exists>js. all_answered (run_schedule granting False ([Run 0, Run 1, Run 0, Run 1] @ map Run js) (open_sessions start_world
     [\<lparr>call_time = 0, call_user = ''u'', call_items = [(1, 1), (2, 1)]\<rparr>,
      \<lparr>call_time = 1, call_user = ''v'', call_items = [(1, 2), (2, 1)]\<rparr>]))"
  by (rule ascending_requests_finish) (simp_all add: start_world_def shop_def sample_row1_def sample_row2_def ascending_def)

subsection \<open>A deadlock\<close>

text \<open>A session that has locked the row \<open>k\<close> of its first product and wants the row \<open>l\<close> of its second.\<close>

definition halfway :: "database \<Rightarrow> call \<Rightarrow> int \<Rightarrow> int \<Rightarrow> txn" where
  "halfway d c k l =
     (let p = fst (call_items c ! 0); q = fst (call_items c ! 1) in
      \<lparr>tx_call = c, tx_view = d, tx_rows = [p \<mapsto> k, q \<mapsto> l], tx_todo = tl (call_items c), tx_locked = [p \<mapsto> k]\<rparr>)"

definition one_lock :: "database \<Rightarrow> call \<Rightarrow> int \<Rightarrow> int \<Rightarrow> txn" where
  "one_lock d c k l = (halfway d c k l)\<lparr>tx_todo := call_items c, tx_locked := Map.empty\<rparr>"

lemma reread_self:
  "distinct (map inv_id (inventories d)) \<Longrightarrow> reread k d d = d"
  using reread_same [of d k _ d] by (cases "get_inventory d k") (simp_all add: reread_def)

lemma two_rows_turns:
  assumes c: "call_items c = [(p, a), (q, b)]" "p \<noteq> q" and i: "i < length (sessions s)"
    and x: "get_best_available (committed s) p = Some x" "a \<le> effective x"
    and y: "get_best_available (committed s) q = Some y" "b \<le> effective y"
    and dist: "distinct (map inv_id (inventories (committed s)))"
  shows "sessions s ! i = Waiting c \<Longrightarrow>
      session_step e refresh i s = set_session i (Locking (one_lock (committed s) c (inv_id x) (inv_id y))) s"
    and "sessions s ! i = Locking (one_lock (committed s) c (inv_id x) (inv_id y)) \<Longrightarrow> lock_owner s (inv_id x) = None \<Longrightarrow>
      session_step e refresh i s = set_session i (Locking (halfway (committed s) c (inv_id x) (inv_id y)))
        (s\<lparr>lock_owner := (lock_owner s)(inv_id x \<mapsto> i)\<rparr>)"
    and "sessions s ! i = Locking (halfway (committed s) c (inv_id x) (inv_id y)) \<Longrightarrow> lock_owner s (inv_id y) = Some j \<Longrightarrow> j \<noteq> i \<Longrightarrow>
      session_step e refresh i s = s \<and> waits_on s i = Some j"
    and "sessions s ! i = Locking (halfway (committed s) c (inv_id x) (inv_id y)) \<Longrightarrow> lock_owner s (inv_id y) = None \<Longrightarrow>
      \<exists>t f. session_step e refresh i s = set_session i (Locking t) (s\<lparr>lock_owner := f\<rparr>) \<and> tx_todo t = []"
proof -
  have rows: "get_inventory (committed s) (inv_id x) = Some x" "get_inventory (committed s) (inv_id y) = Some y"
    using get_best_availableD(1) [OF x(1)] get_best_availableD(1) [OF y(1)] dist by (auto simp: get_inventory_def find_by_distinct)
  note defs = session_step_def one_lock_def halfway_def lock_step_def get_by_id_for_update_def reread_self [OF dist]
    waits_on_def Let_def
  show "sessions s ! i = Waiting c \<Longrightarrow>
      session_step e refresh i s = set_session i (Locking (one_lock (committed s) c (inv_id x) (inv_id y))) s"
    using c i x y by (simp add: defs)
  show "sessions s ! i = Locking (one_lock (committed s) c (inv_id x) (inv_id y)) \<Longrightarrow> lock_owner s (inv_id x) = None \<Longrightarrow>
      session_step e refresh i s = set_session i (Locking (halfway (committed s) c (inv_id x) (inv_id y)))
        (s\<lparr>lock_owner := (lock_owner s)(inv_id x \<mapsto> i)\<rparr>)"
    using c i x y rows by (simp add: defs)
  show "sessions s ! i = Locking (halfway (committed s) c (inv_id x) (inv_id y)) \<Longrightarrow> lock_owner s (inv_id y) = Some j \<Longrightarrow> j \<noteq> i \<Longrightarrow>
      session_step e refresh i s = s \<and> waits_on s i = Some j"
    using c i by (simp add: defs)
  show "sessions s ! i = Locking (halfway (committed s) c (inv_id x) (inv_id y)) \<Longrightarrow> lock_owner s (inv_id y) = None \<Longrightarrow>
      \<exists>t f. session_step e refresh i s = set_session i (Locking t) (s\<lparr>lock_owner := f\<rparr>) \<and> tx_todo t = []"
    using c i y rows by (simp add: defs) (metis txn.select_convs(4))
qed

lemma last_turn_answers:
  assumes "i < length (sessions s)" and "sessions s ! i = Locking t" and "tx_todo t = []"
  shows "\<exists>x. sessions (session_step e refresh i s) = (sessions s)[i := x] \<and> answered x"
proof -
  have "session_step e refresh i s = commit_step e i t s" using assms by (simp add: session_step_def)
  then show ?thesis using commit_closes [of e i t s] by (metis close_session_def session_frame(4,6) shared.select_convs(4) shared.update_convs(1,2) shared.surjective)
qed

lemma freed_answers:
  assumes "\<exists>t f. session_step e refresh i s = set_session i (Locking t) (s\<lparr>lock_owner := f\<rparr>) \<and> tx_todo t = []"
    and i: "i < length (sessions s)"
  shows "\<exists>z. sessions (session_step e refresh i (session_step e refresh i s)) = (sessions s)[i := z] \<and> answered z"
proof -
  obtain t where "sessions (session_step e refresh i s) = (sessions s)[i := Locking t]" "tx_todo t = []"
    using assms(1) by auto
  then show ?thesis using i last_turn_answers [of i "session_step e refresh i s" t e refresh] by simp
qed

lemma stuck_run: "(\<And>i. session_step e refresh i s = s) \<Longrightarrow> run_schedule e refresh (map Run js) s = s"
  by (induction js) simp_all

text \<open>The state in which two sessions, each with the lock of one row, want the row of the other.\<close>

definition crossed :: "world \<Rightarrow> call \<Rightarrow> call \<Rightarrow> int \<Rightarrow> int \<Rightarrow> shared" where
  "crossed w c1 c2 k l =
     \<lparr>committed = db w, wire = sent w, lock_owner = [k \<mapsto> 0, l \<mapsto> 1],
      sessions = [Locking (halfway (db w) c1 k l), Locking (halfway (db w) c2 l k)]\<rparr>"

lemma crossed_freed:
  assumes v: "v < 2" and kl: "k \<noteq> l"
    and waits: "waits_on (crossed w c1 c2 k l) 0 = Some 1" "waits_on (crossed w c1 c2 k l) 1 = Some 0"
    and free1: "\<And>s. sessions s ! 0 = Locking (halfway (db w) c1 k l) \<Longrightarrow> committed s = db w \<Longrightarrow> 0 < length (sessions s) \<Longrightarrow>
      lock_owner s l = None \<Longrightarrow> \<exists>t f. session_step e refresh 0 s = set_session 0 (Locking t) (s\<lparr>lock_owner := f\<rparr>) \<and> tx_todo t = []"
    and free2: "\<And>s. sessions s ! 1 = Locking (halfway (db w) c2 l k) \<Longrightarrow> committed s = db w \<Longrightarrow> 1 < length (sessions s) \<Longrightarrow>
      lock_owner s k = None \<Longrightarrow> \<exists>t f. session_step e refresh 1 s = set_session 1 (Locking t) (s\<lparr>lock_owner := f\<rparr>) \<and> tx_todo t = []"
  shows "sessions (give_up v (crossed w c1 c2 k l)) ! v = Refused (OperationalError ''lock'') \<and>
    all_answered (run_schedule e refresh [GiveUp v, Run (1 - v), Run (1 - v)] (crossed w c1 c2 k l))"
proof -
  let ?t = "give_up v (crossed w c1 c2 k l)"
  have t: "sessions ?t = [Locking (halfway (db w) c1 k l), Locking (halfway (db w) c2 l k)][v := Refused (OperationalError ''lock'')]"
    "committed ?t = db w" "lock_owner ?t k = (if v = 0 then None else Some 0)" "lock_owner ?t l = (if v = 0 then Some 1 else None)"
    using v waits kl by (auto simp: give_up_def abort_def release_def crossed_def less_2_cases_iff)
  have "v = 0 \<or> v = 1" using v by linarith
  then have "\<exists>t' f. session_step e refresh (1 - v) ?t = set_session (1 - v) (Locking t') (?t\<lparr>lock_owner := f\<rparr>) \<and> tx_todo t' = []"
    using free1 [of ?t] free2 [of ?t] t by auto
  moreover have "1 - v < length (sessions ?t)" unfolding t(1) length_list_update by simp
  ultimately obtain z where "sessions (session_step e refresh (1 - v) (session_step e refresh (1 - v) ?t)) = (sessions ?t)[1 - v := z]"
    and "answered z" using freed_answers by blast
  then show ?thesis using t(1) v by (auto simp: all_answered_def less_2_cases_iff)
qed

text \<open>C8:
  Nothing in the code orders the items.  Two requests that list the same two products in opposite orders, each
  of which the stock covers, can reach a state in which each waits for the other: no turn of either changes
  anything.  Only the database gets them out of it: it ends the wait of one of them, either one, with an error,
  which is answered with 500, and the other is then through in two turns.\<close>

theorem crossed_requests_block:
  assumes c1: "call_items c1 = [(p, a), (q, b)]" and c2: "call_items c2 = [(q, b'), (p, a')]" and "p \<noteq> q"
    and x: "get_best_available (db w) p = Some x" "a \<le> effective x" "a' \<le> effective x"
    and y: "get_best_available (db w) q = Some y" "b \<le> effective y" "b' \<le> effective y"
    and dist: "distinct (map inv_id (inventories (db w)))"
    and s: "s = run_schedule e refresh (map Run [0, 1, 0, 1]) (open_sessions w [c1, c2])"
  shows "waits_on s 0 = Some 1 \<and> waits_on s 1 = Some 0 \<and> \<not> all_answered s \<and>
    (\<forall>js. run_schedule e refresh (map Run js) s = s) \<and>
    (\<forall>v < 2. sessions (give_up v s) ! v = Refused (OperationalError ''lock'') \<and>
      reply_status (exception_reply (OperationalError ''lock'')) = 500 \<and>
      all_answered (run_schedule e refresh [GiveUp v, Run (1 - v), Run (1 - v)] s))"
proof -
  let ?k = "inv_id x" and ?l = "inv_id y"
  let ?s = "crossed w c1 c2 ?k ?l"
  have kl: "?k \<noteq> ?l"
    using get_best_availableD(1,2) [OF x(1)] get_best_availableD(1,2) [OF y(1)] dist \<open>p \<noteq> q\<close>
    by (auto simp: distinct_map inj_on_def)
  note turn1 = two_rows_turns [OF c1 \<open>p \<noteq> q\<close> _ _ x(2) _ y(2)]
    and turn2 = two_rows_turns [OF c2 \<open>p \<noteq> q\<close> [symmetric] _ _ y(3) _ x(3)]
  have st: "s = ?s"
    using x(1) y(1) dist kl by (simp add: s crossed_def open_sessions_def turn1 turn2 set_session_def)
  have w0: "session_step e refresh 0 ?s = ?s \<and> waits_on ?s 0 = Some 1"
    by (rule turn1(3)) (use x(1) y(1) dist kl in \<open>simp_all add: crossed_def\<close>)
  have w1: "session_step e refresh 1 ?s = ?s \<and> waits_on ?s 1 = Some 0"
    by (rule turn2(3)) (use x(1) y(1) dist kl in \<open>simp_all add: crossed_def\<close>)
  have idle: "session_step e refresh i ?s = ?s" for i
  proof -
    have "i = 0 \<or> i = 1 \<or> 2 \<le> i" by linarith
    then show ?thesis using w0 w1 by (auto simp: session_step_def crossed_def)
  qed
  have free: "sessions (give_up v ?s) ! v = Refused (OperationalError ''lock'') \<and>
      all_answered (run_schedule e refresh [GiveUp v, Run (1 - v), Run (1 - v)] ?s)" if "v < 2" for v
    by (rule crossed_freed [OF that kl])
       (use w0 w1 turn1(4) turn2(4) x(1) y(1) dist in simp_all)
  have "\<not> all_answered ?s" by (simp add: all_answered_def crossed_def)
  moreover have "reply_status (exception_reply (OperationalError ''lock'')) = 500"
    by (simp add: exception_reply_def unhandled_exception_handler_def envelope_def)
  ultimately show ?thesis using w0 w1 stuck_run [OF idle] free unfolding st by blast
qed

theorem crossed_requests_block_witness:
  "let s = run_schedule granting False (map Run [0, 1, 0, 1]) (open_sessions start_world
       [\<lparr>call_time = 0, call_user = ''u'', call_items = [(1, 1), (2, 1)]\<rparr>,
        \<lparr>call_time = 1, call_user = ''v'', call_items = [(2, 1), (1, 1)]\<rparr>]) in
   waits_on s 0 = Some 1 \<and> waits_on s 1 = Some 0 \<and> \<not> all_answered s \<and>
   all_answered (run_schedule granting False [GiveUp 0, Run 1, Run 1] s)"
proof -
  have "get_best_available (db start_world) 1 = Some sample_row1" "get_best_available (db start_world) 2 = Some sample_row2"
    and "1 \<le> effective sample_row1" "1 \<le> effective sample_row2" "distinct (map inv_id (inventories (db start_world)))"
    by code_simp+
  from crossed_requests_block [OF _ _ _ this(1,3,3) this(2,4,4,5) refl,
      of "\<lparr>call_time = 0, call_user = ''u'', call_items = [(1, 1), (2, 1)]\<rparr>"
         "\<lparr>call_time = 1, call_user = ''v'', call_items = [(2, 1), (1, 1)]\<rparr>" granting False]
  show ?thesis by (force simp: Let_def)
qed

end
