(* ===== verification/Overlap.thy ===== *)
theory Overlap
  imports Book Sample
begin

section \<open>Overlapping requests on one reservation\<close>

text \<open>
  \<open>confirm\<close> and \<open>cancel\<close> read the reservation without a lock; loading it also loads its items, their products
  and, through the relationships, every inventory row of these.  A second request that has read
  the same state waits at most for the row locks of the first, works on its own instances, and
  writes the columns it has changed over what the first has committed.  \<open>commit_after base mine cur\<close> is
  that commit: \<open>base\<close> is what the session has read, \<open>mine\<close> what its service made of it, \<open>cur\<close> the committed state.
\<close>

definition write_table :: "('r \<Rightarrow> int) \<Rightarrow> ('r \<Rightarrow> 'r \<Rightarrow> 'r \<Rightarrow> 'r) \<Rightarrow> 'r list \<Rightarrow> 'r list \<Rightarrow> 'r list \<Rightarrow> 'r list" where
  "write_table key put base mine cur =
     map (\<lambda>x. case (find_by key (key x) base, find_by key (key x) mine) of
                (Some b, Some m) \<Rightarrow> put b m x
              | _ \<Rightarrow> x) cur"

definition changed :: "'v \<Rightarrow> 'v \<Rightarrow> 'v \<Rightarrow> 'v" where
  "changed b m x = (if m = b then x else m)"

lemma changed_same: "changed b m b = m"
  by (simp add: changed_def)

definition put_row :: "inventory \<Rightarrow> inventory \<Rightarrow> inventory \<Rightarrow> inventory" where
  "put_row b m x =
     x\<lparr>qty_available := changed (qty_available b) (qty_available m) (qty_available x),
       qty_reserved := changed (qty_reserved b) (qty_reserved m) (qty_reserved x)\<rparr>"

definition put_item :: "reservation_item \<Rightarrow> reservation_item \<Rightarrow> reservation_item \<Rightarrow> reservation_item" where
  "put_item b m x = x\<lparr>provider_status := changed (provider_status b) (provider_status m) (provider_status x)\<rparr>"

definition put_reservation :: "reservation \<Rightarrow> reservation \<Rightarrow> reservation \<Rightarrow> reservation" where
  "put_reservation b m x = x\<lparr>res_status := changed (res_status b) (res_status m) (res_status x)\<rparr>"

definition flush_updates :: "database \<Rightarrow> database \<Rightarrow> database \<Rightarrow> database" where
  "flush_updates base mine cur =
     cur\<lparr>inventories := write_table inv_id put_row (inventories base) (inventories mine) (inventories cur),
         reservation_items := write_table item_id put_item (reservation_items base) (reservation_items mine) (reservation_items cur),
         reservations := write_table res_id put_reservation (reservations base) (reservations mine) (reservations cur)\<rparr>"

text \<open>New orders get the next id of the table; the UNIQUE column is checked against what is committed.\<close>

fun flush_orders :: "order_row list \<Rightarrow> database \<Rightarrow> exn + database" where
  "flush_orders [] d = Inr d"
| "flush_orders (ord # ords) d =
     (case add_order (\<lambda>k. ord\<lparr>order_id := k\<rparr>) d of
        (Inl x, d') \<Rightarrow> Inl x
      | (Inr _, d') \<Rightarrow> flush_orders ords d')"

definition commit_after :: "database \<Rightarrow> database \<Rightarrow> database \<Rightarrow> exn + database" where
  "commit_after base mine cur =
     flush_orders (filter (\<lambda>x. order_id x \<notin> order_id ` set (orders base)) (orders mine)) (flush_updates base mine cur)"

subsection \<open>A session nobody overlaps commits what its service made\<close>

lemma write_table_alone:
  assumes "distinct (map key base)" and "\<And>x. key (f x) = key x"
    and "\<And>x. x \<in> set base \<Longrightarrow> put x (f x) x = f x"
  shows "write_table key put base (map f base) base = map f base"
proof -
  have "find_by key (key x) (map f base) = Some (f x)" if "x \<in> set base" for x
    using assms(1,2) that by (subst find_by_map) (simp_all add: find_by_distinct)
  then show ?thesis using assms(1,3) by (simp add: write_table_def find_by_distinct)
qed

lemma write_table_same:
  "distinct (map key b) \<Longrightarrow> (\<And>x. put x x x = x) \<Longrightarrow> write_table key put b b b = b"
  using write_table_alone [of key b "\<lambda>x. x" put] by simp

lemma close_frame:
  "close_reservation s f S r d =
     d\<lparr>inventories := inventories (close_reservation s f S r d),
       reservation_items := reservation_items (close_reservation s f S r d),
       reservations := upd_by res_id (res_id r) (set_status S) (reservations d)\<rparr>"
  by (rule database.equality) (simp_all add: frame_simps)

lemma flush_close:
  assumes keys: "keys_ok d" and rows: "inventories (close_reservation s f S r d) = map h (inventories d)"
    and h: "\<And>x. h x = x\<lparr>qty_available := qty_available (h x), qty_reserved := qty_reserved (h x)\<rparr>"
  shows "flush_updates d (close_reservation s f S r d) d = close_reservation s f S r d"
proof -
  let ?c = "close_reservation s f S r d"
  have dist: "distinct (map inv_id (inventories d))" "distinct (map item_id (reservation_items d))"
    "distinct (map res_id (reservations d))"
    using keys by (simp_all add: keys_ok_def)
  have put: "put_row x (h x) x = h x" for x
    using h [of x, symmetric] by (simp add: put_row_def changed_same)
  have key: "inv_id (h x) = inv_id x" for x using arg_cong [OF h [of x], of inv_id] by simp
  have 1: "write_table inv_id put_row (inventories d) (inventories ?c) (inventories d) = inventories ?c"
    unfolding rows by (rule write_table_alone [OF dist(1)]) (simp_all add: put key)
  have 2: "write_table item_id put_item (reservation_items d) (reservation_items ?c) (reservation_items d) = reservation_items ?c"
    unfolding close_reservation_items [OF keys]
    by (rule write_table_alone [OF dist(2)]) (auto simp: put_item_def changed_def set_provider_status_def)
  have res: "reservations ?c = upd_by res_id (res_id r) (set_status S) (reservations d)" by (simp add: frame_simps)
  have 3: "write_table res_id put_reservation (reservations d) (reservations ?c) (reservations d) = reservations ?c"
    unfolding res upd_by_def
    by (rule write_table_alone [OF dist(3)]) (auto simp: put_reservation_def changed_def set_status_def)
  show ?thesis unfolding flush_updates_def 1 2 3 by (subst res) (rule close_frame [symmetric])
qed

lemma cancel_alone:
  assumes run: "cancel e rid w = (Inr u, w')" and inv: "db_inv (db w)"
  shows "commit_after (db w) (db w') (db w) = Inr (db w')"
  using run db_inv_status [OF inv]
proof (cases rule: cancel_cases)
  case (noop r)
  have "flush_updates (db w) (db w) (db w) = db w"
    using db_inv_keys [OF inv]
    by (simp add: flush_updates_def keys_ok_def write_table_same put_row_def put_item_def put_reservation_def changed_def)
  then show ?thesis using noop by (simp add: commit_after_def filter_False)
next
  case (released r)
  have "flush_updates (db w) (db w') (db w) = db w'"
    unfolding released(4)
    by (rule flush_close [OF db_inv_keys [OF inv] close_reservation_released [OF inv released(1,3)]]) (auto simp: reserve_def)
  then show ?thesis by (simp add: commit_after_def released(4) frame_simps filter_False)
qed

text \<open>A confirmation, as a session: its updates and one new order.\<close>

lemma confirm_updates:
  assumes inv: "db_inv d" and r: "r \<in> set (reservations d)"
  shows "flush_updates d (close_reservation ItemConfirmed consume Confirmed r d) d = close_reservation ItemConfirmed consume Confirmed r d"
  by (rule flush_close [OF db_inv_keys [OF inv] close_reservation_consumed]) (auto simp: consume_def)

lemma flush_updates_orders [simp]:
  "flush_updates b (m\<lparr>orders := xs, next_order_id := k\<rparr>) c = flush_updates b m c"
  "orders (flush_updates b m c) = orders c" "next_order_id (flush_updates b m c) = next_order_id c"
  by (simp_all add: flush_updates_def)

lemma confirm_session:
  assumes run: "confirm e now rid w = (Inr ord, w')" and inv: "db_inv (db w)"
  obtains r where "r \<in> set (reservations (db w))" and "res_id r = rid" and "res_status r = Pending"
    and "order_reservation_id ord = rid" and "order_id ord = next_order_id (db w)"
    and "db w' = close_reservation ItemConfirmed consume Confirmed r (db w)
      \<lparr>orders := orders (db w) @ [ord], next_order_id := next_order_id (db w) + 1\<rparr>"
    and "filter (\<lambda>x. order_id x \<notin> order_id ` set (orders (db w))) (orders (db w')) = [ord]"
  using run
proof (rule confirm_InrD)
  fix r
  let ?c = "close_reservation ItemConfirmed consume Confirmed r (db w)"
  assume r: "r \<in> set (reservations (db w))" "res_id r = rid" "res_status r = Pending"
    and add: "add_order (new_order r now) ?c = (Inr ord, db w')"
  have w': "db w' = ?c\<lparr>orders := orders (db w) @ [ord], next_order_id := next_order_id (db w) + 1\<rparr>"
    and ord: "ord = new_order r now (next_order_id (db w))"
    using add by (auto simp: add_order_def Let_def frame_simps split: if_splits)
  have "next_order_id (db w) \<notin> order_id ` set (orders (db w))"
    using inv by (auto simp: db_inv_def orders_ok_def)
  moreover have "filter (\<lambda>x. order_id x \<notin> order_id ` set (orders (db w))) (orders (db w)) = []"
    by (simp add: filter_empty_conv)
  ultimately show thesis
    using that [of r] r w' ord by (simp add: new_order_def)
qed

lemma confirm_alone:
  assumes run: "confirm e now rid w = (Inr ord, w')" and inv: "db_inv (db w)"
  shows "commit_after (db w) (db w') (db w) = Inr (db w')"
  using run inv
proof (rule confirm_session)
  fix r
  let ?c = "close_reservation ItemConfirmed consume Confirmed r (db w)"
  assume r: "r \<in> set (reservations (db w))" "res_id r = rid" and pend: "res_status r = Pending"
    and ord: "order_reservation_id ord = rid" "order_id ord = next_order_id (db w)"
    and w': "db w' = ?c\<lparr>orders := orders (db w) @ [ord], next_order_id := next_order_id (db w) + 1\<rparr>"
    and new: "filter (\<lambda>x. order_id x \<notin> order_id ` set (orders (db w))) (orders (db w')) = [ord]"
  have "rid \<notin> res_id ` {r \<in> set (reservations (db w)). res_status r = Confirmed}"
  proof
    assume "rid \<in> res_id ` {r \<in> set (reservations (db w)). res_status r = Confirmed}"
    then obtain x where "x \<in> set (reservations (db w))" "res_id x = rid" "res_status x = Confirmed" by blast
    then show False using reservation_unique [OF db_inv_keys [OF inv] _ r(1), of x] r(2) pend by simp
  qed
  then have "rid \<notin> order_reservation_id ` set (orders (db w))"
    using inv by (simp add: db_inv_def orders_ok_def)
  then have "get_by_reservation_id ?c rid = None"
    by (simp add: get_by_reservation_id_def frame_simps find_by_None)
  then show ?thesis
    unfolding commit_after_def new
    by (simp add: w' confirm_updates [OF inv r(1)] add_order_def Let_def ord frame_simps)
qed

subsection \<open>What two requests that overlap leave behind\<close>

lemma find_write_table:
  assumes "\<And>b m x. key (put b m x) = key x"
  shows "find_by key k (write_table key put base mine cur) =
    map_option (\<lambda>x. case (find_by key k base, find_by key k mine) of (Some b, Some m) \<Rightarrow> put b m x | _ \<Rightarrow> x) (find_by key k cur)"
  using assms unfolding write_table_def
  by (induction cur) (auto split: option.splits)

lemma status_after:
  "map_option res_status (get_reservation (flush_updates base mine cur) k) =
     map_option (\<lambda>x. case (get_reservation base k, get_reservation mine k) of
         (Some b, Some m) \<Rightarrow> changed (res_status b) (res_status m) (res_status x) | _ \<Rightarrow> res_status x)
       (get_reservation cur k)"
  by (auto simp: get_reservation_def flush_updates_def find_write_table put_reservation_def
      option.map_comp comp_def split: option.splits intro: option.map_cong)

text \<open>
  Two confirmations of one reservation that have both read it pending: the UNIQUE column of orders
  stops the second, whose whole transaction is rolled back.\<close>

theorem overlapping_confirms_one_order:
  assumes "confirm e1 now1 rid w = (Inr ord1, w1)" and "confirm e2 now2 rid w = (Inr ord2, w2)" and inv: "db_inv (db w)"
  shows "commit_after (db w) (db w2) (db w1) = Inl (IntegrityError ''orders.reservation_id'')"
  using assms(2) inv
proof (rule confirm_session)
  assume ord2: "order_reservation_id ord2 = rid"
    and new: "filter (\<lambda>x. order_id x \<notin> order_id ` set (orders (db w))) (orders (db w2)) = [ord2]"
  obtain c where "db w1 = c\<lparr>orders := orders (db w) @ [ord1], next_order_id := next_order_id (db w) + 1\<rparr>"
    and "order_reservation_id ord1 = rid"
    by (rule confirm_session [OF assms(1) inv]) blast
  then have "get_by_reservation_id (flush_updates (db w) (db w2) (db w1)) rid \<noteq> None"
    by (simp add: get_by_reservation_id_def find_by_None)
  then show ?thesis unfolding commit_after_def new using ord2 by (simp add: add_order_def Let_def)
qed

theorem overlapping_confirms_one_order_witness:
  "commit_after (db held_world) (db (snd (confirm granting 5 1 held_world))) (db (snd (confirm granting 6 1 held_world))) =
    Inl (IntegrityError ''orders.reservation_id'')"
proof -
  have "case fst (confirm granting 5 1 held_world) of Inl x \<Rightarrow> False | Inr ord \<Rightarrow> True"
    and "case fst (confirm granting 6 1 held_world) of Inl x \<Rightarrow> False | Inr ord \<Rightarrow> True"
    by code_simp+
  then obtain o1 o2 where "confirm granting 6 1 held_world = (Inr o1, snd (confirm granting 6 1 held_world))"
    "confirm granting 5 1 held_world = (Inr o2, snd (confirm granting 5 1 held_world))"
    by (auto simp: prod_eq_iff split: sum.splits)
  then show ?thesis by (rule overlapping_confirms_one_order [OF _ _ held_inv])
qed

text \<open>C14:
  A confirmation and a cancellation that have both read the reservation pending are both answered
  with success: the cancellation writes its status over the confirmed one, and a cancelled
  reservation with an order remains, which no serial run can produce.\<close>

theorem overlapping_cancel_breaks_order:
  assumes conf: "confirm e1 now1 rid w = (Inr ord, w1)" and canc: "cancel e2 rid w = (Inr u, w2)" and inv: "db_inv (db w)"
  shows "\<exists>d. commit_after (db w) (db w2) (db w1) = Inr d \<and> get_by_reservation_id d rid \<noteq> None \<and>
    map_option res_status (get_reservation d rid) = Some Cancelled \<and> \<not> db_inv d"
proof -
  let ?d = "flush_updates (db w) (db w2) (db w1)"
  obtain r where r: "r \<in> set (reservations (db w))" "res_id r = rid" "res_status r = Pending"
    and ord: "order_reservation_id ord = rid"
    and w1: "db w1 = close_reservation ItemConfirmed consume Confirmed r (db w)
      \<lparr>orders := orders (db w) @ [ord], next_order_id := next_order_id (db w) + 1\<rparr>"
    by (rule confirm_session [OF conf inv]) blast
  have keys: "keys_ok (db w)" by (rule db_inv_keys [OF inv])
  have w2: "db w2 = close_reservation Released unreserve Cancelled r (db w)"
    using canc db_inv_status [OF inv]
  proof (cases rule: cancel_cases)
    case (noop x)
    then show ?thesis using reservation_unique [OF keys _ r(1), of x] r by simp
  next
    case (released x)
    then show ?thesis using reservation_unique [OF keys _ r(1), of x] r by simp
  qed
  have "filter (\<lambda>x. order_id x \<notin> order_id ` set (orders (db w))) (orders (db w2)) = []"
    by (simp add: w2 frame_simps filter_empty_conv)
  then have commit: "commit_after (db w) (db w2) (db w1) = Inr ?d" by (simp add: commit_after_def)
  have "get_reservation (db w) rid = Some r" using keys r(1) by (auto simp: get_reservation_def keys_ok_def find_by_distinct r(2) [symmetric])
  then have st: "map_option res_status (get_reservation ?d rid) = Some Cancelled"
    using r(2,3) unfolding status_after
    by (simp add: w1 w2 get_reservation_def frame_simps find_by_upd_same set_status_def changed_def)
  have found: "get_by_reservation_id ?d rid \<noteq> None"
    using ord by (simp add: w1 get_by_reservation_id_def find_by_None)
  have "\<not> db_inv ?d"
  proof
    assume bad: "db_inv ?d"
    have "rid \<in> order_reservation_id ` set (orders ?d)" using ord by (simp add: w1)
    then obtain x where x: "x \<in> set (reservations ?d)" "res_id x = rid" "res_status x = Confirmed"
      using bad by (auto simp: db_inv_def orders_ok_def)
    then have "get_reservation ?d rid = Some x"
      using db_inv_keys [OF bad] by (auto simp: get_reservation_def keys_ok_def find_by_distinct x(2) [symmetric])
    with st x(3) show False by simp
  qed
  with commit found st show ?thesis by blast
qed

theorem overlapping_cancel_breaks_order_witness:
  "\<exists>d. commit_after (db held_world) (db (snd (cancel granting 1 held_world))) (db (snd (confirm granting 5 1 held_world))) = Inr d \<and>
    \<not> db_inv d"
proof -
  have "case fst (confirm granting 5 1 held_world) of Inl x \<Rightarrow> False | Inr ord \<Rightarrow> True"
    and "case fst (cancel granting 1 held_world) of Inl x \<Rightarrow> False | Inr u \<Rightarrow> True"
    by code_simp+
  then obtain ord u where "confirm granting 5 1 held_world = (Inr ord, snd (confirm granting 5 1 held_world))"
    "cancel granting 1 held_world = (Inr u, snd (cancel granting 1 held_world))"
    by (auto simp: prod_eq_iff split: sum.splits)
  from overlapping_cancel_breaks_order [OF this held_inv] show ?thesis by blast
qed

text \<open>
  Two sessions that both change a table: the second's values win where it has changed a column.
\<close>

lemma write_table_maps:
  assumes "distinct (map key base)" and "\<And>x. key (f x) = key x" and "\<And>x. key (g x) = key x"
  shows "write_table key put base (map g base) (map f base) = map (\<lambda>x. put x (g x) (f x)) base"
proof -
  have "find_by key (key x) base = Some x" "find_by key (key x) (map g base) = Some (g x)" if "x \<in> set base" for x
    using assms(1,3) that by (simp_all add: find_by_map find_by_distinct)
  then show ?thesis by (simp add: write_table_def assms(2))
qed

lemma released_session:
  assumes run: "cancel e k w = (Inr u, w')" and inv: "db_inv (db w)"
    and pend: "map_option res_status (get_reservation (db w) k) = Some Pending"
  obtains r where "res_id r = k" and "db w' = close_reservation Released unreserve Cancelled r (db w)"
    and "inventories (db w') = map (\<lambda>x. reserve (- qty_on (inv_id x) (items_of (db w) k)) x) (inventories (db w))"
  using run db_inv_status [OF inv]
proof (cases rule: cancel_cases)
  case (noop r)
  then have "get_reservation (db w) k = Some r"
    using db_inv_keys [OF inv] by (auto simp: get_reservation_def keys_ok_def find_by_distinct)
  with noop pend show ?thesis by auto
next
  case (released r)
  then show ?thesis using that [of r] close_reservation_released [OF inv released(1,3)] by simp
qed

text \<open>
  Two cancellations of different reservations that overlap are both answered with success.  On a row that
  both have items on, only the second one's quantity is given back: the quantity of the first
  stays in \<open>qty_reserved\<close>, although no live item holds it.\<close>

theorem overlapping_cancels_leak:
  assumes "cancel e1 k1 w = (Inr u1, w1)" and "cancel e2 k2 w = (Inr u2, w2)" and inv: "db_inv (db w)"
    and "map_option res_status (get_reservation (db w) k1) = Some Pending"
    and "map_option res_status (get_reservation (db w) k2) = Some Pending"
  shows "\<exists>d. commit_after (db w) (db w2) (db w1) = Inr d \<and>
    inventories d = map (\<lambda>x.
      let q1 = qty_on (inv_id x) (items_of (db w) k1); q2 = qty_on (inv_id x) (items_of (db w) k2)
      in x\<lparr>qty_reserved := qty_reserved x - (if q2 = 0 then q1 else q2)\<rparr>) (inventories (db w))"
proof -
  obtain r2 where r2: "db w2 = close_reservation Released unreserve Cancelled r2 (db w)"
    and i2: "inventories (db w2) = map (\<lambda>x. reserve (- qty_on (inv_id x) (items_of (db w) k2)) x) (inventories (db w))"
    by (rule released_session [OF assms(2) inv assms(5)])
  obtain r1 where i1: "inventories (db w1) = map (\<lambda>x. reserve (- qty_on (inv_id x) (items_of (db w) k1)) x) (inventories (db w))"
    by (rule released_session [OF assms(1) inv assms(4)])
  have "commit_after (db w) (db w2) (db w1) = Inr (flush_updates (db w) (db w2) (db w1))"
    by (simp add: commit_after_def r2 frame_simps filter_False)
  moreover have "distinct (map inv_id (inventories (db w)))"
    using db_inv_keys [OF inv] by (simp add: keys_ok_def)
  then have "write_table inv_id put_row (inventories (db w)) (inventories (db w2)) (inventories (db w1)) =
      map (\<lambda>x. put_row x (reserve (- qty_on (inv_id x) (items_of (db w) k2)) x)
        (reserve (- qty_on (inv_id x) (items_of (db w) k1)) x)) (inventories (db w))"
    unfolding i1 i2 by (rule write_table_maps) (simp_all add: reserve_def)
  then have "inventories (flush_updates (db w) (db w2) (db w1)) = map (\<lambda>x.
      let q1 = qty_on (inv_id x) (items_of (db w) k1); q2 = qty_on (inv_id x) (items_of (db w) k2)
      in x\<lparr>qty_reserved := qty_reserved x - (if q2 = 0 then q1 else q2)\<rparr>) (inventories (db w))"
    by (simp add: flush_updates_def put_row_def reserve_def changed_def Let_def)
  ultimately show ?thesis by blast
qed

definition order_more :: request where
  "order_more = CreateReservation ''bob'' [(1, 2)]"

definition twice_held :: world where
  "twice_held = after no_details granting [(0, Request order_both), (0, Request order_more)] start_world"

theorem overlapping_cancels_leak_witness:
  "\<exists>d. commit_after (db twice_held) (db (snd (cancel granting 2 twice_held))) (db (snd (cancel granting 1 twice_held))) = Inr d \<and>
    map qty_reserved (inventories (db twice_held)) = [5, 4] \<and> map qty_reserved (inventories d) = [3, 2]"
proof -
  have "case fst (cancel granting 1 twice_held) of Inl x \<Rightarrow> False | Inr u \<Rightarrow> True"
    and "case fst (cancel granting 2 twice_held) of Inl x \<Rightarrow> False | Inr u \<Rightarrow> True"
    and inv: "db_inv (db twice_held)"
    and pend: "map_option res_status (get_reservation (db twice_held) 1) = Some Pending"
      "map_option res_status (get_reservation (db twice_held) 2) = Some Pending"
    and rows: "map (\<lambda>x. (qty_reserved x, qty_on (inv_id x) (items_of (db twice_held) 1),
        qty_on (inv_id x) (items_of (db twice_held) 2))) (inventories (db twice_held)) = [(5, 3, 2), (4, 2, 0)]"
    by code_simp+
  then obtain u1 u2 where "cancel granting 1 twice_held = (Inr u1, snd (cancel granting 1 twice_held))"
    "cancel granting 2 twice_held = (Inr u2, snd (cancel granting 2 twice_held))"
    by (auto simp: prod_eq_iff split: sum.splits)
  from overlapping_cancels_leak [OF this inv pend] obtain d where
    d: "commit_after (db twice_held) (db (snd (cancel granting 2 twice_held))) (db (snd (cancel granting 1 twice_held))) = Inr d"
      "inventories d = map (\<lambda>x.
        let q1 = qty_on (inv_id x) (items_of (db twice_held) 1); q2 = qty_on (inv_id x) (items_of (db twice_held) 2)
        in x\<lparr>qty_reserved := qty_reserved x - (if q2 = 0 then q1 else q2)\<rparr>) (inventories (db twice_held))"
    by blast
  moreover have "map qty_reserved (inventories d) =
      map (\<lambda>(r, q1, q2). r - (if q2 = 0 then q1 else q2)) [(5, 3, 2), (4, 2, 0)]"
    unfolding d(2) rows [symmetric] by (simp add: Let_def comp_def)
  moreover have "map fst [(5::int, 3::int, 2::int), (4, 2, 0)] = map qty_reserved (inventories (db twice_held))"
    unfolding rows [symmetric] by (simp add: comp_def)
  ultimately show ?thesis by auto
qed

end
