(* ===== verification/Replicas.thy ===== *)
theory Replicas
  imports Overlap
begin

section \<open>Sweeps of several replicas (workers/expiry_worker.py, get_expired_pending)\<close>

text \<open>
  Every replica of the service runs its own scheduler, with at most one sweep at a time
  (\<open>max_instances=1\<close>).  A sweep selects expired reservations with FOR UPDATE SKIP LOCKED: those
  locked by the sweep of another replica are passed over, the others are locked until the
  sweep commits or rolls back.  It works on what it has read then; its commit writes the columns
  it has changed over what other sweeps have committed since (\<open>commit_after\<close>).
\<close>

definition get_expired_skip_locked ::
    "int \<Rightarrow> int set \<Rightarrow> database \<Rightarrow> int \<Rightarrow> (reservation \<times> reservation_item list) list" where
  "get_expired_skip_locked now locked d limit =
     map (\<lambda>r. (r, items_of d (res_id r)))
       (take (nat limit) (filter (\<lambda>r. past_ttl now r \<and> res_id r \<notin> locked) (reservations d)))"

lemma skip_nothing: "get_expired_skip_locked now {} d limit = get_expired_pending now d limit"
  by (simp add: get_expired_skip_locked_def get_expired_pending_def)

text \<open>The sweep of one replica: the ids it has locked, what it has read and what it has made of it.\<close>

datatype sweep = Resting | Sweeping "int list" database "exn + database"

record replicas =
  place :: world
  sweeps :: "sweep list"
  counts :: "int list"

fun claimed_by :: "sweep \<Rightarrow> int list" where
  "claimed_by Resting = []"
| "claimed_by (Sweeping ids read made) = ids"

definition locked_ids :: "replicas \<Rightarrow> int list" where
  "locked_ids s = concat (map claimed_by (sweeps s))"

definition start_sweep :: "env \<Rightarrow> int \<Rightarrow> nat \<Rightarrow> replicas \<Rightarrow> replicas" where
  "start_sweep e now i s =
     (let d = db (place s);
          expired = get_expired_skip_locked now (set (locked_ids s)) d sweep_limit;
          (res, w') = expire_all e expired (place s);
          made = (case res of Inl x \<Rightarrow> Inl x | Inr _ \<Rightarrow> Inr (db w'))
      in s\<lparr>place := (place s)\<lparr>sent := sent w'\<rparr>,
           sweeps := (sweeps s)[i := Sweeping (map (res_id \<circ> fst) expired) d made]\<rparr>)"

text \<open>The end of the session: commit, with the count that \<open>expire_batch\<close> has returned, or rollback.\<close>

definition end_sweep :: "nat \<Rightarrow> int list \<Rightarrow> database \<Rightarrow> exn + database \<Rightarrow> replicas \<Rightarrow> replicas" where
  "end_sweep i ids read made s =
     (let s' = s\<lparr>sweeps := (sweeps s)[i := Resting]\<rparr> in
      case made of
        Inl x \<Rightarrow> s'
      | Inr mine \<Rightarrow>
          (case commit_after read mine (db (place s)) of
             Inl x \<Rightarrow> s'
           | Inr d \<Rightarrow> s'\<lparr>place := (place s)\<lparr>db := d\<rparr>, counts := counts s @ [int (length ids)]\<rparr>))"

text \<open>A turn of a replica at some time, a schedule of turns, and replicas that have not swept yet.\<close>

definition replica_turn :: "env \<Rightarrow> int \<times> nat \<Rightarrow> replicas \<Rightarrow> replicas" where
  "replica_turn e ni s =
     (if snd ni < length (sweeps s) then
        (case sweeps s ! snd ni of
           Resting \<Rightarrow> start_sweep e (fst ni) (snd ni) s
         | Sweeping ids read made \<Rightarrow> end_sweep (snd ni) ids read made s)
      else s)"

definition run_replicas :: "env \<Rightarrow> (int \<times> nat) list \<Rightarrow> replicas \<Rightarrow> replicas" where
  "run_replicas e turns s = fold (replica_turn e) turns s"

definition all_resting :: "nat \<Rightarrow> world \<Rightarrow> replicas" where
  "all_resting n w = \<lparr>place = w, sweeps = replicate n Resting, counts = []\<rparr>"

subsection \<open>What expiring a set of reservations does to the tables\<close>

text \<open>
  \<open>settled X d d'\<close>: the reservations with an id in \<open>X\<close> and their items are closed, and nothing else
  has changed but reserved quantities.
\<close>

definition settled :: "int set \<Rightarrow> database \<Rightarrow> database \<Rightarrow> bool" where
  "settled X d d' \<longleftrightarrow>
     d' = d\<lparr>inventories := inventories d',
       reservation_items := map (\<lambda>t. if item_reservation_id t \<in> X then set_provider_status Released t else t)
         (reservation_items d),
       reservations := map (\<lambda>r. if res_id r \<in> X then set_status Expired r else r) (reservations d)\<rparr> \<and>
     map (\<lambda>r. r\<lparr>qty_reserved := 0\<rparr>) (inventories d') = map (\<lambda>r. r\<lparr>qty_reserved := 0\<rparr>) (inventories d)"

lemma settled_tables:
  assumes "settled X d d'"
  shows "reservations d' = map (\<lambda>r. if res_id r \<in> X then set_status Expired r else r) (reservations d)"
    and "reservation_items d' =
      map (\<lambda>t. if item_reservation_id t \<in> X then set_provider_status Released t else t) (reservation_items d)"
    and "providers d' = providers d" and "products d' = products d" and "orders d' = orders d"
    and "next_reservation_id d' = next_reservation_id d" and "next_item_id d' = next_item_id d"
    and "next_order_id d' = next_order_id d"
proof -
  note d' = conjunct1 [OF assms [unfolded settled_def]]
  show "reservations d' = map (\<lambda>r. if res_id r \<in> X then set_status Expired r else r) (reservations d)"
    by (subst d') simp
  show "reservation_items d' =
      map (\<lambda>t. if item_reservation_id t \<in> X then set_provider_status Released t else t) (reservation_items d)"
    by (subst d') simp
  show "providers d' = providers d" "products d' = products d" "orders d' = orders d"
    "next_reservation_id d' = next_reservation_id d" "next_item_id d' = next_item_id d"
    "next_order_id d' = next_order_id d"
    by (subst d', simp)+
qed

text \<open>A row is the same but for the quantity that is reserved of it.\<close>

lemma settled_rows:
  assumes "settled X d d'"
    and "\<And>r q. g (r\<lparr>qty_reserved := q\<rparr>) = g r"
  shows "map g (inventories d') = map g (inventories d)"
proof -
  have "map g rs = map g (map (\<lambda>r. r\<lparr>qty_reserved := 0\<rparr>) rs)" for rs by (simp add: assms(2))
  then show ?thesis using assms(1) unfolding settled_def by metis
qed

lemma settledI:
  assumes "reservations d' = map (\<lambda>r. if res_id r \<in> X then set_status Expired r else r) (reservations d)"
    and "reservation_items d' =
      map (\<lambda>t. if item_reservation_id t \<in> X then set_provider_status Released t else t) (reservation_items d)"
    and "providers d' = providers d" "products d' = products d" "orders d' = orders d"
    and "next_reservation_id d' = next_reservation_id d" "next_item_id d' = next_item_id d"
    and "next_order_id d' = next_order_id d"
    and "map (\<lambda>r. r\<lparr>qty_reserved := 0\<rparr>) (inventories d') = map (\<lambda>r. r\<lparr>qty_reserved := 0\<rparr>) (inventories d)"
  shows "settled X d d'"
  unfolding settled_def using assms by (intro conjI database.equality) simp_all

lemma settled_refl: "settled {} d d"
  by (rule settledI) simp_all

lemma settled_trans:
  assumes "settled X a b" and "settled Y b c"
  shows "settled (X \<union> Y) a c"
  using assms settled_tables [OF assms(1)] settled_tables [OF assms(2)]
  by (intro settledI) (auto simp: settled_def set_status_def set_provider_status_def)

definition pending_ids :: "database \<Rightarrow> int set" where
  "pending_ids d = res_id ` {r \<in> set (reservations d). res_status r = Pending}"

lemma settled_keys:
  assumes set: "settled X d d'" and keys: "keys_ok d"
  shows "keys_ok d'"
proof -
  note tabs = settled_tables [OF set] and rows = settled_rows [OF set, of inv_id]
  have "map res_id (reservations d') = map res_id (reservations d)"
    and "map item_id (reservation_items d') = map item_id (reservation_items d)"
    and "map inv_id (inventories d') = map inv_id (inventories d)"
    using rows by (auto simp: tabs comp_def)
  moreover have "\<forall>r \<in> set (reservations d'). res_id r < next_reservation_id d'"
    and "\<forall>t \<in> set (reservation_items d'). item_id t < next_item_id d'"
    using keys by (auto simp: keys_ok_def tabs)
  ultimately show ?thesis using keys by (simp add: keys_ok_def)
qed

lemma settled_refs:
  assumes set: "settled X d d'" and refs: "refs_ok d"
  shows "refs_ok d'"
proof -
  note tabs = settled_tables [OF set]
  have "map row_key (inventories d') = map row_key (inventories d)"
    by (rule settled_rows [OF set]) (simp add: row_key_def)
  then have rows: "row_key ` set (inventories d') = row_key ` set (inventories d)" by (metis list.set_map)
  have "map res_id (reservations d') = map res_id (reservations d)" by (auto simp: tabs(1))
  then have ids: "res_id ` set (reservations d') = res_id ` set (reservations d)" by (metis list.set_map)
  have "item_ok d' (if item_reservation_id t \<in> X then set_provider_status Released t else t)"
    if "t \<in> set (reservation_items d)" for t
  proof (rule item_ok_transfer)
    show "item_ok d t" using refs that by (simp add: refs_ok_def)
  qed (simp_all add: rows ids tabs(3))
  then show ?thesis unfolding refs_ok_def tabs(2) set_map by blast
qed

lemma settled_status:
  "settled X d d' \<Longrightarrow> status_ok d \<Longrightarrow> status_ok d'"
  by (auto simp: status_ok_def settled_tables)

lemma settled_orders:
  assumes set: "settled X d d'" and orders: "orders_ok d" and keys: "keys_ok d" and X: "X \<subseteq> pending_ids d"
  shows "orders_ok d'"
proof -
  have "res_id r \<notin> X" if r: "r \<in> set (reservations d)" "res_status r = Confirmed" for r
  proof
    assume "res_id r \<in> X"
    then obtain x where "x \<in> set (reservations d)" "res_status x = Pending" "res_id x = res_id r"
      using X by (auto simp: pending_ids_def)
    then show False using reservation_unique [OF keys _ r(1), of x] r(2) by simp
  qed
  then have "{r \<in> set (reservations d'). res_status r = Confirmed} = {r \<in> set (reservations d). res_status r = Confirmed}"
    unfolding settled_tables [OF set] by (auto simp: set_status_def split: if_splits)
  with orders show ?thesis by (simp add: orders_ok_def settled_tables [OF set])
qed

lemma settled_sums:
  assumes set: "settled X d d'"
  shows "all_sum d' i = all_sum d i" and "row_booking d' = row_booking d"
    and "refs_ok d \<Longrightarrow> live_sum d' i \<le> live_sum d i"
proof -
  note tabs = settled_tables [OF set]
  show "all_sum d' i = all_sum d i"
    by (auto simp: all_sum_def tabs intro!: arg_cong [where f = sum_list])
  show "row_booking d' = row_booking d" by (simp add: fun_eq_iff row_booking_def get_provider_def tabs)
  assume "refs_ok d"
  then show "live_sum d' i \<le> live_sum d i"
    unfolding live_sum_def tabs map_map
    by (intro sum_list_mono_int) (auto simp: live_qty_def refs_ok_def item_ok_def order.strict_implies_order)
qed

definition due_ids :: "int \<Rightarrow> database \<Rightarrow> int set" where
  "due_ids t d = res_id ` {r \<in> set (reservations d). past_ttl t r}"

lemma settled_due:
  assumes "settled X d d'"
  shows "due_ids t d' = due_ids t d - X"
  unfolding due_ids_def settled_tables [OF assms] by (auto simp: past_ttl_def set_status_def split: if_splits)

lemma due_pending: "due_ids t d \<subseteq> pending_ids d"
  by (auto simp: due_ids_def pending_ids_def past_ttl_def)

lemma finite_due [simp]: "finite (due_ids t d)"
  by (simp add: due_ids_def)

subsection \<open>The invariant with unknown leaks\<close>

text \<open>Some quantity is left over on every row: whatever is live on it is reserved, too.\<close>

lemma leaky_iff:
  "(\<exists>adj. leaky_inv adj d) \<longleftrightarrow> keys_ok d \<and> refs_ok d \<and> status_ok d \<and> orders_ok d \<and>
     (\<forall>r \<in> set (inventories d). live_sum d (inv_id r) + row_booking d r * all_sum d (inv_id r) \<le> qty_reserved r)"
  (is "?L \<longleftrightarrow> ?R")
proof
  assume ?L
  then show ?R by (force simp: leaky_inv_def core_def ledger_def)
next
  assume R: ?R
  define adj where "adj i = (case get_inventory d i of None \<Rightarrow> 0
    | Some r \<Rightarrow> qty_reserved r - live_sum d i - row_booking d r * all_sum d i)" for i
  have "get_inventory d (inv_id r) = Some r" if "r \<in> set (inventories d)" for r
    using R that by (simp add: get_inventory_def find_by_distinct keys_ok_def)
  then have "ledger adj d" by (simp add: ledger_def adj_def)
  moreover have "0 \<le> adj i" for i
  proof (cases "get_inventory d i")
    case (Some r)
    then have "r \<in> set (inventories d)" "inv_id r = i" by (auto simp: get_inventory_def dest: find_by_SomeD)
    then show ?thesis using R Some by (force simp: adj_def)
  qed (simp add: adj_def)
  ultimately have "leaky_inv adj d" using R by (simp add: leaky_inv_def core_def)
  then show ?L by blast
qed

lemma settled_leaky:
  assumes set: "settled X c d" and X: "X \<subseteq> pending_ids c" and inv: "leaky_inv adj c"
    and rows: "\<And>r. r \<in> set (inventories d) \<Longrightarrow>
      live_sum d (inv_id r) + row_booking d r * all_sum d (inv_id r) \<le> qty_reserved r"
  shows "\<exists>adj. leaky_inv adj d"
proof -
  have "refs_ok c" using inv by (simp add: leaky_inv_def core_def)
  with settled_keys [OF set leaky_invD(5) [OF inv]] settled_refs [OF set] settled_status [OF set leaky_invD(3) [OF inv]]
    settled_orders [OF set leaky_invD(4,5) [OF inv] X] rows
  show ?thesis unfolding leaky_iff by blast
qed

subsection \<open>The batch of one sweep\<close>

definition batch_ids :: "(reservation \<times> reservation_item list) list \<Rightarrow> int set" where
  "batch_ids ris = set (map (res_id \<circ> fst) ris)"

definition batch_qty :: "(reservation \<times> reservation_item list) list \<Rightarrow> int \<Rightarrow> int" where
  "batch_qty ris i = sum_list (map (\<lambda>ri. qty_on i (snd ri)) ris)"

lemma settled_expire_row:
  assumes inv: "leaky_inv adj d" and ri: "fst ri \<in> set (reservations d)" "res_status (fst ri) = Pending"
  shows "settled {res_id (fst ri)} d (expire_row ri d)"
proof (rule settledI)
  show "map (\<lambda>r. r\<lparr>qty_reserved := 0\<rparr>) (inventories (expire_row ri d)) = map (\<lambda>r. r\<lparr>qty_reserved := 0\<rparr>) (inventories d)"
    by (simp add: expire_row_def close_reservation_released_leaky [OF inv ri] reserve_def)
qed (simp_all add: expire_row_def frame_simps close_reservation_items [OF leaky_invD(5) [OF inv]] upd_by_def)

lemma expire_rows_exact:
  assumes "leaky_inv adj d" and "batch_ok d ris"
  shows "leaky_inv adj (fold expire_row ris d)" and "settled (batch_ids ris) d (fold expire_row ris d)"
    and "inventories (fold expire_row ris d) = map (\<lambda>x. reserve (- batch_qty ris (inv_id x)) x) (inventories d)"
proof -
  have "leaky_inv adj (fold expire_row ris d) \<and> settled (batch_ids ris) d (fold expire_row ris d) \<and>
      inventories (fold expire_row ris d) = map (\<lambda>x. reserve (- batch_qty ris (inv_id x)) x) (inventories d)"
    using assms
  proof (induction ris arbitrary: d)
    case Nil
    then show ?case by (simp add: batch_ids_def batch_qty_def settled_refl reserve_def)
  next
    case (Cons ri ris)
    note ri = batch_okD [OF Cons.prems(2)]
    let ?d = "expire_row ri d"
    have inv: "leaky_inv adj ?d"
      using close_reservation_leaky [OF Cons.prems(1) ri(1,2)] by (simp add: expire_row_def)
    have "inventories ?d = map (\<lambda>x. reserve (- qty_on (inv_id x) (snd ri)) x) (inventories d)"
      using close_reservation_released_leaky [OF Cons.prems(1) ri(1,2)] ri(3)
      unfolding expire_row_def by (metis snd_conv)
    moreover have "settled (batch_ids (ri # ris)) d (fold expire_row ris ?d)"
      if "settled (batch_ids ris) ?d (fold expire_row ris ?d)"
      using settled_trans [OF settled_expire_row [OF Cons.prems(1) ri(1,2)] that] by (simp add: batch_ids_def)
    ultimately show ?case
      using Cons.IH [OF inv batch_next [OF leaky_invD(5) [OF Cons.prems(1)] Cons.prems(2)]]
      by (auto simp: batch_qty_def reserve_def)
  qed
  then show "leaky_inv adj (fold expire_row ris d)" and "settled (batch_ids ris) d (fold expire_row ris d)"
    and "inventories (fold expire_row ris d) = map (\<lambda>x. reserve (- batch_qty ris (inv_id x)) x) (inventories d)"
    by auto
qed

text \<open>What the rows lose is what was live on them.\<close>

lemma expire_rows_live:
  assumes inv: "leaky_inv adj d" and batch: "batch_ok d ris" and x: "x \<in> set (inventories d)"
  shows "live_sum (fold expire_row ris d) (inv_id x) = live_sum d (inv_id x) - batch_qty ris (inv_id x)"
proof -
  let ?d = "fold expire_row ris d" and ?i = "inv_id x"
  note after = expire_rows_exact [OF inv batch]
  have "reserve (- batch_qty ris ?i) x \<in> set (inventories ?d)" using x by (simp add: after(3))
  then have "qty_reserved (reserve (- batch_qty ris ?i) x) = live_sum ?d ?i +
      row_booking ?d (reserve (- batch_qty ris ?i) x) * all_sum ?d ?i + adj ?i"
    using after(1) by (force simp: leaky_inv_def core_def ledger_def reserve_def)
  moreover have "row_booking ?d (reserve (- batch_qty ris ?i) x) = row_booking d x"
    using settled_sums(2) [OF after(2)] by (simp add: row_booking_def reserve_def)
  moreover have "qty_reserved x = live_sum d ?i + row_booking d x * all_sum d ?i + adj ?i"
    using inv x by (simp add: leaky_inv_def core_def ledger_def)
  ultimately show ?thesis using settled_sums(1) [OF after(2)] by (simp add: reserve_def)
qed

lemma batch_qty_nonneg:
  assumes "leaky_inv adj d" and "batch_ok d ris"
  shows "0 \<le> batch_qty ris i"
proof -
  have "0 \<le> qty_on i (snd ri)" if "ri \<in> set ris" for ri
    unfolding qty_on_def
  proof (rule sum_list_nonneg_int)
    fix t assume "t \<in> set (snd ri)"
    then have "t \<in> set (reservation_items d)" using assms(2) that by (auto simp: batch_ok_def items_of_def)
    then show "0 \<le> all_qty i t" by (rule all_qty_nonneg [OF leaky_invD(2) [OF assms(1)]])
  qed
  then show ?thesis by (simp add: batch_qty_def sum_list_nonneg_int)
qed

subsection \<open>The commit of one sweep over what others have committed\<close>

lemma same_rows_map:
  assumes same: "map (\<lambda>r. r\<lparr>qty_reserved := 0\<rparr>) ys = map (\<lambda>r. r\<lparr>qty_reserved := 0\<rparr>) xs"
    and dist: "distinct (map inv_id ys)"
  shows "\<exists>q. ys = map (\<lambda>x. x\<lparr>qty_reserved := q (inv_id x)\<rparr>) xs"
proof -
  define q where "q k = qty_reserved (the (find_by inv_id k ys))" for k
  have len: "length ys = length xs" using same by (rule map_eq_imp_length_eq)
  have "ys ! n = (xs ! n)\<lparr>qty_reserved := q (inv_id (xs ! n))\<rparr>" if n: "n < length ys" for n
  proof -
    have "(ys ! n)\<lparr>qty_reserved := 0\<rparr> = (xs ! n)\<lparr>qty_reserved := 0\<rparr>"
      using arg_cong [OF same, of "\<lambda>zs. zs ! n"] n len by simp
    then have x: "xs ! n = (ys ! n)\<lparr>qty_reserved := qty_reserved (xs ! n)\<rparr>" by (cases "ys ! n"; cases "xs ! n") simp
    have "find_by inv_id (inv_id (ys ! n)) ys = Some (ys ! n)" using dist n by (simp add: find_by_distinct)
    then have "q (inv_id (ys ! n)) = qty_reserved (ys ! n)" by (simp add: q_def)
    moreover have "inv_id (xs ! n) = inv_id (ys ! n)" by (subst x) simp
    ultimately show ?thesis by (subst x) simp
  qed
  then have "ys = map (\<lambda>x. x\<lparr>qty_reserved := q (inv_id x)\<rparr>) xs" using len by (intro nth_equalityI) simp_all
  then show ?thesis by blast
qed

lemma commit_sweep:
  assumes inv: "leaky_inv adj b" and batch: "batch_ok b ris" and m: "m = fold expire_row ris b"
    and c: "settled Y b c" and Y: "Y \<inter> batch_ids ris = {}"
  obtains d q where "commit_after b m c = Inr d" and "settled (batch_ids ris) c d"
    and "inventories c = map (\<lambda>x. x\<lparr>qty_reserved := q (inv_id x)\<rparr>) (inventories b)"
    and "inventories d = map (\<lambda>x. x\<lparr>qty_reserved :=
      if batch_qty ris (inv_id x) = 0 then q (inv_id x) else qty_reserved x - batch_qty ris (inv_id x)\<rparr>) (inventories b)"
proof -
  let ?d = "flush_updates b m c" and ?X = "batch_ids ris"
  note keys = leaky_invD(5) [OF inv] and after = expire_rows_exact [OF inv batch, folded m]
  note tm = settled_tables [OF after(2)] and tc = settled_tables [OF c]
  have dist: "distinct (map inv_id (inventories b))" "distinct (map item_id (reservation_items b))"
    "distinct (map res_id (reservations b))" "distinct (map inv_id (inventories c))"
    using keys settled_keys [OF c keys] by (simp_all add: keys_ok_def)
  obtain q where q: "inventories c = map (\<lambda>x. x\<lparr>qty_reserved := q (inv_id x)\<rparr>) (inventories b)"
    using same_rows_map [OF _ dist(4)] c unfolding settled_def by blast
  have "filter (\<lambda>x. order_id x \<notin> order_id ` set (orders b)) (orders m) = []"
    by (simp add: tm(5) filter_empty_conv)
  then have "commit_after b m c = Inr ?d" by (simp add: commit_after_def)
  moreover have rows: "inventories ?d = map (\<lambda>x. x\<lparr>qty_reserved :=
      if batch_qty ris (inv_id x) = 0 then q (inv_id x) else qty_reserved x - batch_qty ris (inv_id x)\<rparr>) (inventories b)"
  proof -
    have "inventories ?d = map (\<lambda>x. put_row x (reserve (- batch_qty ris (inv_id x)) x) (x\<lparr>qty_reserved := q (inv_id x)\<rparr>)) (inventories b)"
      unfolding flush_updates_def after(3) q using dist(1)
      by (simp add: write_table_maps [where f = "\<lambda>x. x\<lparr>qty_reserved := q (inv_id x)\<rparr>"] reserve_def)
    then show ?thesis by (simp add: put_row_def changed_def reserve_def)
  qed
  moreover have "settled ?X c ?d"
  proof (rule settledI)
    have "reservations ?d = map (\<lambda>x. put_reservation x (if res_id x \<in> ?X then set_status Expired x else x)
        (if res_id x \<in> Y then set_status Expired x else x)) (reservations b)"
      unfolding flush_updates_def tm tc using dist(3) by (simp add: write_table_maps)
    then show "reservations ?d = map (\<lambda>r. if res_id r \<in> ?X then set_status Expired r else r) (reservations c)"
      using Y by (auto simp: tc put_reservation_def changed_def set_status_def)
    have "reservation_items ?d = map (\<lambda>x. put_item x (if item_reservation_id x \<in> ?X then set_provider_status Released x else x)
        (if item_reservation_id x \<in> Y then set_provider_status Released x else x)) (reservation_items b)"
      unfolding flush_updates_def tm tc using dist(2) by (simp add: write_table_maps)
    then show "reservation_items ?d =
        map (\<lambda>t. if item_reservation_id t \<in> ?X then set_provider_status Released t else t) (reservation_items c)"
      using Y by (auto simp: tc put_item_def changed_def set_provider_status_def)
    show "map (\<lambda>r. r\<lparr>qty_reserved := 0\<rparr>) (inventories ?d) = map (\<lambda>r. r\<lparr>qty_reserved := 0\<rparr>) (inventories c)"
      by (simp add: rows q)
  qed (simp_all add: flush_updates_def)
  ultimately show thesis using that q by blast
qed

text \<open>
  The commit may leave quantities reserved that no item holds; it never frees what a live item holds,
  and reserves no more than is available.
\<close>

lemma settled_remaining:
  assumes "settled (X \<union> Y) a c" and "settled X a b"
  shows "settled Y b c"
  using settled_tables [OF assms(1)] settled_tables [OF assms(2)] assms
  by (intro settledI) (auto simp: settled_def set_status_def set_provider_status_def)

lemma commit_sweep_leaky:
  assumes inv: "leaky_inv adj b" and batch: "batch_ok b ris"
    and c: "settled Y b c" "leaky_inv adj' c"
    and d: "settled (batch_ids ris) c d" and X: "batch_ids ris \<subseteq> pending_ids c"
    and rows: "inventories c = map (\<lambda>x. x\<lparr>qty_reserved := q (inv_id x)\<rparr>) (inventories b)"
      "inventories d = map (\<lambda>x. x\<lparr>qty_reserved :=
        if batch_qty ris (inv_id x) = 0 then q (inv_id x) else qty_reserved x - batch_qty ris (inv_id x)\<rparr>) (inventories b)"
  shows "\<exists>adj. leaky_inv adj d" and "covered b \<Longrightarrow> covered c \<Longrightarrow> covered d"
proof -
  note after = expire_rows_exact [OF inv batch]
  have dm: "settled Y (fold expire_row ris b) d"
    using settled_remaining [OF _ after(2)] settled_trans [OF c(1) d] by (simp add: Un_commute)
  have refs: "refs_ok c" "refs_ok (fold expire_row ris b)"
    using c(2) after(1) by (simp_all add: leaky_inv_def core_def)
  show "\<exists>adj. leaky_inv adj d"
  proof (rule settled_leaky [OF d X c(2)])
    fix r assume "r \<in> set (inventories d)"
    then obtain x where x: "x \<in> set (inventories b)" and r: "r = x\<lparr>qty_reserved :=
        if batch_qty ris (inv_id x) = 0 then q (inv_id x) else qty_reserved x - batch_qty ris (inv_id x)\<rparr>"
      unfolding rows(2) by auto
    let ?i = "inv_id x" and ?leak = "row_booking b x * all_sum b (inv_id x)"
    have same: "row_booking d r = row_booking b x" "row_booking c (x\<lparr>qty_reserved := q ?i\<rparr>) = row_booking b x"
      "all_sum d i = all_sum b i" "all_sum c i = all_sum b i" for i
      using settled_sums(1,2) [OF d] settled_sums(1,2) [OF c(1)] by (simp_all add: r row_booking_def)
    show "live_sum d (inv_id r) + row_booking d r * all_sum d (inv_id r) \<le> qty_reserved r"
    proof (cases "batch_qty ris ?i = 0")
      case True
      have "live_sum c ?i + ?leak \<le> q ?i"
        using core_reserved_ge [OF leaky_invD(2) [OF c(2)]] leaky_invD(1,2) [OF c(2)] x same(2,4)
        by (force simp: rows(1) core_def ledger_def)
      with True show ?thesis using settled_sums(3) [OF d refs(1), of ?i] same by (simp add: r)
    next
      case False
      have "live_sum b ?i + ?leak \<le> qty_reserved x"
        using leaky_invD(1,2) [OF inv] x by (simp add: core_def ledger_def)
      with False show ?thesis
        using settled_sums(3) [OF dm refs(2), of ?i] expire_rows_live [OF inv batch x] same by (simp add: r)
    qed
  qed
  assume cov: "covered b" "covered c"
  have "qty_reserved x - batch_qty ris (inv_id x) \<le> qty_available x" and "q (inv_id x) \<le> qty_available x"
    if x: "x \<in> set (inventories b)" for x
    using cov x batch_qty_nonneg [OF inv batch, of "inv_id x"] by (auto simp: covered_def rows(1) intro: order_trans)
  then show "covered d" by (simp add: covered_def rows(2))
qed

subsection \<open>The invariant of the replicas\<close>

text \<open>
  A running sweep has locked distinct reservations that are due, in what it has read and still
  in what is committed: all that has been committed since then concerns other reservations.
\<close>

definition sweep_ok :: "int \<Rightarrow> database \<Rightarrow> int list \<Rightarrow> database \<Rightarrow> exn + database \<Rightarrow> bool" where
  "sweep_ok t cur ids read made \<longleftrightarrow>
     (\<exists>ris adj Y. ids = map (res_id \<circ> fst) ris \<and> leaky_inv adj read \<and> covered read \<and> batch_ok read ris \<and>
        batch_ids ris \<subseteq> due_ids t read \<and> settled Y read cur \<and> Y \<inter> batch_ids ris = {} \<and>
        (\<forall>m. made = Inr m \<longrightarrow> m = fold expire_row ris read))"

definition replicas_ok :: "int \<Rightarrow> database \<Rightarrow> replicas \<Rightarrow> bool" where
  "replicas_ok t d0 s \<longleftrightarrow>
     (\<exists>adj. leaky_inv adj (db (place s))) \<and> covered (db (place s)) \<and>
     (\<exists>Z \<subseteq> due_ids t d0. settled Z d0 (db (place s)) \<and> int (card Z) = sum_list (counts s)) \<and>
     (\<forall>i < length (sweeps s). \<forall>ids read made. sweeps s ! i = Sweeping ids read made \<longrightarrow>
        sweep_ok t (db (place s)) ids read made) \<and>
     (\<forall>i < length (sweeps s). \<forall>j < length (sweeps s). i \<noteq> j \<longrightarrow>
        set (claimed_by (sweeps s ! i)) \<inter> set (claimed_by (sweeps s ! j)) = {})"

lemma replicas_okD:
  assumes "replicas_ok t d0 s"
  shows "\<exists>adj. leaky_inv adj (db (place s))" and "covered (db (place s))"
    and "\<exists>Z \<subseteq> due_ids t d0. settled Z d0 (db (place s)) \<and> int (card Z) = sum_list (counts s)"
    and "i < length (sweeps s) \<Longrightarrow> sweeps s ! i = Sweeping ids read made \<Longrightarrow> sweep_ok t (db (place s)) ids read made"
    and "i < length (sweeps s) \<Longrightarrow> j < length (sweeps s) \<Longrightarrow> i \<noteq> j \<Longrightarrow>
      set (claimed_by (sweeps s ! i)) \<inter> set (claimed_by (sweeps s ! j)) = {}"
  using assms unfolding replicas_ok_def by blast+

lemma sweep_due:
  assumes "sweep_ok t cur ids read made"
  shows "set ids \<subseteq> due_ids t cur" and "distinct ids"
proof -
  obtain ris Y where ids: "ids = map (res_id \<circ> fst) ris" and "batch_ok read ris" and due: "batch_ids ris \<subseteq> due_ids t read"
    and Y: "settled Y read cur" "Y \<inter> batch_ids ris = {}"
    using assms unfolding sweep_ok_def by blast
  then show "distinct ids" by (simp add: batch_ok_def)
  have "set ids = batch_ids ris" by (simp only: ids batch_ids_def)
  then show "set ids \<subseteq> due_ids t cur" using due Y by (auto simp: settled_due)
qed

lemma skip_locked_batch:
  assumes "keys_ok d" and "now \<le> t"
  shows "batch_ok d (get_expired_skip_locked now L d limit)"
    and "batch_ids (get_expired_skip_locked now L d limit) \<subseteq> due_ids t d"
    and "batch_ids (get_expired_skip_locked now L d limit) \<inter> L = {}"
proof -
  let ?P = "\<lambda>r. past_ttl now r \<and> res_id r \<notin> L"
  have "map (res_id \<circ> fst) (get_expired_skip_locked now L d limit) = take (nat limit) (map res_id (filter ?P (reservations d)))"
    by (simp add: get_expired_skip_locked_def take_map comp_def)
  then show "batch_ok d (get_expired_skip_locked now L d limit)"
    using assms(1)
    by (auto simp: batch_ok_def get_expired_skip_locked_def past_ttl_def keys_ok_def distinct_map_filter dest!: in_set_takeD)
  show "batch_ids (get_expired_skip_locked now L d limit) \<subseteq> due_ids t d"
    and "batch_ids (get_expired_skip_locked now L d limit) \<inter> L = {}"
    using assms(2) by (auto simp: batch_ids_def get_expired_skip_locked_def due_ids_def past_ttl_def dest!: in_set_takeD)
qed

lemma claimed_locked:
  "j < length (sweeps s) \<Longrightarrow> set (claimed_by (sweeps s ! j)) \<subseteq> set (locked_ids s)"
  using nth_mem [of j "sweeps s"] by (force simp: locked_ids_def)

lemma start_sweep_ok:
  assumes ok: "replicas_ok t d0 s" and i: "i < length (sweeps s)" and now: "now \<le> t"
  shows "replicas_ok t d0 (start_sweep e now i s)"
proof -
  let ?d = "db (place s)"
  let ?ris = "get_expired_skip_locked now (set (locked_ids s)) ?d sweep_limit"
  obtain adj where inv: "leaky_inv adj ?d" using replicas_okD(1) [OF ok] by blast
  note batch = skip_locked_batch [OF leaky_invD(5) [OF inv] now, of "set (locked_ids s)" sweep_limit]
  obtain res w' where run: "expire_all e ?ris (place s) = (res, w')" by (cases "expire_all e ?ris (place s)")
  define made where "made = (case res of Inl x \<Rightarrow> Inl x | Inr _ \<Rightarrow> Inr (db w'))"
  let ?s = "start_sweep e now i s"
  have new: "sweep_ok t ?d (map (res_id \<circ> fst) ?ris) ?d made"
    unfolding sweep_ok_def
  proof (intro exI conjI allI impI)
    fix m assume "made = Inr m"
    then have "res = Inr ()" "m = db w'" by (auto simp: made_def split: sum.splits)
    then show "m = fold expire_row ?ris ?d" using expire_all_close [OF _ inv batch(1), of e] run by blast
  qed (use inv batch replicas_okD(2) [OF ok] settled_refl in auto)
  have step: "sweeps ?s = (sweeps s)[i := Sweeping (map (res_id \<circ> fst) ?ris) ?d made]"
    "db (place ?s) = ?d" "counts ?s = counts s"
    by (simp_all add: start_sweep_def Let_def run made_def)
  have apart: "set (map (res_id \<circ> fst) ?ris) \<inter> set (claimed_by (sweeps s ! j)) = {}" if "j < length (sweeps s)" for j
    using batch(3) claimed_locked [OF that] unfolding batch_ids_def by blast
  have "set (claimed_by (sweeps ?s ! j)) \<inter> set (claimed_by (sweeps ?s ! k)) = {}"
    if "j < length (sweeps s)" "k < length (sweeps s)" "j \<noteq> k" for j k
    using that replicas_okD(5) [OF ok that] apart [OF that(1)] apart [OF that(2)]
    unfolding step(1) by (cases "j = i"; cases "k = i") (simp_all add: Int_commute)
  moreover have "sweep_ok t ?d ids read made'"
    if "j < length (sweeps s)" "sweeps ?s ! j = Sweeping ids read made'" for j ids read made'
    using that new replicas_okD(4) [OF ok that(1)] unfolding step(1) by (cases "j = i") auto
  ultimately show ?thesis
    using replicas_okD(1-3) [OF ok] step by (simp add: replicas_ok_def)
qed

text \<open>The commit of one sweep leaves the others what they were: they concern other reservations.\<close>

lemma sweep_ok_commit:
  assumes "sweep_ok t c ids read made" and "settled X c d" and "X \<inter> set ids = {}"
  shows "sweep_ok t d ids read made"
proof -
  obtain ris adj Y where ids: "ids = map (res_id \<circ> fst) ris" and ok: "leaky_inv adj read" "covered read" "batch_ok read ris"
      "batch_ids ris \<subseteq> due_ids t read" and Y: "settled Y read c" "Y \<inter> batch_ids ris = {}"
    and made: "\<forall>m. made = Inr m \<longrightarrow> m = fold expire_row ris read"
    using assms(1) unfolding sweep_ok_def by blast
  have "set ids = batch_ids ris" by (simp only: ids batch_ids_def)
  then have "(Y \<union> X) \<inter> batch_ids ris = {}" using Y(2) assms(3) by auto
  with ids ok made settled_trans [OF Y(1) assms(2)] show ?thesis unfolding sweep_ok_def by blast
qed

text \<open>A sweep that ends without a commit only gives its reservations free.\<close>

lemma rest_ok:
  assumes ok: "replicas_ok t d0 s" and i: "i < length (sweeps s)"
  shows "replicas_ok t d0 (s\<lparr>sweeps := (sweeps s)[i := Resting]\<rparr>)"
proof -
  have free: "set (claimed_by ((sweeps s)[i := Resting] ! j)) \<subseteq> set (claimed_by (sweeps s ! j))" for j
    using i by (cases "j = i") simp_all
  have "set (claimed_by ((sweeps s)[i := Resting] ! j)) \<inter> set (claimed_by ((sweeps s)[i := Resting] ! k)) = {}"
    if "j < length (sweeps s)" "k < length (sweeps s)" "j \<noteq> k" for j k
    using replicas_okD(5) [OF ok that] free [of j] free [of k] by blast
  moreover have "sweep_ok t (db (place s)) ids read made"
    if "j < length (sweeps s)" "(sweeps s)[i := Resting] ! j = Sweeping ids read made" for j ids read made
    using that replicas_okD(4) [OF ok that(1)] by (cases "j = i") auto
  ultimately show ?thesis using replicas_okD(1-3) [OF ok] by (simp add: replicas_ok_def)
qed

text \<open>A commit never fails, and counts the reservations it has closed.\<close>

lemma commit_ok:
  assumes ok: "replicas_ok t d0 s" and mine: "sweep_ok t (db (place s)) ids read (Inr m)"
    and apart: "\<And>j. j < length (sweeps s) \<Longrightarrow> set ids \<inter> set (claimed_by (sweeps s ! j)) = {}"
  shows "\<exists>d. commit_after read m (db (place s)) = Inr d \<and>
    replicas_ok t d0 (s\<lparr>place := (place s)\<lparr>db := d\<rparr>, counts := counts s @ [int (length ids)]\<rparr>)"
proof -
  let ?c = "db (place s)"
  obtain ris adj Y where ids: "ids = map (res_id \<circ> fst) ris" and inv: "leaky_inv adj read" and cov: "covered read"
    and batch: "batch_ok read ris" and Y: "settled Y read ?c" "Y \<inter> batch_ids ris = {}" and m: "m = fold expire_row ris read"
    using mine unfolding sweep_ok_def by blast
  have X: "batch_ids ris = set ids" by (simp only: ids batch_ids_def)
  note due = sweep_due [OF mine]
  obtain adj' where inv': "leaky_inv adj' ?c" using replicas_okD(1) [OF ok] by blast
  obtain d q where run: "commit_after read m ?c = Inr d" and set: "settled (batch_ids ris) ?c d"
    and rows: "inventories ?c = map (\<lambda>x. x\<lparr>qty_reserved := q (inv_id x)\<rparr>) (inventories read)"
      "inventories d = map (\<lambda>x. x\<lparr>qty_reserved :=
        if batch_qty ris (inv_id x) = 0 then q (inv_id x) else qty_reserved x - batch_qty ris (inv_id x)\<rparr>) (inventories read)"
    by (rule commit_sweep [OF inv batch m Y])
  have pend: "batch_ids ris \<subseteq> pending_ids ?c" using due(1) due_pending X by blast
  note after = commit_sweep_leaky [OF inv batch Y(1) inv' set pend rows]
  have "sweep_ok t d ids' read' made'" if j: "j < length (sweeps s)" "sweeps s ! j = Sweeping ids' read' made'"
    for j ids' read' made'
    using sweep_ok_commit [OF replicas_okD(4) [OF ok j] set] apart [OF j(1)] j(2) X by simp
  moreover have "\<exists>Z \<subseteq> due_ids t d0. settled Z d0 d \<and> int (card Z) = sum_list (counts s) + int (length ids)"
  proof -
    obtain Z where Z: "Z \<subseteq> due_ids t d0" "settled Z d0 ?c" "int (card Z) = sum_list (counts s)"
      using replicas_okD(3) [OF ok] by blast
    have new: "set ids \<subseteq> due_ids t d0 - Z" using due(1) settled_due [OF Z(2)] by simp
    then have "card (Z \<union> set ids) = card Z + length ids"
      using Z(1) distinct_card [OF due(2)] finite_subset [OF Z(1) finite_due]
      by (subst card_Un_disjoint) auto
    then show ?thesis
      using Z new settled_trans [OF Z(2) set] X by (intro exI [of _ "Z \<union> set ids"]) auto
  qed
  ultimately show ?thesis
    using run after(1) after(2) [OF cov replicas_okD(2) [OF ok]] replicas_okD(5) [OF ok] by (simp add: replicas_ok_def)
qed

lemma end_sweep_ok:
  assumes ok: "replicas_ok t d0 s" and i: "i < length (sweeps s)" "sweeps s ! i = Sweeping ids read made"
  shows "replicas_ok t d0 (end_sweep i ids read made s)"
proof (cases made)
  case (Inl x)
  then show ?thesis using rest_ok [OF ok i(1)] by (simp add: end_sweep_def)
next
  case (Inr m)
  let ?s = "s\<lparr>sweeps := (sweeps s)[i := Resting]\<rparr>"
  have "set ids \<inter> set (claimed_by (sweeps ?s ! j)) = {}" if "j < length (sweeps ?s)" for j
    using replicas_okD(5) [OF ok i(1), of j] i that by (cases "j = i") auto
  moreover have "sweep_ok t (db (place ?s)) ids read (Inr m)" using replicas_okD(4) [OF ok i] Inr by simp
  ultimately show ?thesis
    using commit_ok [OF rest_ok [OF ok i(1)]] by (fastforce simp: end_sweep_def Inr)
qed

lemma run_replicas_ok:
  assumes "replicas_ok t d0 s" and "\<forall>ni \<in> set turns. fst ni \<le> t"
  shows "replicas_ok t d0 (run_replicas e turns s)"
  using assms
proof (induction turns arbitrary: s)
  case Nil
  then show ?case by (simp add: run_replicas_def)
next
  case (Cons ni turns)
  have "replicas_ok t d0 (replica_turn e ni s)"
    using Cons.prems start_sweep_ok [OF Cons.prems(1)] end_sweep_ok [OF Cons.prems(1)]
    by (auto simp: replica_turn_def split: sweep.split)
  then show ?case using Cons by (simp add: run_replicas_def)
qed

lemma all_resting_ok:
  assumes "db_inv (db w)" and "covered (db w)"
  shows "replicas_ok t (db w) (all_resting n w)"
proof -
  have "\<exists>adj. leaky_inv adj (db w)" using assms(1) unfolding db_inv_leaky by blast
  moreover have "\<exists>Z \<subseteq> due_ids t (db w). settled Z (db w) (db w) \<and> int (card Z) = 0"
    using settled_refl by (intro exI [of _ "{}"]) simp
  ultimately show ?thesis using assms(2) by (simp add: replicas_ok_def all_resting_def)
qed

end
