(* ===== verification/Sweep_Properties.thy ===== *)
theory Sweep_Properties
  imports Replicas
begin

section \<open>Properties of overlapping sweeps\<close>

text \<open>
  What SKIP LOCKED gives the replicas, and what it does not: no reservation is expired twice and no live
  item loses its stock to other sweeps, but quantities leak, and a reservation that is created
  while a sweep runs loses its hold.
\<close>

lemma run_all_resting_ok:
  assumes "stock_inv stock (db w)" and "\<forall>ni \<in> set turns. fst ni \<le> t"
  shows "replicas_ok t (db w) (run_replicas e turns (all_resting n w))"
  using assms by (intro run_replicas_ok all_resting_ok) (simp_all add: stock_inv_def)

text \<open>Expiring a set of reservations is a series of expiries of the book.\<close>

lemma expire_set_book:
  assumes "finite Z" and "\<forall>k \<in> Z. bk_status b k = Some Pending"
  shows "book_expiry\<^sup>*\<^sup>* b (b\<lparr>bk_status := (\<lambda>k. if k \<in> Z then Some Expired else bk_status b k)\<rparr>)"
  using assms
proof (induction Z rule: finite_induct)
  case empty
  then show ?case by simp
next
  case (insert k Z)
  let ?b = "b\<lparr>bk_status := (\<lambda>k. if k \<in> Z then Some Expired else bk_status b k)\<rparr>"
  have "bk_settle k Expired ?b = b\<lparr>bk_status := (\<lambda>j. if j \<in> insert k Z then Some Expired else bk_status b j)\<rparr>"
    by (auto simp: bk_settle_def fun_eq_iff)
  moreover have "book_expiry ?b (bk_settle k Expired ?b)" using insert by (intro bk_expire) simp
  ultimately show ?case using insert by (auto intro: rtranclp.rtrancl_into_rtrancl)
qed

lemma find_by_map_of: "map_option g (find_by key k xs) = map_of (map (\<lambda>x. (key x, g x)) xs) k"
  by (induction xs) auto

lemma settled_book:
  assumes set: "settled Z d d'" and Z: "Z \<subseteq> pending_ids d" and keys: "keys_ok d"
  shows "book_expiry\<^sup>*\<^sup>* (book_of d) (book_of d')"
proof -
  note tabs = settled_tables [OF set]
  have pending: "bk_status (book_of d) k = Some Pending" if k: "k \<in> Z" for k
  proof -
    obtain x where x: "x \<in> set (reservations d)" "res_status x = Pending" "k = res_id x"
      using Z k by (auto simp: pending_ids_def)
    show ?thesis unfolding x(3) pending_status [OF keys x(1)] x(2) ..
  qed
  have "finite Z" by (rule finite_subset [OF Z]) (simp add: pending_ids_def)
  have "bk_status (book_of d') k = (if k \<in> Z then Some Expired else bk_status (book_of d) k)" for k
  proof -
    have "find_by res_id k (reservations d') = map_option (\<lambda>r. if res_id r \<in> Z then set_status Expired r else r)
        (find_by res_id k (reservations d))"
      unfolding tabs(1) by (rule find_by_map) simp
    moreover have "res_id x = k" if "find_by res_id k (reservations d) = Some x" for x using find_by_SomeD(2) [OF that] .
    ultimately show ?thesis using pending [of k]
      by (cases "find_by res_id k (reservations d)") (auto simp: get_reservation_def)
  qed
  moreover have "bk_lines (book_of d') k i = bk_lines (book_of d) k i" for k i
  proof -
    have "qty_on i (filter (\<lambda>t. item_reservation_id t = k)
        (map (\<lambda>t. if item_reservation_id t \<in> Z then set_provider_status Released t else t) ts)) =
      qty_on i (filter (\<lambda>t. item_reservation_id t = k) ts)" for ts
      by (induction ts) auto
    then show ?thesis by (simp add: book_of_def items_of_def tabs(2))
  qed
  moreover have "bk_stock (book_of d') i = bk_stock (book_of d) i" for i
    using settled_rows [OF set, of "\<lambda>r. (inv_id r, qty_available r)"]
    by (simp add: book_of_def get_inventory_def find_by_map_of)
  ultimately have "book_of d' = book_of d\<lparr>bk_status := (\<lambda>k. if k \<in> Z then Some Expired else bk_status (book_of d) k)\<rparr>"
    by (intro book.equality) (simp_all add: fun_eq_iff)
  then show ?thesis using expire_set_book [OF \<open>finite Z\<close>, of "book_of d"] pending by simp
qed

text \<open>C9:
  Whatever the schedule of the replicas, no reservation is ever in two running sweeps, and what has been
  committed is exactly the expiry of a set of reservations that were pending and past their time: their
  status and that of their items has changed, every other column but \<open>qty_reserved\<close> is as it was, and the
  counts that were reported add up to the size of that set.  In the abstract book it is a series of expiries.\<close>

theorem sweeps_expire_once:
  assumes "stock_inv stock (db w)" and "\<forall>ni \<in> set turns. fst ni \<le> t"
    and s: "s = run_replicas e turns (all_resting n w)"
  shows "(\<forall>i < length (sweeps s). \<forall>j < length (sweeps s). i \<noteq> j \<longrightarrow>
      set (claimed_by (sweeps s ! i)) \<inter> set (claimed_by (sweeps s ! j)) = {}) \<and>
    (\<exists>Z \<subseteq> due_ids t (db w). settled Z (db w) (db (place s)) \<and> sum_list (counts s) = int (card Z)) \<and>
    book_expiry\<^sup>*\<^sup>* (book_of (db w)) (book_of (db (place s)))"
proof -
  have ok: "replicas_ok t (db w) s" unfolding s by (rule run_all_resting_ok [OF assms(1,2)])
  obtain Z where Z: "Z \<subseteq> due_ids t (db w)" "settled Z (db w) (db (place s))" "int (card Z) = sum_list (counts s)"
    using replicas_okD(3) [OF ok] by blast
  have "book_expiry\<^sup>*\<^sup>* (book_of (db w)) (book_of (db (place s)))"
    using Z(1) due_pending db_inv_keys [OF stock_inv_db_inv [OF assms(1)]] by (intro settled_book [OF Z(2)]) blast+
  then show ?thesis using replicas_okD(5) [OF ok] Z by metis
qed

text \<open>Two reservations that run out at different times, and two replicas whose sweeps overlap.\<close>

definition two_held :: world where
  "two_held = after no_details granting [(0, Request order_both), (10, Request (CreateReservation ''bob'' [(1, 2)]))] start_world"

definition crossing :: "(int \<times> nat) list" where
  "crossing = [(900000005, 0), (900000020, 1), (900000030, 0), (900000040, 1)]"

lemma two_held_stock: "stock_inv sample_stock (db two_held)"
  by code_simp

theorem sweeps_expire_once_witness:
  "\<exists>Z \<subseteq> due_ids 900000040 (db two_held).
     settled Z (db two_held) (db (place (run_replicas granting crossing (all_resting 2 two_held)))) \<and> card Z = 2"
proof -
  let ?s = "run_replicas granting crossing (all_resting 2 two_held)"
  have "\<forall>ni \<in> set crossing. fst ni \<le> 900000040" by (simp add: crossing_def)
  moreover have "sum_list (counts ?s) = 2" by code_simp
  ultimately show ?thesis
    using sweeps_expire_once [OF two_held_stock, of crossing 900000040 ?s granting 2] by auto
qed

text \<open>Sold quantities are those of confirmed items, which a sweep does not touch.\<close>

lemma settled_sold:
  assumes "settled X d d'" and "X \<subseteq> pending_ids d" and "status_ok d"
  shows "sold_sum d' i = sold_sum d i"
proof -
  have "provider_status t \<noteq> ItemConfirmed"
    if t: "t \<in> set (reservation_items d)" "item_reservation_id t \<in> X" for t
  proof -
    obtain r where r: "r \<in> set (reservations d)" "res_status r = Pending" "res_id r = item_reservation_id t"
      using assms(2) t(2) by (auto simp: pending_ids_def)
    then have "t \<in> set (items_of d (res_id r))" using t(1) by (simp add: items_of_def)
    then show ?thesis using pending_items_live [OF assms(3) r(1,2)] by (auto simp: item_done_def)
  qed
  then show ?thesis
    by (auto simp: sold_sum_def settled_tables [OF assms(1)] sold_qty_def intro!: arg_cong [where f = sum_list])
qed

text \<open>C10:
  However sweeps overlap, every row keeps reserved what live items hold on it, reserves no more than it has, and
  what is sold and what is held never exceed the stock it started with.\<close>

theorem sweeps_never_oversell:
  assumes "stock_inv stock (db w)" and "\<forall>ni \<in> set turns. fst ni \<le> t"
    and s: "s = run_replicas e turns (all_resting n w)" and r: "r \<in> set (inventories (db (place s)))"
  shows "live_sum (db (place s)) (inv_id r) \<le> qty_reserved r \<and> qty_reserved r \<le> qty_available r \<and>
    sold_sum (db (place s)) (inv_id r) + live_sum (db (place s)) (inv_id r) \<le> stock (inv_id r)"
proof -
  have ok: "replicas_ok t (db w) s" unfolding s by (rule run_all_resting_ok [OF assms(1,2)])
  obtain adj where adj: "leaky_inv adj (db (place s))" using replicas_okD(1) [OF ok] by blast
  obtain Z where Z: "Z \<subseteq> due_ids t (db w)" "settled Z (db w) (db (place s))" using replicas_okD(3) [OF ok] by blast
  have live: "live_sum (db (place s)) (inv_id r) \<le> qty_reserved r"
    using core_reserved_ge [OF leaky_invD(2) [OF adj] r] leaky_invD(1) [OF adj, of "inv_id r"] by simp
  have cov: "qty_reserved r \<le> qty_available r" using replicas_okD(2) [OF ok] r by (simp add: covered_def)
  have "Z \<subseteq> pending_ids (db w)" using Z(1) due_pending by blast
  then have sold: "sold_sum (db (place s)) (inv_id r) = sold_sum (db w) (inv_id r)"
    using settled_sold [OF Z(2)] assms(1) by (simp add: stock_inv_def db_inv_status)
  have "map (\<lambda>r. (inv_id r, qty_available r)) (inventories (db (place s))) =
      map (\<lambda>r. (inv_id r, qty_available r)) (inventories (db w))"
    by (rule settled_rows [OF Z(2)]) simp
  then have "(inv_id r, qty_available r) \<in> (\<lambda>r. (inv_id r, qty_available r)) ` set (inventories (db w))"
    using r by (metis (mono_tags, lifting) image_eqI list.set_map)
  then have "qty_available r + sold_sum (db w) (inv_id r) = stock (inv_id r)"
    using assms(1) by (auto simp: stock_inv_def conserved_def)
  with live cov sold show ?thesis by simp
qed

theorem sweeps_never_oversell_witness:
  "list_all (\<lambda>r. live_sum (db (place (run_replicas granting (take 3 crossing) (all_resting 2 two_held)))) (inv_id r) \<le> qty_reserved r)
     (inventories (db (place (run_replicas granting (take 3 crossing) (all_resting 2 two_held)))))"
proof -
  have "\<forall>ni \<in> set (take 3 crossing). fst ni \<le> 900000040" by (simp add: crossing_def)
  from sweeps_never_oversell [OF two_held_stock this refl] show ?thesis unfolding list_all_iff by blast
qed

text \<open>
  A sweep that no other overlaps is the sweep of \<open>Worker\<close>: what it has read is still committed, so
  its commit writes what the service made.
\<close>

lemma qty_update_inj: "x\<lparr>qty_reserved := a\<rparr> = x\<lparr>qty_reserved := b\<rparr> \<longleftrightarrow> a = b"
  by (cases x) simp

lemma commit_alone:
  assumes inv: "db_inv d" and batch: "batch_ok d ris"
  shows "commit_after d (fold expire_row ris d) d = Inr (fold expire_row ris d)"
proof -
  let ?m = "fold expire_row ris d"
  note leaky = inv [unfolded db_inv_leaky]
  note after = expire_rows_exact [OF leaky batch]
  obtain d' q where run: "commit_after d ?m d = Inr d'" and set: "settled (batch_ids ris) d d'"
    and q: "inventories d = map (\<lambda>x. x\<lparr>qty_reserved := q (inv_id x)\<rparr>) (inventories d)"
    and rows: "inventories d' = map (\<lambda>x. x\<lparr>qty_reserved :=
      if batch_qty ris (inv_id x) = 0 then q (inv_id x) else qty_reserved x - batch_qty ris (inv_id x)\<rparr>) (inventories d)"
    by (rule commit_sweep [OF leaky batch refl settled_refl]) blast+
  have "map (\<lambda>x. x\<lparr>qty_reserved := q (inv_id x)\<rparr>) (inventories d) = map (\<lambda>x. x\<lparr>qty_reserved := qty_reserved x\<rparr>) (inventories d)"
    using q by simp
  then have "q (inv_id x) = qty_reserved x" if "x \<in> set (inventories d)" for x
    using that unfolding map_eq_conv qty_update_inj by blast
  then have "inventories d' = inventories ?m" unfolding rows after(3) by (auto simp: reserve_def)
  then have "d' = ?m" using set after(2) unfolding settled_def by metis
  with run show ?thesis by simp
qed

theorem lone_replica_sweeps:
  assumes "expire_batch e now sweep_limit w = (Inr k, w')" and inv: "db_inv (db w)" and "i < n"
  shows "run_replicas e [(now, i), (later, i)] (all_resting n w) =
    all_resting n (run_expiry_sweep e now w)\<lparr>counts := [k]\<rparr>"
proof -
  let ?ris = "get_expired_pending now (db w) sweep_limit"
  have run: "expire_all e ?ris w = (Inr (), w')" and k: "k = int (length ?ris)"
    using assms(1) by (auto simp: expire_batch_def Let_def split: prod.splits sum.splits)
  have w': "db w' = fold expire_row ?ris (db w)" by (rule expire_batch_close(1) [OF assms(1) inv])
  have "locked_ids (all_resting n w) = []" by (simp add: locked_ids_def all_resting_def)
  then have 1: "replica_turn e (now, i) (all_resting n w) = \<lparr>place = w\<lparr>sent := sent w'\<rparr>,
      sweeps = (replicate n Resting)[i := Sweeping (map (res_id \<circ> fst) ?ris) (db w) (Inr (db w'))], counts = []\<rparr>"
    using assms(3) by (simp add: replica_turn_def start_sweep_def Let_def skip_nothing run all_resting_def)
  have "commit_after (db w) (db w') (db w) = Inr (db w')"
    unfolding w' by (rule commit_alone [OF inv get_expired_pendingD [OF db_inv_keys [OF inv]]])
  then have "run_replicas e [(now, i), (later, i)] (all_resting n w) = \<lparr>place = w', sweeps = replicate n Resting, counts = [k]\<rparr>"
    using assms(3) unfolding run_replicas_def fold_simps comp_apply id_apply 1
    using list_update_id [of "replicate n Resting" i] by (simp add: replica_turn_def end_sweep_def Let_def k)
  then show ?thesis by (simp add: all_resting_def run_expiry_sweep_def assms(1))
qed

subsection \<open>What overlapping sweeps lose\<close>

text \<open>Two sweeps that have read the same state.\<close>

lemma second_commit_rows:
  assumes inv: "db_inv d" and b1: "batch_ok d ris1" and b2: "batch_ok d ris2"
    and apart: "batch_ids ris1 \<inter> batch_ids ris2 = {}"
  obtains d' where "commit_after d (fold expire_row ris2 d) (fold expire_row ris1 d) = Inr d'"
    and "inventories d' = map (\<lambda>x. x\<lparr>qty_reserved := qty_reserved x -
      (if batch_qty ris2 (inv_id x) = 0 then batch_qty ris1 (inv_id x) else batch_qty ris2 (inv_id x))\<rparr>) (inventories d)"
proof -
  note leaky = inv [unfolded db_inv_leaky]
  note after = expire_rows_exact [OF leaky b1]
  obtain d' q where run: "commit_after d (fold expire_row ris2 d) (fold expire_row ris1 d) = Inr d'"
    and q: "inventories (fold expire_row ris1 d) = map (\<lambda>x. x\<lparr>qty_reserved := q (inv_id x)\<rparr>) (inventories d)"
    and rows: "inventories d' = map (\<lambda>x. x\<lparr>qty_reserved :=
      if batch_qty ris2 (inv_id x) = 0 then q (inv_id x) else qty_reserved x - batch_qty ris2 (inv_id x)\<rparr>) (inventories d)"
    by (rule commit_sweep [OF leaky b2 refl after(2) apart]) blast+
  have "q (inv_id x) = qty_reserved x - batch_qty ris1 (inv_id x)" if "x \<in> set (inventories d)" for x
    using q that unfolding after(3) by (simp add: reserve_def qty_update_inj)
  then show thesis using that run rows by simp
qed

definition made_by ::
    "env \<Rightarrow> (reservation \<times> reservation_item list) list \<Rightarrow> world \<Rightarrow> exn + database \<Rightarrow> world \<Rightarrow> bool" where
  "made_by e ris w made w' \<longleftrightarrow>
     (\<exists>res. expire_all e ris w = (res, w') \<and> made = (case res of Inl x \<Rightarrow> Inl x | Inr _ \<Rightarrow> Inr (db w')))"

lemma made_by_close:
  assumes "made_by e ris w (Inr m) w'" and "leaky_inv adj (db w)" and "batch_ok (db w) ris"
  shows "m = fold expire_row ris (db w)"
proof -
  obtain res where "expire_all e ris w = (res, w')" and "Inr m = (case res of Inl x \<Rightarrow> Inl x | Inr _ \<Rightarrow> Inr (db w'))"
    using assms(1) unfolding made_by_def by blast
  then have "expire_all e ris w = (Inr (), w') \<and> m = db w'" by (cases res) simp_all
  then show ?thesis using expire_all_close [OF _ assms(2,3)] by blast
qed

text \<open>Two sweeps that start one after the other, then end in the same order.\<close>

lemma two_sweeps:
  assumes ris1: "ris1 = get_expired_pending t1 (db w) sweep_limit"
    and ris2: "ris2 = get_expired_skip_locked t2 (batch_ids ris1) (db w) sweep_limit"
  obtains made1 w1 made2 w2 where "made_by e ris1 w made1 w1" and "made_by e ris2 (w\<lparr>sent := sent w1\<rparr>) made2 w2"
    and "run_replicas e [(t1, 0), (t2, 1), (t3, 0), (t4, 1)] (all_resting 2 w) =
      end_sweep 1 (map (res_id \<circ> fst) ris2) (db w) made2 (end_sweep 0 (map (res_id \<circ> fst) ris1) (db w) made1
        \<lparr>place = w\<lparr>sent := sent w2\<rparr>, sweeps = [Sweeping (map (res_id \<circ> fst) ris1) (db w) made1,
          Sweeping (map (res_id \<circ> fst) ris2) (db w) made2], counts = []\<rparr>)"
proof -
  obtain res1 w1 where run1: "expire_all e ris1 w = (res1, w1)" by (cases "expire_all e ris1 w")
  obtain res2 w2 where run2: "expire_all e ris2 (w\<lparr>sent := sent w1\<rparr>) = (res2, w2)"
    by (cases "expire_all e ris2 (w\<lparr>sent := sent w1\<rparr>)")
  define made1 where "made1 = (case res1 of Inl x \<Rightarrow> Inl x | Inr _ \<Rightarrow> Inr (db w1))"
  define made2 where "made2 = (case res2 of Inl x \<Rightarrow> Inl x | Inr _ \<Rightarrow> Inr (db w2))"
  define ids1 where "ids1 = map (res_id \<circ> fst) ris1"
  define ids2 where "ids2 = map (res_id \<circ> fst) ris2"
  let ?s1 = "\<lparr>place = w\<lparr>sent := sent w1\<rparr>, sweeps = [Sweeping ids1 (db w) made1, Resting], counts = []\<rparr>"
  let ?s2 = "\<lparr>place = w\<lparr>sent := sent w2\<rparr>, sweeps = [Sweeping ids1 (db w) made1, Sweeping ids2 (db w) made2], counts = []\<rparr>"
  have "all_resting 2 w = \<lparr>place = w, sweeps = [Resting, Resting], counts = []\<rparr>"
    by (simp add: all_resting_def numeral_2_eq_2)
  then have 1: "replica_turn e (t1, 0) (all_resting 2 w) = ?s1"
    by (simp add: replica_turn_def start_sweep_def Let_def locked_ids_def skip_nothing ris1 [symmetric] run1 made1_def ids1_def)
  have "get_expired_skip_locked t2 (set ids1) (db w) sweep_limit = ris2" unfolding ris2 ids1_def batch_ids_def ..
  then have 2: "replica_turn e (t2, 1) ?s1 = ?s2"
    by (simp add: replica_turn_def start_sweep_def Let_def locked_ids_def run2 made2_def ids2_def)
  have 3: "replica_turn e (t3, 0) ?s2 = end_sweep 0 ids1 (db w) made1 ?s2" by (simp add: replica_turn_def)
  have "replica_turn e (t4, 1) (end_sweep 0 ids1 (db w) made1 ?s2) =
      end_sweep 1 ids2 (db w) made2 (end_sweep 0 ids1 (db w) made1 ?s2)"
    by (simp add: replica_turn_def end_sweep_def Let_def split: sum.split)
  then have "run_replicas e [(t1, 0), (t2, 1), (t3, 0), (t4, 1)] (all_resting 2 w) =
      end_sweep 1 ids2 (db w) made2 (end_sweep 0 ids1 (db w) made1 ?s2)"
    unfolding run_replicas_def fold_simps comp_apply id_apply 1 2 3 .
  then show thesis
    using that [of made1 w1 made2 w2] run1 run2 by (auto simp: made_by_def made1_def made2_def ids1_def ids2_def)
qed

text \<open>C11:
  Two replicas whose sweeps overlap both report their reservations as expired, but a row on which both have
  items gets back only the quantity of the sweep that commits last; the other quantity stays reserved
  for ever.  The docstring of \<open>expire_batch\<close> calls the sweep safe to run across replicas.\<close>

theorem overlapping_sweeps_leak:
  assumes inv: "db_inv (db w)"
    and s: "s = run_replicas e [(t1, 0), (t2, 1), (t3, 0), (t4, 1)] (all_resting 2 w)"
    and both: "length (counts s) = 2"
    and ris1: "ris1 = get_expired_pending t1 (db w) sweep_limit"
    and ris2: "ris2 = get_expired_skip_locked t2 (batch_ids ris1) (db w) sweep_limit"
  shows "counts s = [int (length ris1), int (length ris2)] \<and>
    inventories (db (place s)) = map (\<lambda>x. x\<lparr>qty_reserved := qty_reserved x -
      (if batch_qty ris2 (inv_id x) = 0 then batch_qty ris1 (inv_id x) else batch_qty ris2 (inv_id x))\<rparr>) (inventories (db w))"
proof -
  note keys = db_inv_keys [OF inv] and leaky = inv [unfolded db_inv_leaky]
  have b1: "batch_ok (db w) ris1" unfolding ris1 by (rule get_expired_pendingD [OF keys])
  have b2: "batch_ok (db w) ris2" "batch_ids ris1 \<inter> batch_ids ris2 = {}"
    unfolding ris2 using skip_locked_batch [OF keys order_refl, of t2 "batch_ids ris1" sweep_limit] by blast+
  obtain made1 w1 made2 w2 where run: "made_by e ris1 w made1 w1" "made_by e ris2 (w\<lparr>sent := sent w1\<rparr>) made2 w2"
    and s': "s = end_sweep 1 (map (res_id \<circ> fst) ris2) (db w) made2 (end_sweep 0 (map (res_id \<circ> fst) ris1) (db w) made1
      \<lparr>place = w\<lparr>sent := sent w2\<rparr>, sweeps = [Sweeping (map (res_id \<circ> fst) ris1) (db w) made1,
        Sweeping (map (res_id \<circ> fst) ris2) (db w) made2], counts = []\<rparr>)"
    unfolding s by (rule two_sweeps [OF ris1 ris2])
  obtain m1 m2 where made: "made1 = Inr m1" "made2 = Inr m2"
    using both unfolding s' by (auto simp: end_sweep_def Let_def split: sum.splits)
  have m: "m1 = fold expire_row ris1 (db w)" "m2 = fold expire_row ris2 (db w)"
    using made_by_close [OF run(1) [unfolded made] leaky b1] made_by_close [OF run(2) [unfolded made]] leaky b2(1)
    by simp_all
  have first: "commit_after (db w) m1 (db w) = Inr m1" unfolding m by (rule commit_alone [OF inv b1])
  obtain d' where second: "commit_after (db w) m2 m1 = Inr d'"
    and rows: "inventories d' = map (\<lambda>x. x\<lparr>qty_reserved := qty_reserved x -
      (if batch_qty ris2 (inv_id x) = 0 then batch_qty ris1 (inv_id x) else batch_qty ris2 (inv_id x))\<rparr>) (inventories (db w))"
    unfolding m by (rule second_commit_rows [OF inv b1 b2])
  show ?thesis
    unfolding s' using first second rows by (simp add: end_sweep_def Let_def made)
qed

theorem overlapping_sweeps_leak_witness:
  "counts (run_replicas granting crossing (all_resting 2 two_held)) = [1, 1] \<and>
   map qty_reserved (inventories (db two_held)) = [5, 4] \<and>
   map qty_reserved (inventories (db (place (run_replicas granting crossing (all_resting 2 two_held))))) = [3, 2]"
proof -
  let ?ris1 = "get_expired_pending 900000005 (db two_held) sweep_limit"
  let ?ris2 = "get_expired_skip_locked 900000020 (batch_ids ?ris1) (db two_held) sweep_limit"
  have inv: "db_inv (db two_held)" by (rule stock_inv_db_inv [OF two_held_stock])
  have both: "length (counts (run_replicas granting crossing (all_resting 2 two_held))) = 2"
    and rows: "map (\<lambda>x. (qty_reserved x, batch_qty ?ris1 (inv_id x), batch_qty ?ris2 (inv_id x))) (inventories (db two_held)) =
      [(5, 3, 2), (4, 2, 0)]"
    and lens: "length ?ris1 = 1" "length ?ris2 = 1"
    by code_simp+
  have result: "counts (run_replicas granting crossing (all_resting 2 two_held)) = [1, 1]"
    "inventories (db (place (run_replicas granting crossing (all_resting 2 two_held)))) = map (\<lambda>x. x\<lparr>qty_reserved := qty_reserved x -
      (if batch_qty ?ris2 (inv_id x) = 0 then batch_qty ?ris1 (inv_id x) else batch_qty ?ris2 (inv_id x))\<rparr>) (inventories (db two_held))"
    using overlapping_sweeps_leak [OF inv _ _ refl refl, of "run_replicas granting crossing (all_resting 2 two_held)" granting
      900000005 900000020 900000030 900000040] both lens by (simp_all add: crossing_def)
  have "map qty_reserved (inventories (db (place (run_replicas granting crossing (all_resting 2 two_held))))) =
      map (\<lambda>(r, q1, q2). r - (if q2 = 0 then q1 else q2)) [(5, 3, 2), (4, 2, 0)]"
    unfolding result(2) rows [symmetric] by (simp add: comp_def)
  moreover have "map qty_reserved (inventories (db two_held)) = map fst [(5::int, 3::int, 2::int), (4, 2, 0)]"
    unfolding rows [symmetric] by (simp add: comp_def)
  ultimately show ?thesis using result(1) by simp
qed

subsection \<open>A reservation created while a sweep runs\<close>

lemma write_table_append:
  assumes "\<And>y. y \<in> set ys \<Longrightarrow> key y \<notin> key ` set base"
  shows "write_table key put base mine (xs @ ys) = write_table key put base mine xs @ ys"
proof -
  have "find_by key (key y) base = None" if "y \<in> set ys" for y using assms [OF that] by (simp add: find_by_None)
  then have "write_table key put base mine ys = ys" by (auto simp: write_table_def intro: map_idI)
  then show ?thesis by (simp add: write_table_def)
qed

text \<open>The tables after the commit of the sweep: its own reservations and items, then the new ones.\<close>

lemma sweep_over_create:
  assumes inv: "db_inv b" and batch: "batch_ok b ris"
    and r: "res_id r = next_reservation_id b" and ts: "numbered (next_item_id b) ts"
    and c: "c = create_effect r ts its lm b" and m: "m = fold expire_row ris b"
  obtains d where "commit_after b m c = Inr d" and "reservations d = reservations m @ [r]"
    and "reservation_items d = reservation_items m @ ts"
    and "inventories d = map (\<lambda>x. put_row x (reserve (- batch_qty ris (inv_id x)) x)
      (reserve ((1 + row_booking b x) * booked its lm (inv_id x)) x)) (inventories b)"
proof -
  let ?d = "flush_updates b m c"
  note keys = db_inv_keys [OF inv] and after = expire_rows_exact [OF inv [unfolded db_inv_leaky] batch, folded m]
  note tm = settled_tables [OF after(2)]
  have dist: "distinct (map inv_id (inventories b))" "distinct (map item_id (reservation_items b))"
    "distinct (map res_id (reservations b))"
    using keys by (simp_all add: keys_ok_def)
  have new: "res_id r \<notin> res_id ` set (reservations b)" "t \<in> set ts \<Longrightarrow> item_id t \<notin> item_id ` set (reservation_items b)" for t
    using keys r ts by (force simp: keys_ok_def numbered_def)+
  have "commit_after b m c = Inr ?d" by (simp add: commit_after_def tm(5) filter_False)
  moreover have "reservations ?d = reservations m @ [r]"
  proof -
    have "write_table res_id put_reservation (reservations b) (reservations m) (reservations b) = reservations m"
      unfolding tm(1) by (rule write_table_alone [OF dist(3)]) (auto simp: put_reservation_def changed_def set_status_def)
    moreover have "write_table res_id put_reservation (reservations b) (reservations m) (reservations b @ [r]) =
        write_table res_id put_reservation (reservations b) (reservations m) (reservations b) @ [r]"
      by (rule write_table_append) (use new(1) in simp)
    ultimately show ?thesis by (simp add: flush_updates_def c frame_simps)
  qed
  moreover have "reservation_items ?d = reservation_items m @ ts"
  proof -
    have "write_table item_id put_item (reservation_items b) (reservation_items m) (reservation_items b) = reservation_items m"
      unfolding tm(2) by (rule write_table_alone [OF dist(2)]) (auto simp: put_item_def changed_def set_provider_status_def)
    moreover have "write_table item_id put_item (reservation_items b) (reservation_items m) (reservation_items b @ ts) =
        write_table item_id put_item (reservation_items b) (reservation_items m) (reservation_items b) @ ts"
      by (rule write_table_append) (rule new(2))
    ultimately show ?thesis by (simp add: flush_updates_def c frame_simps)
  qed
  moreover have "inventories ?d = map (\<lambda>x. put_row x (reserve (- batch_qty ris (inv_id x)) x)
      (reserve ((1 + row_booking b x) * booked its lm (inv_id x)) x)) (inventories b)"
  proof -
    have "write_table inv_id put_row (inventories b) (inventories m) (inventories c) =
        map (\<lambda>x. put_row x (reserve (- batch_qty ris (inv_id x)) x)
          (reserve ((1 + row_booking b x) * booked its lm (inv_id x)) x)) (inventories b)"
      unfolding after(3) c create_effect_frame by (rule write_table_maps [OF dist(1)]) (simp_all add: reserve_def)
    then show ?thesis by (simp add: flush_updates_def)
  qed
  ultimately show thesis by (rule that)
qed

text \<open>C12:
  A reservation that is created between the moment a sweep has read its rows and its commit loses its hold:
  on every row from which the sweep releases something, the commit writes the quantity it has read less
  what it releases.  The new reservation is pending and its items are live, but what they hold on
  that row is no longer reserved.\<close>

theorem sweep_forgets_create:
  assumes sweep: "expire_batch e1 now1 limit w = (Inr n, w1)" and create: "create e2 now2 user its w = (Inr r, w2)"
    and inv: "db_inv (db w)" and ris: "ris = get_expired_pending now1 (db w) limit"
  shows "\<exists>d. commit_after (db w) (db w1) (db w2) = Inr d \<and> get_reservation d (res_id r) = Some r \<and>
    (\<forall>x \<in> set (inventories (db w)). batch_qty ris (inv_id x) \<noteq> 0 \<longrightarrow>
       get_inventory d (inv_id x) = Some (x\<lparr>qty_reserved := qty_reserved x - batch_qty ris (inv_id x)\<rparr>) \<and>
       live_sum d (inv_id x) =
         live_sum (db w) (inv_id x) - batch_qty ris (inv_id x) + qty_on (inv_id x) (items_of d (res_id r)))"
  using create db_inv_keys [OF inv]
proof (rule create_InrD)
  fix lm ts
  assume r: "r = new_reservation user (now2 + ttl e2) now2 (next_reservation_id (db w))"
    and ts: "list_all2 (created_item (db w) (res_id r) lm) its ts" "numbered (next_item_id (db w)) ts"
    and w2: "db w2 = create_effect r ts its lm (db w)"
  note keys = db_inv_keys [OF inv] and leaky = inv [unfolded db_inv_leaky]
  have batch: "batch_ok (db w) ris" unfolding ris by (rule get_expired_pendingD [OF keys])
  have w1: "db w1 = fold expire_row ris (db w)" unfolding ris by (rule expire_batch_close(1) [OF sweep inv])
  have rid: "res_id r = next_reservation_id (db w)" by (simp add: r new_reservation_def)
  obtain d where run: "commit_after (db w) (db w1) (db w2) = Inr d"
    and tabs: "reservations d = reservations (db w1) @ [r]" "reservation_items d = reservation_items (db w1) @ ts"
    and rows: "inventories d = map (\<lambda>x. put_row x (reserve (- batch_qty ris (inv_id x)) x)
      (reserve ((1 + row_booking (db w) x) * booked its lm (inv_id x)) x)) (inventories (db w))"
    by (rule sweep_over_create [OF inv batch rid ts(2) w2 w1])
  note after = expire_rows_exact [OF leaky batch, folded w1]
  have below: "\<forall>x \<in> set (reservations (db w1)). res_id x < res_id r"
    using leaky_invD(5) [OF after(1)] settled_tables(6) [OF after(2)] rid by (simp add: keys_ok_def)
  then have "find_by res_id (res_id r) (reservations (db w1)) = None" by (auto simp: find_by_None)
  then have found: "get_reservation d (res_id r) = Some r" by (simp add: get_reservation_def tabs(1) find_by_append)
  have "\<forall>t \<in> set (reservation_items (db w1)). item_reservation_id t \<in> res_id ` set (reservations (db w1))"
    using leaky_invD(2) [OF after(1)] by (simp add: core_def refs_ok_def item_ok_def)
  then have "filter (\<lambda>t. item_reservation_id t = res_id r) (reservation_items (db w1)) = []"
    using below by (fastforce simp: filter_empty_conv)
  moreover have "\<forall>t \<in> set ts. item_reservation_id t = res_id r"
    using created_members [OF ts(1)] by (auto simp: created_item_def)
  ultimately have own: "items_of d (res_id r) = ts" by (simp add: items_of_def tabs(2))
  have live: "live_sum d i = live_sum (db w1) i + qty_on i ts" for i
    using created_sums(1,2) [OF ts(1), of i] by (simp add: live_sum_def tabs(2) qty_on_def)
  have "get_inventory d (inv_id x) = Some (x\<lparr>qty_reserved := qty_reserved x - batch_qty ris (inv_id x)\<rparr>)"
    if "x \<in> set (inventories (db w))" "batch_qty ris (inv_id x) \<noteq> 0" for x
  proof -
    have "find_by inv_id (inv_id x) (map f (inventories (db w))) = Some (f x)" if "\<And>x. inv_id (f x) = inv_id x"
      for f :: "inventory \<Rightarrow> inventory"
      using keys \<open>x \<in> _\<close> that by (subst find_by_map) (simp_all add: find_by_distinct keys_ok_def)
    then show ?thesis using that(2) by (simp add: get_inventory_def rows put_row_def reserve_def changed_def)
  qed
  with run found own live expire_rows_live [OF leaky batch, folded w1] show ?thesis by auto
qed

theorem sweep_forgets_create_witness:
  "\<exists>d. commit_after (db held_world) (db (snd (expire_batch granting 1000000000 100 held_world)))
      (db (snd (create granting 20 ''bob'' [(1, 2)] held_world))) = Inr d \<and>
    map_option qty_reserved (get_inventory d 1) = Some 0 \<and>
    live_sum d 1 = qty_on 1 (items_of d 2)"
proof -
  let ?s = "expire_batch granting 1000000000 100 held_world" and ?c = "create granting 20 ''bob'' [(1, 2)] held_world"
  let ?ris = "get_expired_pending 1000000000 (db held_world) 100"
  have "case fst ?s of Inl x \<Rightarrow> False | Inr n \<Rightarrow> True"
    and "case fst ?c of Inl x \<Rightarrow> False | Inr r \<Rightarrow> res_id r = 2"
    and q: "batch_qty ?ris 1 = 3" "live_sum (db held_world) 1 = 3"
    and rows: "map inv_id (inventories (db held_world)) = [1, 2]" "map qty_reserved (inventories (db held_world)) = [3, 4]"
    by code_simp+
  then obtain n r where run: "?s = (Inr n, snd ?s)" "?c = (Inr r, snd ?c)" and r: "res_id r = 2"
    by (auto simp: prod_eq_iff split: sum.splits)
  obtain x y where "inventories (db held_world) = [x, y]" "inv_id x = 1" "qty_reserved x = 3"
    using rows by (auto simp: map_eq_Cons_conv)
  then have x: "x \<in> set (inventories (db held_world))" "inv_id x = 1" "qty_reserved x = 3" by simp_all
  show ?thesis using sweep_forgets_create [OF run held_inv refl] x q r by fastforce
qed

end
