(* ===== verification/Settle_Locks.thy ===== *)
theory Settle_Locks
  imports Replicas
begin

section \<open>The order of locks in confirm, cancel and the sweep\<close>

text \<open>
  \<open>confirm\<close> and \<open>cancel\<close> lock the inventory rows of the items one after the other (SELECT ... FOR UPDATE);
  the UPDATE of the reservation, and with it the lock of its row, comes at the flush.  A sweep locks the
  reservations first, when it selects them, and the rows then.  Here only the locks are looked at: what
  each session wants, in the order of the code, and who holds what.  A session that wants a lock of
  another waits; one that has got all its locks commits and gives them back.
\<close>

datatype lock = RowLock int | ReservationLock int

definition confirm_locks :: "database \<Rightarrow> reservation \<Rightarrow> lock list" where
  "confirm_locks d r = map (RowLock \<circ> item_inventory_id) (items_of d (res_id r)) @ [ReservationLock (res_id r)]"

definition release_locks :: "reservation_item list \<Rightarrow> lock list" where
  "release_locks ts = map (RowLock \<circ> item_inventory_id) (filter (\<lambda>t. \<not> item_done t) ts)"

definition cancel_locks :: "database \<Rightarrow> reservation \<Rightarrow> lock list" where
  "cancel_locks d r = release_locks (items_of d (res_id r)) @ [ReservationLock (res_id r)]"

definition sweep_locks :: "(reservation \<times> reservation_item list) list \<Rightarrow> lock list" where
  "sweep_locks ris = map (ReservationLock \<circ> res_id \<circ> fst) ris @ concat (map (release_locks \<circ> snd) ris)"

record contention =
  wanted :: "lock list list"
  holder :: "lock \<Rightarrow> nat option"

definition lock_turn :: "nat \<Rightarrow> contention \<Rightarrow> contention" where
  "lock_turn i s =
     (if i < length (wanted s) then
        (case wanted s ! i of
           [] \<Rightarrow> s\<lparr>holder := (\<lambda>l. if holder s l = Some i then None else holder s l)\<rparr>
         | l # ls \<Rightarrow>
             if holder s l = None \<or> holder s l = Some i
             then s\<lparr>wanted := (wanted s)[i := ls], holder := (holder s)(l \<mapsto> i)\<rparr>
             else s)
      else s)"

definition lock_turns :: "nat list \<Rightarrow> contention \<Rightarrow> contention" where
  "lock_turns is s = fold lock_turn is s"

definition contend :: "lock list list \<Rightarrow> contention" where
  "contend ls = \<lparr>wanted = ls, holder = (\<lambda>l. None)\<rparr>"

text \<open>Two sessions wait for each other: no turn of either changes anything, until the database ends one wait.\<close>

definition deadlocked :: "contention \<Rightarrow> bool" where
  "deadlocked s \<longleftrightarrow> (\<forall>i < length (wanted s). wanted s ! i \<noteq> [] \<and> lock_turn i s = s)"

lemma lock_turns_append: "lock_turns (xs @ ys) s = lock_turns ys (lock_turns xs s)"
  by (simp add: lock_turns_def)

text \<open>A session takes a run of locks that nobody else holds.\<close>

lemma take_locks:
  assumes "i < length (wanted s)" and "wanted s ! i = xs @ ys"
    and "\<forall>l \<in> set xs. holder s l = None \<or> holder s l = Some i"
  shows "lock_turns (replicate (length xs) i) s =
    s\<lparr>wanted := (wanted s)[i := ys], holder := (\<lambda>l. if l \<in> set xs then Some i else holder s l)\<rparr>"
  using assms
proof (induction xs arbitrary: s)
  case Nil
  then show ?case using list_update_id [of "wanted s" i] by (simp add: lock_turns_def)
next
  case (Cons l xs)
  let ?s = "s\<lparr>wanted := (wanted s)[i := xs @ ys], holder := (holder s)(l \<mapsto> i)\<rparr>"
  have "lock_turn i s = ?s" using Cons.prems by (simp add: lock_turn_def)
  then have "lock_turns (replicate (length (l # xs)) i) s = lock_turns (replicate (length xs) i) ?s"
    by (simp add: lock_turns_def)
  also have "\<dots> = ?s\<lparr>wanted := (wanted ?s)[i := ys], holder := (\<lambda>l'. if l' \<in> set xs then Some i else holder ?s l')\<rparr>"
    using Cons.prems by (intro Cons.IH) auto
  also have "\<dots> = s\<lparr>wanted := (wanted s)[i := ys], holder := (\<lambda>l'. if l' \<in> set (l # xs) then Some i else holder s l')\<rparr>"
    by (simp add: fun_eq_iff)
  finally show ?case .
qed

text \<open>
  Sessions 0 and 1 with disjoint first parts \<open>xs\<close> and \<open>us\<close>, each of which then wants a lock of the other.
\<close>

lemma crossed_deadlock:
  assumes "a \<in> set us" and "b \<in> set xs" and "set xs \<inter> set us = {}"
  shows "deadlocked (lock_turns (replicate (length xs) 0 @ replicate (length us) 1) (contend [xs @ a # ys, us @ b # vs]))"
proof -
  let ?s = "contend [xs @ a # ys, us @ b # vs]"
  let ?t = "\<lparr>wanted = [a # ys, us @ b # vs], holder = (\<lambda>l. if l \<in> set xs then Some 0 else None)\<rparr>"
  have 1: "lock_turns (replicate (length xs) 0) ?s = ?t"
    by (subst take_locks [where xs = xs and ys = "a # ys"]) (simp_all add: contend_def cong: if_cong)
  have 2: "lock_turns (replicate (length us) 1) ?t = \<lparr>wanted = [a # ys, b # vs],
      holder = (\<lambda>l. if l \<in> set us then Some 1 else if l \<in> set xs then Some 0 else None)\<rparr>"
    using assms(3) by (subst take_locks [where xs = us and ys = "b # vs"]) auto
  have "b \<notin> set us" using assms(2,3) by blast
  then show ?thesis
    using assms(1,2) unfolding lock_turns_append 1 2 by (auto simp: deadlocked_def lock_turn_def less_Suc_eq)
qed

lemma cancel_locks_pending:
  assumes "status_ok d" and "r \<in> set (reservations d)" and "res_status r = Pending"
  shows "release_locks (items_of d (res_id r)) = map (RowLock \<circ> item_inventory_id) (items_of d (res_id r))"
    and "cancel_locks d r = confirm_locks d r"
proof -
  show "release_locks (items_of d (res_id r)) = map (RowLock \<circ> item_inventory_id) (items_of d (res_id r))"
    unfolding release_locks_def using pending_items_live [OF assms] by (subst filter_True) auto
  then show "cancel_locks d r = confirm_locks d r" by (simp add: cancel_locks_def confirm_locks_def)
qed

text \<open>C13:
  A sweep that selects a reservation while its confirmation or cancellation, begun before it ran out, holds
  the rows of its items leads to a deadlock: the request waits for the row of the reservation, the sweep for
  an inventory row.  It can happen to every pending reservation with an item, whatever else is in the batch.\<close>

theorem settling_and_sweep_deadlock:
  assumes inv: "db_inv d" and batch: "ris = get_expired_skip_locked now L d limit"
    and r: "r \<in> fst ` set ris" and item: "items_of d (res_id r) \<noteq> []"
    and wants: "wants = confirm_locks d r \<or> wants = cancel_locks d r"
  shows "\<exists>turns. deadlocked (lock_turns turns (contend [wants, sweep_locks ris]))"
proof -
  let ?rows = "map (RowLock \<circ> item_inventory_id) (items_of d (res_id r))"
  let ?res = "map (ReservationLock \<circ> res_id \<circ> fst) ris" and ?more = "concat (map (release_locks \<circ> snd) ris)"
  note ok = skip_locked_batch(1) [OF db_inv_keys [OF inv] order_refl, of now L limit, folded batch]
  obtain ri where ri: "ri \<in> set ris" "fst ri = r" using r by auto
  then have pend: "r \<in> set (reservations d)" "res_status r = Pending" and ts: "snd ri = items_of d (res_id r)"
    using ok by (auto simp: batch_ok_def)
  note locks = cancel_locks_pending [OF db_inv_status [OF inv] pend]
  have "release_locks (snd ri) = ?rows" unfolding ts by (rule locks(1))
  then have "set ?rows \<subseteq> set ?more" using ri(1) by auto
  then have "\<exists>l \<in> set ?more. l \<in> set ?rows" using item by (cases "items_of d (res_id r)") auto
  then obtain us b vs where more: "?more = us @ b # vs" "b \<in> set ?rows" "\<forall>l \<in> set us. l \<notin> set ?rows"
    using split_list_first_prop [of ?more "\<lambda>l. l \<in> set ?rows"] by blast
  have "ReservationLock (res_id r) \<in> set (?res @ us)" using ri by force
  moreover have "set ?rows \<inter> set (?res @ us) = {}" using more(3) by auto
  ultimately show ?thesis
    using crossed_deadlock [of "ReservationLock (res_id r)" "?res @ us" b ?rows "[]" vs] more(1,2)
    using wants unfolding locks(2) confirm_locks_def sweep_locks_def by (metis append.assoc)
qed

theorem settling_and_sweep_deadlock_witness:
  "\<exists>r turns. get_reservation (db held_world) 1 = Some r \<and>
     deadlocked (lock_turns turns (contend [confirm_locks (db held_world) r,
       sweep_locks (get_expired_skip_locked 1000000000 {} (db held_world) 100)]))"
proof -
  let ?ris = "get_expired_skip_locked 1000000000 {} (db held_world) 100"
  have "map (res_id \<circ> fst) ?ris = [1]" and "items_of (db held_world) 1 \<noteq> []"
    and "map_option res_id (get_reservation (db held_world) 1) = Some 1" by code_simp+
  then obtain r where r: "r \<in> fst ` set ?ris" "res_id r = 1" by (auto simp: map_eq_Cons_conv)
  then have "r \<in> set (reservations (db held_world))"
    by (auto simp: get_expired_skip_locked_def dest!: in_set_takeD)
  then have "get_reservation (db held_world) 1 = Some r"
    using db_inv_keys [OF held_inv] r(2) by (auto simp: get_reservation_def keys_ok_def find_by_eq_iff)
  then show ?thesis
    using settling_and_sweep_deadlock [OF held_inv refl r(1), of "confirm_locks (db held_world) r"] \<open>items_of (db held_world) 1 \<noteq> []\<close> r(2) by auto
qed

end
