(* ===== verification/Alembic_Env.thy ===== *)
theory Alembic_Env
  imports Migrations Settings
begin

section \<open>The environment of the migrations (migrations/env.py)\<close>

text \<open>
  env.py stores the DATABASE_URL of the settings as an option of Alembic's configuration, which is
  Python's \<open>ConfigParser\<close>: a value with a percent sign that is neither doubled nor the start of a reference
  \<open>%(name)s\<close> is refused when it is stored, and reading replaces both.  Then the script runs the
  migrations, offline into a script or online over an engine of its own.  Alembic is a parameter: the mode, the
  name of the ini file, the options a reference can name, whether the database answers, and
  \<open>run_migrations\<close> on a state of its own.
\<close>

subsection \<open>Interpolation of ConfigParser\<close>

text \<open>A reference at the start of a text: its name, and what follows it.\<close>

definition key_ref :: "string \<Rightarrow> (string \<times> string) option" where
  "key_ref cs =
     (case cs of
        a # b # rest \<Rightarrow>
          if a = CHR 0x25 \<and> b = CHR 0x28 then
            (let name = takeWhile (\<lambda>c. c \<noteq> CHR 0x29) rest in
             case dropWhile (\<lambda>c. c \<noteq> CHR 0x29) rest of
               p # s # after \<Rightarrow> if name \<noteq> [] \<and> s = CHR 0x73 then Some (name, after) else None
             | _ \<Rightarrow> None)
          else None
      | _ \<Rightarrow> None)"

lemma key_ref_shorter: "key_ref cs = Some (n, after) \<Longrightarrow> length after < length cs"
proof (cases cs)
  case (Cons a cs')
  assume ref: "key_ref cs = Some (n, after)"
  show ?thesis
  proof (cases cs')
    case (Cons b rest)
    have "length (dropWhile (\<lambda>c. c \<noteq> CHR 0x29) rest) \<le> length rest" by (rule length_dropWhile_le)
    with ref show ?thesis unfolding Cons \<open>cs = a # cs'\<close>
      by (auto simp: key_ref_def Let_def split: if_splits list.splits)
  qed (use ref \<open>cs = a # cs'\<close> in \<open>simp add: key_ref_def\<close>)
qed (simp add: key_ref_def)

lemma no_key_ref: "a \<noteq> CHR 0x25 \<or> hd cs \<noteq> CHR 0x28 \<Longrightarrow> key_ref (a # cs) = None"
  by (cases cs) (auto simp: key_ref_def)

text \<open>\<open>before_set\<close>: without the doubled signs and the references, no percent sign may be left.\<close>

fun drop_escapes :: "string \<Rightarrow> string" where
  "drop_escapes [] = []"
| "drop_escapes [c] = [c]"
| "drop_escapes (c # c' # cs) =
     (if c = CHR 0x25 \<and> c' = CHR 0x25 then drop_escapes cs else c # drop_escapes (c' # cs))"

function drop_refs :: "string \<Rightarrow> string" where
  "drop_refs cs =
     (case key_ref cs of
        Some (n, after) \<Rightarrow> drop_refs after
      | None \<Rightarrow> (case cs of [] \<Rightarrow> [] | c # rest \<Rightarrow> c # drop_refs rest))"
  by pat_completeness auto

termination drop_refs
  by (relation "measure length") (auto dest: key_ref_shorter)

declare drop_refs.simps [simp del]

definition before_set :: "string \<Rightarrow> exn + string" where
  "before_set v =
     (if CHR 0x25 \<in> set (drop_refs (drop_escapes v)) then Inl (ValueError ''invalid interpolation syntax'') else Inr v)"

text \<open>\<open>before_get\<close>: what is stored, with the doubled signs halved and the references looked up.\<close>

function before_get :: "(string \<Rightarrow> exn + string) \<Rightarrow> string \<Rightarrow> exn + string" where
  "before_get options cs =
     (case cs of
        [] \<Rightarrow> Inr []
      | c # rest \<Rightarrow>
          if c \<noteq> CHR 0x25 then map_sum id ((#) c) (before_get options rest)
          else if rest \<noteq> [] \<and> hd rest = CHR 0x25 then map_sum id ((#) c) (before_get options (tl rest))
          else
            (case key_ref cs of
               None \<Rightarrow> Inl (ValueError ''bad interpolation'')
             | Some (n, after) \<Rightarrow>
                 (case options n of
                    Inl x \<Rightarrow> Inl x
                  | Inr v \<Rightarrow> map_sum id ((@) v) (before_get options after))))"
  by pat_completeness auto

termination before_get
  by (relation "measure (\<lambda>(options, cs). length cs)") (auto dest: key_ref_shorter)

declare before_get.simps [simp del]

subsection \<open>env.py\<close>

datatype env_event =
    ConfigureLogging string
  | ConfigureOffline string
  | CreateEngine string
  | Connect
  | ConfigureOnline
  | BeginTransaction
  | RunMigrations
  | Dispose

datatype 'x env_error =
    OptionError exn
  | ConnectError exn
  | MigrationError 'x

record 's alembic =
  offline_mode :: bool
  config_file_name :: "string option"
  other_options :: "string \<Rightarrow> exn + string"
  refused :: "exn option"

definition run_migrations_offline ::
    "'s alembic \<Rightarrow> ('s \<Rightarrow> 'x option \<times> 's) \<Rightarrow> string \<Rightarrow> 's \<Rightarrow> 'x env_error option \<times> env_event list \<times> 's" where
  "run_migrations_offline a run_migrations stored w =
     (case before_get (other_options a) stored of
        Inl x \<Rightarrow> (Some (OptionError x), [], w)
      | Inr url \<Rightarrow>
          (let (err, w') = run_migrations w in
           (map_option MigrationError err, [ConfigureOffline url, BeginTransaction, RunMigrations], w')))"

text \<open>The engine is disposed of after the connection is closed, but not when something raises before.\<close>

definition run_async_migrations ::
    "'s alembic \<Rightarrow> ('s \<Rightarrow> 'x option \<times> 's) \<Rightarrow> string \<Rightarrow> 's \<Rightarrow> 'x env_error option \<times> env_event list \<times> 's" where
  "run_async_migrations a run_migrations stored w =
     (case before_get (other_options a) stored of
        Inl x \<Rightarrow> (Some (OptionError x), [], w)
      | Inr url \<Rightarrow>
          (case refused a of
             Some x \<Rightarrow> (Some (ConnectError x), [CreateEngine url], w)
           | None \<Rightarrow>
               (let opened = [CreateEngine url, Connect, ConfigureOnline, BeginTransaction, RunMigrations] in
                case run_migrations w of
                  (Some x, w') \<Rightarrow> (Some (MigrationError x), opened, w')
                | (None, w') \<Rightarrow> (None, opened @ [Dispose], w'))))"

definition env_main ::
    "settings \<Rightarrow> 's alembic \<Rightarrow> ('s \<Rightarrow> 'x option \<times> 's) \<Rightarrow> 's \<Rightarrow> 'x env_error option \<times> env_event list \<times> 's" where
  "env_main s a run_migrations w =
     (case before_set (DATABASE_URL s) of
        Inl x \<Rightarrow> (Some (OptionError x), [], w)
      | Inr stored \<Rightarrow>
          (let logging = (case config_file_name a of None \<Rightarrow> [] | Some f \<Rightarrow> [ConfigureLogging f]);
               (err, evs, w') =
                 (if offline_mode a then run_migrations_offline a run_migrations stored w
                  else run_async_migrations a run_migrations stored w)
           in (err, logging @ evs, w')))"

subsection \<open>Which URLs arrive\<close>

lemma before_get_plain:
  "CHR 0x25 \<notin> set v \<Longrightarrow> before_get options v = Inr v"
proof (induction v)
  case (Cons c v)
  then show ?case by (subst before_get.simps) auto
qed (simp add: before_get.simps)

lemma drop_escapes_plain: "CHR 0x25 \<notin> set xs \<Longrightarrow> drop_escapes (xs @ ys) = xs @ drop_escapes ys"
proof (induction xs)
  case (Cons x xs)
  then show ?case by (cases "xs @ ys") auto
qed simp

lemma drop_refs_plain:
  assumes "CHR 0x25 \<notin> set xs"
  shows "drop_refs (xs @ ys) = xs @ drop_refs ys"
  using assms
proof (induction xs)
  case (Cons x xs)
  have "key_ref (x # xs @ ys) = None" using Cons.prems by (intro no_key_ref) auto
  then show ?case using Cons by (simp add: drop_refs.simps [of "x # xs @ ys"])
qed simp

lemma before_set_plain: "CHR 0x25 \<notin> set v \<Longrightarrow> before_set v = Inr v"
  using drop_escapes_plain [of v "[]"] drop_refs_plain [of v "[]"] by (simp add: before_set_def drop_refs.simps key_ref_def)

text \<open>A percent sign before anything but a second one or a parenthesis, as in a percent-encoded password.\<close>

lemma before_set_lone:
  assumes "CHR 0x25 \<notin> set xs" and c: "c \<noteq> CHR 0x25" "c \<noteq> CHR 0x28"
  shows "before_set (xs @ CHR 0x25 # c # ys) = Inl (ValueError ''invalid interpolation syntax'')"
proof -
  obtain zs where "drop_escapes (c # ys) = c # zs" using c(1) by (cases ys) auto
  then have "drop_escapes (xs @ CHR 0x25 # c # ys) = xs @ CHR 0x25 # c # zs"
    using drop_escapes_plain [OF assms(1)] c(1) by simp
  moreover have "key_ref (CHR 0x25 # c # zs) = None" using c(2) by (intro no_key_ref) simp
  ultimately show ?thesis
    using drop_refs_plain [OF assms(1)] by (simp add: before_set_def drop_refs.simps [of "CHR 0x25 # c # zs"])
qed

end
