(* ===== verification/Schema_Properties.thy ===== *)
theory Schema_Properties
  imports Alembic_Env
begin

section \<open>Properties of the schema\<close>

text \<open>Two tables that differ at most in the order of their constraints; the schema has what a class declares.\<close>

definition same_table :: "table_def \<Rightarrow> table_def \<Rightarrow> bool" where
  "same_table t u \<longleftrightarrow>
     tab_name t = tab_name u \<and> tab_columns t = tab_columns u \<and> tab_options t = tab_options u \<and>
     set (tab_constraints t) = set (tab_constraints u)"

definition provides :: "schema \<Rightarrow> model \<Rightarrow> bool" where
  "provides s m \<longleftrightarrow>
     list_all (\<lambda>t. tab_name t = mod_table m \<longrightarrow> same_table t (table_of m)) (sch_tables s) \<and> has_table s (mod_table m) \<and>
     filter (\<lambda>i. idx_table i = mod_table m) (sch_indexes s) = indexes_of m"

lemmas columns_simps = table_of_def m_users_def user_model_def m_products_def product_model_def m_providers_def
  provider_model_def m_inventory_def inventory_model_def m_reservations_def reservation_model_def m_orders_def
  order_model_def m_reservation_items_def item_model_def primary_def references_def plain_def mapped_column_def
  stamps_def id_col_def col_def optional_def mysql_args_def

lemma scripts_same:
  "same_table m_users (table_of user_model)" "same_table m_products (table_of product_model)"
  "same_table m_providers (table_of provider_model)" "same_table m_inventory (table_of inventory_model)"
  "same_table m_reservations (table_of reservation_model)" "same_table m_orders (table_of order_model)"
  "same_table m_reservation_items (table_of item_model)"
  unfolding same_table_def by (simp_all add: columns_simps insert_commute)

definition migrated :: schema where
  "migrated = snd (snd (upgrade_head None no_schema))"

definition booted :: schema where
  "booted = snd (create_all no_schema)"

text \<open>C35:
  On an empty database both migrations run through, and so does \<open>create_tables\<close>.  Both give every mapped class the
  table it declares: the columns with their types, lengths, NULL and AUTO_INCREMENT, the
  keys, foreign keys with their ON DELETE, UNIQUE constraints, and the indexes.  The migrations make one
  table more, \<open>examples\<close>, which no class maps.  The order of the first boot and the first migration
  matters: after the migrations \<open>create_tables\<close> changes nothing, but on a database that a development
  server has filled, with no revision recorded, \<open>alembic upgrade head\<close> fails at its first statement.\<close>

theorem migrations_match_models:
  "fst (upgrade_head None no_schema) = None \<and> fst (create_all no_schema) = None \<and>
   list_all (provides migrated) metadata \<and> list_all (provides booted) metadata \<and>
   map tab_name (filter (\<lambda>t. tab_name t \<notin> set (map mod_table metadata)) (sch_tables migrated)) = [''examples''] \<and>
   length (sch_tables booted) = length metadata \<and>
   create_all migrated = (None, migrated) \<and>
   upgrade_head None booted = (Some (TableExists ''users''), None, booted)"
proof -
  have "list_all (provides migrated) metadata"
    by (simp add: migrated_def scripts_run metadata_def provides_def has_table_def scripts_same model_indexes)
  moreover have "list_all (provides booted) metadata"
    by (simp add: booted_def metadata_runs metadata_def provides_def has_table_def same_table_def model_indexes)
  moreover have "create_all migrated = (None, migrated)"
    by (rule create_all_again) (auto simp: migrated_def scripts_run metadata_def has_table_def)
  moreover have "upgrade_head None booted = (Some (TableExists ''users''), None, booted)"
    by (rule upgrade_blocked) (simp add: booted_def metadata_runs has_table_def)
  moreover have "map tab_name (filter (\<lambda>t. tab_name t \<notin> set (map mod_table metadata)) (sch_tables migrated)) = [''examples'']"
    and "length (sch_tables booted) = length metadata"
    by (simp_all add: migrated_def booted_def scripts_run metadata_runs metadata_def)
  ultimately show ?thesis using scripts_run metadata_runs by simp
qed

text \<open>C37:
  Each downgrade script takes back exactly its upgrade script, from any schema whose foreign keys and indexes
  are resolved: after an upgrade that ran through, \<open>alembic downgrade -1\<close> raises nothing, restores
  every table and index and records the revision before.\<close>

theorem downgrade_undoes_upgrade:
  assumes "r \<in> set revisions" and "schema_ok s" and "run_ddl (rev_upgrade r) s = (None, s')"
  shows "downgrade_one (Some (rev_id r)) s' = (None, down_revision r, s)"
  using revision_found [OF assms(1)] reversible.undo [OF revision_reversible [OF assms(1)] assms(2,3)]
  by (simp add: downgrade_one_def)

theorem downgrade_undoes_upgrade_witness:
  "downgrade_one (Some ''53ff60c9f0dd'') migrated = (None, Some ''0001'', snd (run_ddl upgrade_0001 no_schema))"
proof -
  let ?r = "revisions ! 1" and ?s = "snd (run_ddl upgrade_0001 no_schema)"
  have r: "?r \<in> set revisions" "rev_id ?r = ''53ff60c9f0dd''" "down_revision ?r = Some ''0001''"
    by (simp_all add: revisions_def)
  have ok: "schema_ok ?s"
    by (simp add: schema_ok_def upgrade_0001_def no_schema_def has_table_def same_index_def)
  have "run_ddl (rev_upgrade ?r) ?s = (None, migrated)"
    unfolding migrated_def scripts_run
    by (simp add: model_indexes revisions_def upgrade_0001_def upgrade_53ff_def no_schema_def
        has_table_def same_index_def)
  from downgrade_undoes_upgrade [OF r(1) ok this] r show ?thesis by simp
qed

text \<open>\<open>alembic upgrade head\<close> as what env.py runs: the recorded revision and the schema.\<close>

definition migrate_head :: "string option \<times> schema \<Rightarrow> ddl_error option \<times> string option \<times> schema" where
  "migrate_head vs = upgrade_head (fst vs) (snd vs)"

text \<open>C36:
  env.py connects to the database of the settings if DATABASE_URL has no percent sign: on an empty
  database that answers it runs both migrations and disposes of its engine.  But a URL with a percent-encoded
  character, as SQLAlchemy wants special characters of a password written, is refused with ValueError by
  the configuration before anything else happens, though the application itself can use it.\<close>

theorem migrations_need_plain_urls:
  "(CHR 0x25 \<notin> set (DATABASE_URL s) \<and> \<not> offline_mode a \<and> refused a = None \<longrightarrow>
     (\<exists>evs. env_main s a migrate_head (None, no_schema) =
       (None, evs @ [CreateEngine (DATABASE_URL s), Connect, ConfigureOnline, BeginTransaction, RunMigrations, Dispose],
        Some ''53ff60c9f0dd'', migrated))) \<and>
   (DATABASE_URL s = xs @ CHR 0x25 # c # ys \<and> CHR 0x25 \<notin> set xs \<and> c \<noteq> CHR 0x25 \<and> c \<noteq> CHR 0x28 \<longrightarrow>
     env_main s a run_migrations w = (Some (OptionError (ValueError ''invalid interpolation syntax'')), [], w))"
proof -
  have "migrate_head (None, no_schema) = (None, Some ''53ff60c9f0dd'', migrated)"
    by (simp add: migrate_head_def migrated_def scripts_run)
  then show ?thesis
    by (auto simp: env_main_def run_async_migrations_def before_set_plain before_get_plain before_set_lone)
qed

definition plain_alembic :: "(string option \<times> schema) alembic" where
  "plain_alembic = \<lparr>offline_mode = False, config_file_name = Some ''alembic.ini'', other_options = (\<lambda>n. Inl (KeyError n)), refused = None\<rparr>"

theorem migrations_need_plain_urls_witness:
  "fst (env_main default_settings plain_alembic migrate_head (None, no_schema)) = None \<and>
   fst (env_main (default_settings\<lparr>DATABASE_URL := ''mysql+aiomysql://u:p%40s@db/d''\<rparr>) plain_alembic migrate_head (None, no_schema)) =
     Some (OptionError (ValueError ''invalid interpolation syntax''))"
proof -
  have "CHR 0x25 \<notin> set (DATABASE_URL default_settings)" and "\<not> offline_mode plain_alembic" "refused plain_alembic = None"
    by (simp_all add: default_settings_def plain_alembic_def)
  moreover have "DATABASE_URL (default_settings\<lparr>DATABASE_URL := ''mysql+aiomysql://u:p%40s@db/d''\<rparr>) =
      ''mysql+aiomysql://u:p'' @ CHR 0x25 # CHR ''4'' # ''0s@db/d''" by simp
  ultimately show ?thesis
    using migrations_need_plain_urls [of default_settings plain_alembic]
      migrations_need_plain_urls [of "default_settings\<lparr>DATABASE_URL := ''mysql+aiomysql://u:p%40s@db/d''\<rparr>" plain_alembic
        "''mysql+aiomysql://u:p''" "CHR ''4''" "''0s@db/d''" migrate_head "(None, no_schema)"]
    by force
qed

end
