(* ===== verification/App_Properties.thy ===== *)
theory App_Properties
  imports Middleware Sample
begin

section \<open>Properties of the routes and of the layers around them\<close>

text \<open>C38:
  Every request of the reservation API, written as method, URL and body, is routed by the table of the
  decorators to its endpoint and read back as the same request, as long as pydantic reads the
  decimal form of its id.  No earlier route of the table catches it.\<close>

theorem urls_round_trip:
  assumes "\<And>k. path_id req = Some k \<Longrightarrow> path_int (str_int k) = Some k"
  shows "read_request path_int (write_request req) = Some req"
  using assms by (rule read_written)

theorem urls_round_trip_witness:
  "read_request (\<lambda>s. if s = ''42'' then Some 42 else None) \<lparr>http_verb = Post, http_path = ''/api/v1/reservations/42/confirm'', http_body = NoBody\<rparr> =
     Some (ConfirmReservation 42)"
proof -
  have "str_int 42 = ''42''" by code_simp
  then show ?thesis using urls_round_trip [of "ConfirmReservation 42" "\<lambda>s. if s = ''42'' then Some 42 else None"] by simp
qed

text \<open>C39:
  The layers of \<open>create_app\<close> change no reply and no table: they compose to \<open>serve\<close>.  A failure carries the
  request id in its body.  Every request leaves two log lines with its id: either the second one has the
  status of the reply, which then also has the header X-Request-ID, or it reports an exception without
  a handler, and the reply is the 500 of the outermost layer, which has no such header.\<close>

theorem layers_keep_reply:
  "case app_call rid t0 t1 c det e now req w of ((m, w'), ls) \<Rightarrow>
     (msg_reply m, w') = serve det e now req w \<and>
     (case msg_reply m of Failure st tx b hs \<Rightarrow> msg_body_id m = Some rid | _ \<Rightarrow> msg_body_id m = None) \<and>
     ((\<exists>x. ls = [RequestLine rid (call_verb c) (call_path c) (case call_client c of None \<Rightarrow> ''unknown'' | Some h \<Rightarrow> h),
           ErrorLine rid x] \<and> msg_reply m = unhandled_exception_handler \<and> msg_headers m = []) \<or>
      (ls = [RequestLine rid (call_verb c) (call_path c) (case call_client c of None \<Rightarrow> ''unknown'' | Some h \<Rightarrow> h),
         ResponseLine rid (call_verb c) (call_path c) (reply_status (msg_reply m)) (t1 - t0)] \<and>
       (''X-Request-ID'', rid) \<in> set (msg_headers m)))"
proof -
  obtain m w' ls where run: "app_call rid t0 t1 c det e now req w = ((m, w'), ls)"
    by (cases "app_call rid t0 t1 c det e now req w") auto
  then show ?thesis
    using app_call_serve [OF run]
    by (auto simp: app_call_def error_layer_def logging_layer_def exception_layer_def response_def Let_def
        unhandled_exception_handler_def envelope_def split: prod.splits sum.splits if_splits reply.splits)
qed

end
