(* ===== verification/Spec2Isabelle.thy ===== *)
theory Spec2Isabelle
  imports Reservation_Properties Closing_Properties Provider_Properties Api_Properties
    Auth_Properties Support_Properties Seeding Lifespan Book Lock_Properties Overlap
    Sweep_Properties Settle_Locks Schema_Properties App_Properties
begin

text \<open>
  \<^bold>\<open>The program.\<close>  A FastAPI service that reserves stock.  A client reserves products for a user;
  the service picks the best inventory row of each product, books it locally, asks the row's provider to
  hold the goods (an external warehouse over HTTP, or the shop's own stock), and keeps the
  reservation pending until it is confirmed (which makes an order), cancelled, or expired by a periodic
  sweep.  Beside it stand user accounts with bearer tokens, a rate limiter, paging, settings, a
  seeder and a management command line.  Every request runs in one database transaction.

  \<^bold>\<open>Theories and the files they model\<close> (paths under src/app unless they start with src).
  \<^item> \<open>Prelude\<close>: rows by key, sums over rows, Python's \<open>str\<close>; the locale \<open>row_store\<close>
    of a table.  \<open>Python_Int\<close>: Python's \<open>int\<close> and its round trip with \<open>str\<close>.
  \<^item> \<open>Models\<close> (models, core/exceptions.py): a record per ORM class, a datatype per enumeration, the
    database as a record of tables, the exceptions.  \<open>Repositories\<close> (repositories): the queries.
  \<^item> \<open>Providers\<close> (providers): both adapters and the registry; the state \<open>world\<close> is the database and
    the requests sent so far, and an \<open>env\<close> answers them.  \<open>Session\<close> (db/session.py): commit and
    rollback, and the locale \<open>transaction\<close>.
  \<^item> \<open>Reservation_Service\<close> (services/reservation_service.py): create, confirm, cancel,
    expire_batch.  \<open>Reservation_Effects\<close>, \<open>Ledger\<close>, \<open>Lifecycle\<close>, \<open>Creation\<close>, \<open>Stock\<close>, \<open>Exact\<close>:
    what each loop does to the tables, the invariant \<open>db_inv\<close> (keys, references, statuses, orders, the
    ledger of \<open>qty_reserved\<close>), the invariant \<open>stock_inv\<close> of a stock that is never oversold, and the
    exact effect of every operation that returns.
  \<^item> \<open>Inventory_Service\<close> (services/inventory_service.py, order_service.py), \<open>Schemas\<close> (schemas),
    \<open>Http\<close> (core/response.py, core/exception_handler.py), \<open>Api\<close> (api/v1): availability,
    synchronisation, validation, replies, and \<open>serve\<close>, one request from its fields to its reply.
    \<open>Worker\<close> (workers/expiry_worker.py): the sweep and its progress.
  \<^item> \<open>System\<close>: runs of requests and sweeps.  \<open>Outgoing\<close>, \<open>Conversation\<close>: what is sent to whom.
    \<open>Book\<close>: the abstract specification (reservations with a status and quantities, and the stock)
    and the simulation of every operation by a step of the book.
  \<^item> \<open>Concurrency\<close>: any number of overlapping sessions of \<open>create\<close> from the pre-flight check to the commit,
    each with the rows it has read, the row locks of \<open>SELECT ... FOR UPDATE\<close>, and a schedule of their turns, in
    which the database may end the wait of a session.  \<open>Separate\<close>: sessions that share no product, whose last turn
    is \<open>create\<close>.  \<open>Lock_Order\<close>: who waits for whom.  \<open>Overlap\<close>: two requests on one
    reservation that have read the same state, as the commit of what a session has changed.
    \<open>Replicas\<close>: any number of replicas whose sweeps overlap, with FOR UPDATE SKIP LOCKED, as a schedule of
    turns that start or end a sweep.  \<open>Settle_Locks\<close>: the order in which confirm, cancel and a sweep want locks.
  \<^item> \<open>Migrations\<close> (migrations/versions, the columns of models, create_tables of db/session.py): the schema as
    data, the two scripts statement by statement, the metadata of the classes.  \<open>Alembic_Env\<close>
    (migrations/env.py): what the script does around the migrations, and ConfigParser's percent signs.
    \<open>Routing\<close> (the decorators of api/v1/routers, api/v1/router, src/main.py): the table of routes and
    Starlette's search in it.
    \<open>Middleware\<close> (core/middleware.py, core/logging.py, src/main.py): the layers around \<open>serve\<close>.
  \<^item> \<open>Users\<close> (models/user.py, repositories/user_repository.py, services/base.py,
    services/user_service.py, schemas/user.py), \<open>Tokens\<close> (core/security.py), \<open>Auth_Api\<close>
    (core/dependencies.py, api/v1/routers/auth_router.py): accounts, tokens and the six routes with
    the limiter in front of two of them.  \<open>Rate_Limit\<close> (core/rate_limit.py), \<open>Pagination\<close>
    (db/pagination.py), \<open>Settings\<close> (core/config.py), \<open>Console\<close> (src/manage.py, src/seed.py, commands),
    \<open>Seeding\<close> (seeders), \<open>Lifespan\<close> (src/main.py, src/run.py, the scheduler, the health check, the
    options of engine and sessions).
  \<^item> \<open>Sample\<close>, \<open>Auth_Sample\<close>: a concrete shop and a concrete account, on which the theorems are
    applied.  The theories named \<open>_Properties\<close>, \<open>Seeding\<close>, \<open>Overlap\<close>, \<open>Settle_Locks\<close> and this one hold the numbered properties;
    the ones below speak of whole runs.

  \<^bold>\<open>What the lemmas show.\<close>  Invariants: \<open>db_inv\<close> and \<open>stock_inv\<close> for every run, unique and well-typed
  accounts.  Exact results of create, confirm, cancel, a synchronisation and a sign-up; error paths leave the tables as
  they were.  Refinement: every run of the system is a run of the book, the limiter refines a log of all admissions.
  Round trips: sign-up, login, profile; upgrade and downgrade of the schema; a request, its URL and
  its endpoint.  Equivalence: the migrations and the mapped classes declare the same tables, the layers of
  the application compose to \<open>serve\<close>.  Overlapping requests: those that share no product never oversell
  (\<open>separate_requests_never_oversell\<close>), and those that list their products in order never deadlock
  (\<open>ascending_requests_finish\<close>).  Overlapping sweeps: no reservation is expired twice
  (\<open>sweeps_expire_once\<close>), no live item loses its stock (\<open>sweeps_never_oversell\<close>); both rest on
  \<open>leaky_inv\<close>, the invariant up to quantities that stay reserved for nobody.  Liveness: sweeps deal with every expired reservation
  whose provider can be resolved; a refused client that waits is served.  Some theorems
  state what the code does although it is hardly meant: internal stock is booked twice
  (\<open>create_then_cancel_leaks\<close>, \<open>internal_hold_needs_twice\<close>), granted holds are not given back when a
  later item is refused (\<open>create_only_posts\<close>), one bad provider stops the sweep (\<open>sweep_blocked\<close>),
  overlapping requests oversell (\<open>stale_instances_oversell\<close>), deadlock (\<open>crossed_requests_block\<close>, \<open>settling_and_sweep_deadlock\<close>) or settle a
  reservation twice (\<open>overlapping_cancel_breaks_order\<close>), overlapping sweeps leak reserved quantities
  (\<open>overlapping_sweeps_leak\<close>), and a sweep overwrites the hold of a reservation created meanwhile
  (\<open>sweep_forgets_create\<close>).

  \<^bold>\<open>Assumptions of the model.\<close>
  \<^item> Transactions are serial: each request or sweep runs to its end before the next starts.  Only
    \<open>Concurrency\<close> with the theories above it, \<open>Overlap\<close>, \<open>Replicas\<close> and \<open>Settle_Locks\<close> let sessions overlap.  There a session reads one
    snapshot (REPEATABLE READ), row locks are held to the end of the transaction, an UPDATE writes the
    columns that were changed with the values of the session's instances, and SQLAlchemy keeps the attributes of
    an instance that is read again; \<open>refresh\<close> allows the other reading, and no theorem rests on it.  A session of
    \<open>create\<close> that has its locks holds, persists and commits in one turn.
    A sweep of \<open>Replicas\<close> reads, works and sends its requests in one turn and commits in another; in
    between the reservations it has locked are skipped by other sweeps.  Its locks of inventory rows are not
    kept, which allows more schedules than the database does.
  \<^item> The clock is read once per request, in microseconds (in nanoseconds by the limiter), and a
    stored time is read back exactly; \<open>tz_aware\<close> says whether the driver returns aware datetimes.
  \<^item> Tables are lists in scan order; AUTO_INCREMENT counters survive a rollback.
    Columns hold unbounded integers and texts; where a bound matters (user ids and Python's limit on
    digits) it is a hypothesis.
  \<^item> Integers are Python's, hence \<open>int\<close>.  JSON floats are finite, values of auth_config are texts.
  \<^item> Not part of the repository, hence parameters: the network (\<open>http\<close>), \<open>str\<close> of other JSON values,
    the locations and messages of pydantic (\<open>det\<close>), bcrypt, the JWT library, the e-mail
    validator and the collation of the database (\<open>platform\<close>).  \<open>jwt_sound\<close> and
    \<open>bcrypt_sound\<close> are what the libraries document; \<open>Auth_Sample\<close> has an instance of both.
  \<^item> Every loop is over a list and every function total, so no fuel is needed; \<open>sorted_tables\<close> has a measure, and
    a schedule is a given list of turns.

  \<^bold>\<open>Not modelled.\<close>  What libraries do with the options they get: CORS headers, the connection pool, APScheduler and
  cron expressions; parsing of JSON and environment variables; the tests.
\<close>

section \<open>Properties of whole runs\<close>

text \<open>C2:
  In every run of requests and sweeps from a database that satisfies the invariant, the invariant
  holds at every point: ids are distinct and below their counters, items refer to existing rows,
  providers and reservations, the status of a reservation decides the status of its items,
  orders and confirmed reservations correspond, and the reserved quantities match the items.\<close>

theorem run_keeps_invariant:
  assumes "reachable det e w0 tr w" and "db_inv (db w0)"
  shows "db_inv (db w)"
  using assms by (rule reachable_inv)

theorem run_keeps_invariant_witness:
  "db_inv (db sold_world) \<and> length (orders (db sold_world)) = 1"
proof -
  have "reachable no_details granting start_world [(0, Request order_both), (5, Request (ConfirmReservation 1))] sold_world"
    by (simp add: reachable_after sold_world_def)
  from run_keeps_invariant [OF this] have "db_inv (db sold_world)" by (simp add: start_world_def shop_inv)
  moreover have "length (orders (db sold_world)) = 1" by code_simp
  ultimately show ?thesis by blast
qed

text \<open>C1:
  In a run without synchronisations no row is ever oversold: what has been sold from it and what
  pending reservations hold never exceed the stock it started with, available and sold quantity
  always add up to that stock, and no more is reserved than is available.\<close>

theorem never_oversell:
  assumes "reachable det e w0 tr w" and "list_all local_event tr" and "stock_inv stock (db w0)"
    and "r \<in> set (inventories (db w))"
  shows "sold_sum (db w) (inv_id r) + live_sum (db w) (inv_id r) \<le> stock (inv_id r) \<and>
    qty_available r + sold_sum (db w) (inv_id r) = stock (inv_id r) \<and> qty_reserved r \<le> qty_available r"
proof -
  have inv: "stock_inv stock (db w)" by (rule reachable_stock_inv [OF assms(1-3)])
  then show ?thesis using no_oversell [OF inv assms(4)] assms(4)
    by (simp add: stock_inv_def conserved_def covered_def)
qed

theorem never_oversell_witness:
  "list_all (\<lambda>r. sold_sum (db sold_world) (inv_id r) + live_sum (db sold_world) (inv_id r) \<le> sample_stock (inv_id r))
     (inventories (db sold_world))"
proof -
  have "reachable no_details granting start_world [(0, Request order_both), (5, Request (ConfirmReservation 1))] sold_world"
    by (simp add: reachable_after sold_world_def)
  moreover have "list_all local_event [(0, Request order_both), (5, Request (ConfirmReservation 1))]"
    by (simp add: local_event_def is_sync_def order_both_def)
  moreover have "stock_inv sample_stock (db start_world)" by (simp add: start_world_def shop_stock_inv)
  ultimately have "\<forall>r \<in> set (inventories (db sold_world)).
      sold_sum (db sold_world) (inv_id r) + live_sum (db sold_world) (inv_id r) \<le> sample_stock (inv_id r)"
    using never_oversell by blast
  then show ?thesis by (simp only: list_all_iff)
qed

text \<open>
  In every run the reserved quantity of a row of an external provider is exactly what the pending
  reservations hold on it; on a row of an internal provider it is larger by everything
  that was ever reserved on the row, released or not.\<close>

theorem reserved_ledger:
  assumes "reachable det e w0 tr w" and "db_inv (db w0)" and "r \<in> set (inventories (db w))"
    and "get_provider (db w) (inv_provider_id r) = Some p"
  shows "qty_reserved r = live_sum (db w) (inv_id r) +
    (if prov_type p = internal then all_sum (db w) (inv_id r) else 0)"
proof -
  have "db_inv (db w)" by (rule reachable_inv [OF assms(1,2)])
  then have "qty_reserved r = live_sum (db w) (inv_id r) + row_booking (db w) r * all_sum (db w) (inv_id r)"
    using assms(3) by (auto simp: db_inv_def core_def ledger_def)
  then show ?thesis using assms(4) by (simp add: row_booking_def booking_def)
qed

theorem reserved_ledger_witness:
  "\<exists>r \<in> set (inventories (db lapsed_world)). inv_id r = 2 \<and> qty_reserved r = 2"
proof -
  have "reachable no_details granting start_world [(0, Request order_both), (1000000000, Sweep)] lapsed_world"
    by (simp add: reachable_after lapsed_world_def)
  moreover have "db_inv (db start_world)" by (simp add: start_world_def shop_inv)
  moreover have "get_inventory (db lapsed_world) 2 \<noteq> None"
    and "get_provider (db lapsed_world) (inv_provider_id (the (get_inventory (db lapsed_world) 2))) = Some own_stock"
    and "live_sum (db lapsed_world) 2 = 0" and "all_sum (db lapsed_world) 2 = 2" and "prov_type own_stock = internal"
    by code_simp+
  moreover obtain r where "get_inventory (db lapsed_world) 2 = Some r" using calculation(3) by auto
  moreover from this have "r \<in> set (inventories (db lapsed_world))" "inv_id r = 2"
    by (simp_all add: get_inventory_def find_by_SomeD)
  ultimately show ?thesis using reserved_ledger [of no_details granting start_world _ lapsed_world r own_stock] by auto
qed

text \<open>C18:
  In every run no reservation and no order is ever lost, a reservation keeps its id, user, expiry
  and creation time, and its status either stays or moves once, from pending to a settled status.\<close>

theorem history_is_kept:
  assumes "reachable det e w0 tr w" and "db_inv (db w0)"
  shows "(\<forall>r \<in> set (reservations (db w0)). \<exists>r' \<in> set (reservations (db w)).
      res_id r' = res_id r \<and> res_user_id r' = res_user_id r \<and> expires_at r' = expires_at r \<and>
      res_created_at r' = res_created_at r \<and>
      (res_status r' = res_status r \<or> res_status r = Pending)) \<and>
    set (orders (db w0)) \<subseteq> set (orders (db w))"
proof -
  have same: "res_id r' = res_id r \<and> res_user_id r' = res_user_id r \<and> expires_at r' = expires_at r \<and>
      res_created_at r' = res_created_at r \<and> (res_status r' = res_status r \<or> res_status r = Pending)"
    if "same_reservation r r'" for r r'
    using that by (auto simp: same_reservation_def set_status_def)
  have "advances (db w0) (db w)" by (rule reachable_advances [OF assms])
  then show ?thesis using same unfolding advances_def by meson
qed

theorem history_is_kept_witness:
  "list_all (\<lambda>r. \<exists>r' \<in> set (reservations (db (after no_details granting [(5, Request (ConfirmReservation 1))] held_world))).
       res_id r' = res_id r \<and> res_user_id r' = res_user_id r) (reservations (db held_world))"
proof -
  have "reachable no_details granting held_world [(5, Request (ConfirmReservation 1))]
      (after no_details granting [(5, Request (ConfirmReservation 1))] held_world)"
    by (simp add: reachable_after)
  from history_is_kept [OF this held_inv] show ?thesis unfolding list_all_iff by meson
qed

text \<open>
  In every run a reservation is confirmed exactly when there is an order of it, there is never
  more than one, and every order belongs to a reservation.\<close>

theorem orders_are_confirmations:
  assumes "reachable det e w0 tr w" and "db_inv (db w0)"
  shows "(\<forall>r \<in> set (reservations (db w)). res_status r = Confirmed \<longleftrightarrow>
      (\<exists>x \<in> set (orders (db w)). order_reservation_id x = res_id r)) \<and>
    distinct (map order_reservation_id (orders (db w))) \<and>
    order_reservation_id ` set (orders (db w)) \<subseteq> res_id ` set (reservations (db w))"
proof -
  have inv: "db_inv (db w)" by (rule reachable_inv [OF assms])
  then have ids: "order_reservation_id ` set (orders (db w)) =
      res_id ` {r \<in> set (reservations (db w)). res_status r = Confirmed}"
    and dist: "distinct (map order_reservation_id (orders (db w)))"
    by (simp_all add: db_inv_def orders_ok_def)
  have "res_status r = Confirmed \<longleftrightarrow> (\<exists>x \<in> set (orders (db w)). order_reservation_id x = res_id r)"
    if r: "r \<in> set (reservations (db w))" for r
  proof -
    have "(\<exists>x \<in> set (orders (db w)). order_reservation_id x = res_id r) \<longleftrightarrow>
        res_id r \<in> res_id ` {r \<in> set (reservations (db w)). res_status r = Confirmed}"
      unfolding ids [symmetric] by force
    also have "\<dots> \<longleftrightarrow> res_status r = Confirmed"
      using reservation_unique [OF db_inv_keys [OF inv] _ r] r by auto
    finally show ?thesis by simp
  qed
  with ids dist show ?thesis by auto
qed

theorem orders_are_confirmations_witness:
  "list_all (\<lambda>r. res_status r = Confirmed \<longleftrightarrow>
     (\<exists>x \<in> set (orders (db sold_world)). order_reservation_id x = res_id r)) (reservations (db sold_world))"
proof -
  have "reachable no_details granting start_world [(0, Request order_both), (5, Request (ConfirmReservation 1))] sold_world"
    by (simp add: reachable_after sold_world_def)
  moreover have "db_inv (db start_world)" by (simp add: start_world_def shop_inv)
  ultimately show ?thesis unfolding list_all_iff using orders_are_confirmations by blast
qed

text \<open>C26:
  In every run, every request sent goes to the base URL of an external provider of the
  database, with the credentials of that provider's configuration and its timeout: credentials are
  never sent to another provider, and an internal provider is never called.\<close>

theorem requests_stay_home:
  assumes "reachable det e w0 tr w" and "rq \<in> set (sent w)" and "sent w0 = []"
  shows "\<exists>p \<in> set (providers (db w0)). \<exists>hs path. prov_type p = external \<and>
    build_auth_headers (case auth_config p of None \<Rightarrow> [] | Some ac \<Rightarrow> ac) = Inr hs \<and> req_headers rq = hs \<and>
    req_url rq = rstrip (CHR ''/'') (case base_url p of None \<Rightarrow> [] | Some u \<Rightarrow> u) @ path \<and>
    req_timeout rq = timeout_seconds p"
proof -
  have "addressed (providers (db w0)) rq" using reachable_sends [OF assms(1)] assms(2,3) by auto
  then obtain p a path where "p \<in> set (providers (db w0))" "prov_type p = external" and a: "external_init p = Inr a"
    and "req_url rq = ext_base_url a @ path" "req_headers rq = ext_headers a" "req_timeout rq = timeout_seconds p"
    by (auto simp: addressed_def)
  then show ?thesis using external_initD [OF a] by auto
qed

theorem requests_stay_home_witness:
  "sent sold_world \<noteq> [] \<and> list_all (\<lambda>rq. req_headers rq = [(''K'', ''v'')]) (sent sold_world)"
proof -
  have r: "reachable no_details granting start_world [(0, Request order_both), (5, Request (ConfirmReservation 1))] sold_world"
    by (simp add: reachable_after sold_world_def)
  have "providers (db start_world) = [own_stock, warehouse]" and "sent start_world = []" and "sent sold_world \<noteq> []"
    and "prov_type own_stock = internal"
    and "build_auth_headers (case auth_config warehouse of None \<Rightarrow> [] | Some ac \<Rightarrow> ac) = Inr [(''K'', ''v'')]"
    by code_simp+
  then show ?thesis unfolding list_all_iff using requests_stay_home [OF r] by fastforce
qed

text \<open>
  Refinement, one event: whatever a request does to the tables is, for the book of reservations, nothing or
  one step (a reservation that the stock covers together with everything pending is opened, a
  pending one is sold or cancelled), a synchronisation may also replace the stock figures, and a
  sweep is a series of expiries of pending reservations.\<close>

theorem system_refines_book:
  assumes "step det e w ev w'" and "db_inv (db w)"
  shows "case snd ev of
      Request req \<Rightarrow> book_step\<^sup>=\<^sup>= (book_of (db w)) (book_of (db w')) \<or>
        is_sync req \<and> book_restock (book_of (db w)) (book_of (db w'))
    | Sweep \<Rightarrow> book_expiry\<^sup>*\<^sup>* (book_of (db w)) (book_of (db w'))"
  using assms(1)
proof cases
  case (request now req rep)
  then show ?thesis using serve_book [OF request(2) assms(2)] by simp
next
  case (sweep now)
  then show ?thesis using sweep_book [OF assms(2), of e now] by simp
qed

theorem system_refines_book_witness:
  "book_step (book_of (db start_world)) (book_of (db held_world)) \<and>
   bk_status (book_of (db held_world)) 1 = Some Pending \<and> bk_lines (book_of (db held_world)) 1 2 = 2"
proof -
  have "held_world = snd (serve no_details granting 0 order_both start_world)"
    by (simp add: held_world_def after_def)
  then have st: "step no_details granting start_world (0, Request order_both) held_world"
    by (auto simp: step_iff) (metis prod.collapse)
  have "db_inv (db start_world)" by (simp add: start_world_def shop_inv)
  from system_refines_book [OF st this]
  have "book_step\<^sup>=\<^sup>= (book_of (db start_world)) (book_of (db held_world))"
    by (simp add: order_both_def is_sync_def)
  moreover have none: "bk_status (book_of (db start_world)) 1 = None"
    and new: "bk_status (book_of (db held_world)) 1 = Some Pending" "bk_lines (book_of (db held_world)) 1 2 = 2"
    by code_simp+
  moreover have "book_of (db start_world) \<noteq> book_of (db held_world)"
    using none new(1) by (metis option.distinct(1))
  ultimately show ?thesis by (simp del: book_of_sel)
qed

definition book_move :: "bool \<Rightarrow> book \<Rightarrow> book \<Rightarrow> bool" where
  "book_move restock b b' \<longleftrightarrow> book_step b b' \<or> book_expiry b b' \<or> restock \<and> book_restock b b'"

lemma event_moves_book:
  assumes "step det e w ev w'" and "db_inv (db w)" and "\<not> restock \<longrightarrow> local_event ev"
  shows "(book_move restock)\<^sup>*\<^sup>* (book_of (db w)) (book_of (db w'))"
proof (cases "snd ev")
  case (Request req)
  then have "book_step\<^sup>=\<^sup>= (book_of (db w)) (book_of (db w')) \<or> restock \<and> book_restock (book_of (db w)) (book_of (db w'))"
    using system_refines_book [OF assms(1,2)] assms(3) by (auto simp: local_event_def)
  then show ?thesis by (auto simp: book_move_def)
next
  case Sweep
  then have "book_expiry\<^sup>*\<^sup>* (book_of (db w)) (book_of (db w'))" using system_refines_book [OF assms(1,2)] by simp
  then show ?thesis by (rule rtranclp_mono [THEN predicate2D, rotated]) (auto simp: book_move_def)
qed

lemma book_moves_ok: "(book_move False)\<^sup>*\<^sup>* b b' \<Longrightarrow> book_ok b \<Longrightarrow> book_ok b'"
  by (induction rule: rtranclp_induct) (auto simp: book_move_def intro: book_step_ok book_expiry_ok)

text \<open>C3:
  Refinement: every run of requests and sweeps is, for the book of reservations, a series of openings that
  the stock covers together with everything pending, sales, cancellations and expiries of pending
  reservations, and of new stock figures only if it contains a synchronisation.  Without one, the promise of
  the book holds to the end: what is pending on a row never exceeds its stock.\<close>

theorem runs_refine_book:
  assumes "reachable det e w0 tr w" and "db_inv (db w0)"
  shows "(book_move (\<not> list_all local_event tr))\<^sup>*\<^sup>* (book_of (db w0)) (book_of (db w)) \<and>
    (list_all local_event tr \<longrightarrow> book_ok (book_of (db w0)) \<longrightarrow> book_ok (book_of (db w)))"
proof -
  have moves: "(book_move restock)\<^sup>*\<^sup>* (book_of (db w0)) (book_of (db w))" if "\<not> restock \<longrightarrow> list_all local_event tr" for restock
    using assms that
  proof (induction rule: reachable.induct)
    case start
    then show ?case by simp
  next
    case (more tr w ev w')
    then have "(book_move restock)\<^sup>*\<^sup>* (book_of (db w)) (book_of (db w'))"
      by (intro event_moves_book [OF more.hyps(2) reachable_inv [OF more.hyps(1)]]) auto
    with more show ?case by auto
  qed
  then show ?thesis using moves [of False] book_moves_ok by auto
qed

theorem runs_refine_book_witness:
  "(book_move False)\<^sup>*\<^sup>* (book_of (db start_world)) (book_of (db sold_world)) \<and>
   bk_status (book_of (db sold_world)) 1 = Some Confirmed"
proof -
  have run: "reachable no_details granting start_world [(0, Request order_both), (5, Request (ConfirmReservation 1))] sold_world"
    by (simp add: reachable_after sold_world_def)
  have local: "list_all local_event [(0, Request order_both), (5, Request (ConfirmReservation 1))]"
    by (simp add: local_event_def is_sync_def order_both_def)
  have inv: "db_inv (db start_world)" by (simp add: start_world_def shop_inv)
  have status: "bk_status (book_of (db sold_world)) 1 = Some Confirmed" by code_simp
  have "(book_move False)\<^sup>*\<^sup>* (book_of (db start_world)) (book_of (db sold_world))"
    using runs_refine_book [OF run inv] local by (simp only: simp_thms)
  then show ?thesis using status by blast
qed

end
